(* ===== verification/Xen_Prelude.thy ===== *)
theory Xen_Prelude
  imports Main "HOL-Library.Word" "HOL-Library.Sublist"
begin

text \<open>
  Shared vocabulary of the development: the machine types of the C sources, the error
  numbers the sources use, tests on flag words, raw byte memory with its bounds checks, and
  the generic facts on lists, words and loops that the component theories share.

  A C access outside an object has no defined result.  The model writes every access to a
  buffer as a partial operation: \<open>None\<close> stands for an access out of bounds (or a
  misaligned 64 bit access), and for a loop that does not end.  A theorem that an operation
  returns \<open>Some\<close> is therefore also a memory safety and termination theorem.
\<close>

section \<open>Machine types and error numbers\<close>

type_synonym byte = "8 word"
type_synonym u8 = "8 word"
type_synonym u16 = "16 word"
type_synonym u32 = "32 word"
type_synonym u64 = "64 word"

text \<open>Raw memory of one object: its bytes, in address order.\<close>

type_synonym memory = "byte list"

text \<open>The error numbers of \<^verbatim>\<open>errno.h\<close>, as the Linux headers define them.\<close>

abbreviation (input) EIO :: int where "EIO \<equiv> 5"
abbreviation (input) EAGAIN :: int where "EAGAIN \<equiv> 11"
abbreviation (input) ENOMEM :: int where "ENOMEM \<equiv> 12"
abbreviation (input) EFAULT :: int where "EFAULT \<equiv> 14"
abbreviation (input) ENODEV :: int where "ENODEV \<equiv> 19"
abbreviation (input) EINVAL :: int where "EINVAL \<equiv> 22"
abbreviation (input) ENOTTY :: int where "ENOTTY \<equiv> 25"
abbreviation (input) EFBIG :: int where "EFBIG \<equiv> 27"
abbreviation (input) EPIPE :: int where "EPIPE \<equiv> 32"
abbreviation (input) EDEADLK :: int where "EDEADLK \<equiv> 35"
abbreviation (input) ENOSYS :: int where "ENOSYS \<equiv> 38"
abbreviation (input) ENODATA :: int where "ENODATA \<equiv> 61"
abbreviation (input) ETIME :: int where "ETIME \<equiv> 62"
abbreviation (input) EMEDIUMTYPE :: int where "EMEDIUMTYPE \<equiv> 124"
abbreviation (input) ERESTARTSYS :: int where "ERESTARTSYS \<equiv> 512"

section \<open>Flag words\<close>

unbundle bit_operations_syntax

text \<open>\<^verbatim>\<open>w & m\<close> used as a condition, \<^verbatim>\<open>w |= m\<close> and \<^verbatim>\<open>w &= ~m\<close>.\<close>

definition flag_set :: "'a::len word \<Rightarrow> 'a word \<Rightarrow> bool" where
  "flag_set w m \<longleftrightarrow> w AND m \<noteq> 0"

definition set_flag :: "'a::len word \<Rightarrow> 'a word \<Rightarrow> 'a word" where
  "set_flag w m = w OR m"

definition clear_flag :: "'a::len word \<Rightarrow> 'a word \<Rightarrow> 'a word" where
  "clear_flag w m = w AND NOT m"

text \<open>A domain identifier of 16 bits that travels in a field of 32 bits.\<close>

lemma ucast_u16_u32 [simp]: "ucast (ucast (d :: u16) :: u32) = d"
  by (rule bit_word_eqI) (auto simp: bit_simps)

section \<open>Loops that may not end\<close>

text \<open>
  A C \<^verbatim>\<open>while\<close> loop whose body can run into undefined behaviour: \<open>loop\<close> satisfies the
  unfolding equation of the loop with condition \<open>cond\<close> and body \<open>body\<close> and returns only after
  finitely many rounds.  The interface gives the rules for total and for partial correctness
  once; each loop of the sources is an instance.
\<close>

locale option_loop =
  fixes cond :: "'s \<Rightarrow> bool"
    and body :: "'s \<Rightarrow> 's option"
    and loop :: "'s \<Rightarrow> 's option"
  assumes loop_unfold: "loop s = (if cond s then Option.bind (body s) loop else Some s)"
    and loop_induct: "loop s = Some t \<Longrightarrow> (\<And>s. \<not> cond s \<Longrightarrow> P s s)
      \<Longrightarrow> (\<And>s u t. cond s \<Longrightarrow> body s = Some u \<Longrightarrow> P u t \<Longrightarrow> P s t) \<Longrightarrow> P s t"
begin

lemma loop_done: "\<not> cond s \<Longrightarrow> loop s = Some s"
  by (subst loop_unfold) simp

lemma loop_step: "cond s \<Longrightarrow> body s = Some t \<Longrightarrow> loop s = loop t"
  by (subst loop_unfold) simp

lemma loop_total:
  fixes m :: "'s \<Rightarrow> nat"
  assumes body: "\<And>s. I s \<Longrightarrow> cond s \<Longrightarrow> \<exists>t. body s = Some t \<and> I t \<and> m t < m s"
    and init: "I s"
  shows "\<exists>t. loop s = Some t \<and> I t \<and> \<not> cond t"
  using init
proof (induction "m s" arbitrary: s rule: less_induct)
  case less
  show ?case
  proof (cases "cond s")
    case True
    with less.prems body obtain t where "body s = Some t" "I t" "m t < m s" by blast
    with less.hyps [of t] True show ?thesis by (simp add: loop_step)
  next
    case False
    with less.prems show ?thesis by (simp add: loop_done)
  qed
qed

lemma loop_partial:
  assumes "loop s = Some t" "I s"
    and "\<And>s u. I s \<Longrightarrow> cond s \<Longrightarrow> body s = Some u \<Longrightarrow> I u"
  shows "I t \<and> \<not> cond t"
  using loop_induct [OF assms(1), where P = "\<lambda>s t. I s \<longrightarrow> I t \<and> \<not> cond t"] assms(2,3) by blast

end

section \<open>Generic facts\<close>

named_theorems flag_simps \<open>facts on flag words\<close>

lemma flag_set_and_zero: "\<not> flag_set w m \<longleftrightarrow> w AND m = 0"
  by (simp add: flag_set_def)

lemma flag_set_set [flag_simps]: "m \<noteq> 0 \<Longrightarrow> flag_set (set_flag w m) m"
  by (simp add: flag_set_def set_flag_def and.commute bit.conj_disj_distrib)

lemma flag_set_clear [flag_simps]: "\<not> flag_set (clear_flag w m) m"
  by (simp add: flag_set_def clear_flag_def and.assoc)

lemma flag_set_set_other [simp, flag_simps]:
  "m AND k = 0 \<Longrightarrow> flag_set (set_flag w k) m = flag_set w m"
  by (simp add: flag_set_def set_flag_def and.commute bit.conj_disj_distrib)

lemma flag_set_clear_other [simp, flag_simps]:
  assumes "m AND k = 0"
  shows "flag_set (clear_flag w k) m = flag_set w m"
proof -
  have "(w AND NOT k) AND m = w AND m"
    using assms by (intro bit_eqI) (auto simp: bit_simps dest!: arg_cong [where f = "\<lambda>x. bit x n" for n])
  then show ?thesis by (simp add: flag_set_def clear_flag_def)
qed

text \<open>Words and numbers.\<close>

lemma unat_ucast_u32: "unat (ucast (x :: u32) :: u64) = unat x"
proof -
  have "unat x < 2 ^ 32" using unsigned_less [of x] by simp
  then show ?thesis by (simp add: unsigned_ucast_eq take_bit_eq_mod)
qed

lemma sint_small_u64:
  assumes "unat (x :: u64) < 2 ^ 63"
  shows "sint x = int (unat x)"
proof -
  have "uint x = int (unat x)" by simp
  moreover have "int (unat x) < int (2 ^ 63)" using assms by (simp only: of_nat_less_iff)
  ultimately have "uint x < 2 ^ 63" by simp
  then have "signed_take_bit 63 (uint x) = uint x"
    by (intro signed_take_bit_int_eq_self) (simp_all add: order_trans [of _ 0])
  then show ?thesis by (simp add: sint_uint)
qed

lemma unat_of_nat_eq: "x < 2 ^ LENGTH('a) \<Longrightarrow> unat (of_nat x :: 'a::len word) = x"
  by (simp add: unsigned_of_nat take_bit_nat_eq_self)

text \<open>Overwriting a block of a list.\<close>

definition overwrite :: "'a list \<Rightarrow> nat \<Rightarrow> 'a list \<Rightarrow> 'a list" where
  "overwrite dst k xs = take k dst @ xs @ drop (k + length xs) dst"

lemma length_overwrite [simp]:
  "k + length xs \<le> length dst \<Longrightarrow> length (overwrite dst k xs) = length dst"
  by (simp add: overwrite_def)

lemma overwrite_Nil [simp]: "overwrite dst k [] = dst"
  by (simp add: overwrite_def)

lemma overwrite_single: "k < length dst \<Longrightarrow> overwrite dst k [x] = dst[k := x]"
  by (simp add: overwrite_def upd_conv_take_nth_drop)

lemma overwrite_overwrite:
  "k + length xs + length ys \<le> length dst \<Longrightarrow>
    overwrite (overwrite dst k xs) (k + length xs) ys = overwrite dst k (xs @ ys)"
  by (simp add: overwrite_def ac_simps)

lemma nth_overwrite:
  "k + length xs \<le> length dst \<Longrightarrow> i < length dst \<Longrightarrow>
    overwrite dst k xs ! i = (if k \<le> i \<and> i < k + length xs then xs ! (i - k) else dst ! i)"
  by (auto simp: overwrite_def nth_append min_def)

lemma take_overwrite:
  "k + length xs \<le> length dst \<Longrightarrow> take (k + length xs) (overwrite dst k xs) = take k dst @ xs"
  by (simp add: overwrite_def min_absorb2)

lemma drop_overwrite:
  "k + length xs \<le> n \<Longrightarrow> n \<le> length dst \<Longrightarrow> drop n (overwrite dst k xs) = drop n dst"
  by (simp add: overwrite_def min_absorb2)

lemma drop_overwrite_eq:
  assumes "drop c b = drop c b0" "c + length xs \<le> length b"
  shows "drop (c + length xs) (overwrite b c xs) = drop (c + length xs) b0"
proof -
  have "drop (length xs) (drop c b) = drop (length xs) (drop c b0)" using assms(1) by simp
  then have "drop (c + length xs) b = drop (c + length xs) b0" by (simp add: add.commute)
  with drop_overwrite [of c xs "c + length xs" b] assms(2) show ?thesis by simp
qed

text \<open>Linked lists: a path through the nodes of a heap by the pointers \<open>nxt\<close>, from \<open>q\<close> through \<open>xs\<close> to \<open>e\<close>.
  Addresses are numbers and \<open>None\<close> is \<^verbatim>\<open>NULL\<close>; the heap maps the blocks that are not freed.\<close>

fun lseg :: "('n \<Rightarrow> nat option) \<Rightarrow> (nat \<rightharpoonup> 'n) \<Rightarrow> nat option \<Rightarrow> nat list \<Rightarrow> nat option \<Rightarrow> bool" where
  "lseg nxt h q [] e \<longleftrightarrow> q = e"
| "lseg nxt h q (x # xs) e \<longleftrightarrow> q = Some x \<and> (\<exists>d. h x = Some d \<and> lseg nxt h (nxt d) xs e)"

lemma lseg_append: "lseg nxt h q (xs @ ys) e \<longleftrightarrow> (\<exists>m. lseg nxt h q xs m \<and> lseg nxt h m ys e)"
  by (induction xs arbitrary: q) auto

lemma lseg_upd [simp]: "u \<notin> set xs \<Longrightarrow> lseg nxt (h(u := v)) q xs e = lseg nxt h q xs e"
  by (induction xs arbitrary: q) auto

lemma lseg_last:
  assumes "lseg nxt h q (xs @ [x]) e" "x \<notin> set xs" "nxt d = n"
  shows "lseg nxt (h(x \<mapsto> d)) q (xs @ [x]) n"
  using assms by (auto simp: lseg_append)

lemma lseg_in_heap: "lseg nxt h q xs e \<Longrightarrow> x \<in> set xs \<Longrightarrow> \<exists>d. h x = Some d"
  by (induction xs arbitrary: q) auto

lemma lseg_functional: "lseg nxt h q xs None \<Longrightarrow> lseg nxt h q ys None \<Longrightarrow> ys = xs"
  by (induction xs arbitrary: q ys; case_tac ys) auto

text \<open>Only the links of the nodes on the path matter.\<close>

lemma lseg_cong:
  "(\<And>y. y \<in> set xs \<Longrightarrow> map_option nxt (h' y) = map_option nxt (h y)) \<Longrightarrow> lseg nxt h' q xs e = lseg nxt h q xs e"
proof (induction xs arbitrary: q)
  case (Cons x xs)
  have "map_option nxt (h' x) = map_option nxt (h x)" using Cons.prems by simp
  then have "(\<exists>d. h' x = Some d \<and> nxt d = p) = (\<exists>d. h x = Some d \<and> nxt d = p)" for p
    by (cases "h' x"; cases "h x") auto
  with Cons show ?case by (simp, metis)
qed simp

text \<open>The loop \<^verbatim>\<open>while (it != NULL)\<close> over a linked list: the body handles one node and gives the pointer to go on with.\<close>

partial_function (option) walk :: "(nat \<Rightarrow> 's \<Rightarrow> (nat option \<times> 's) option) \<Rightarrow> nat option \<Rightarrow> 's \<Rightarrow> 's option" where
  "walk body p s = (case p of None \<Rightarrow> Some s | Some x \<Rightarrow> Option.bind (body x s) (\<lambda>(q, s). walk body q s))"

text \<open>
  The contract of such a loop: \<open>ok xs s\<close> says that the nodes \<open>xs\<close> can be handled from the state \<open>s\<close>; the body
  follows the link that the node had, and leaves the nodes to come alone.  Then the loop ends and its effect is that of its
  bodies, in the order of the list.
\<close>

locale list_walk =
  fixes heap :: "'s \<Rightarrow> nat \<rightharpoonup> 'n"
    and nxt :: "'n \<Rightarrow> nat option"
    and body :: "nat \<Rightarrow> 's \<Rightarrow> (nat option \<times> 's) option"
    and ok :: "nat list \<Rightarrow> 's \<Rightarrow> bool"
  assumes body_ok: "ok (x # xs) s \<Longrightarrow> heap s x = Some n \<Longrightarrow>
      \<exists>s'. body x s = Some (nxt n, s') \<and> ok xs s' \<and> (\<forall>y \<in> set xs. heap s' y = heap s y)"
begin

lemma walk_total:
  assumes "lseg nxt (heap s) q xs None" "ok xs s"
  shows "walk body q s = Some (fold (\<lambda>x s. snd (the (body x s))) xs s)"
  using assms
proof (induction xs arbitrary: q s)
  case Nil
  then show ?case by (simp add: walk.simps)
next
  case (Cons x xs)
  then obtain n where n: "q = Some x" "heap s x = Some n" "lseg nxt (heap s) (nxt n) xs None" by auto
  from body_ok [OF Cons.prems(2) n(2)] obtain s' where
    s': "body x s = Some (nxt n, s')" "ok xs s'" "\<forall>y \<in> set xs. heap s' y = heap s y" by blast
  have "lseg nxt (heap s') (nxt n) xs None" using lseg_cong [of xs nxt "heap s'" "heap s"] s'(3) n(3) by simp
  from Cons.IH [OF this s'(2)] s'(1) n(1) show ?case by (simp add: walk.simps [of body "Some x"])
qed

end

lemma distinct_map_cong: "(\<And>y. y \<in> set xs \<Longrightarrow> f y = g y) \<Longrightarrow> distinct (map f xs) = distinct (map g xs)"
  by (simp only: cong: map_cong)

text \<open>Prefixes and suffixes.\<close>

lemma prefix_append_mono:
  assumes "prefix q (a @ t)" "prefix t t'"
  shows "prefix q (a @ t')"
  using assms(1) same_prefix_prefix [THEN iffD2, OF assms(2)] by (rule prefix_order.trans)

lemma take_drop_Suc:
  "i < length xs \<Longrightarrow> take (Suc n) (drop i xs) = xs ! i # take n (drop (Suc i) xs)"
  by (metis Cons_nth_drop_Suc take_Suc_Cons)

lemma take_drop_add:
  "take (m + n) (drop i xs) = take m (drop i xs) @ take n (drop (i + m) xs)"
  by (simp add: take_add add.commute)

end
