(* ===== verification/Ring.thy ===== *)
theory Ring
  imports Xen_Prelude
begin

text \<open>
  The mathematics of a circular buffer: how many cells lie between a read and a write
  position, which list of cells that is, and what happens to the list when one of the
  positions moves or free cells are overwritten.  One cell is always kept free, so equal
  positions mean an empty buffer.
\<close>

definition ring_count :: "nat \<Rightarrow> nat \<Rightarrow> nat \<Rightarrow> nat" where
  "ring_count n r w = (if r \<le> w then w - r else n - r + w)"

definition ring_list :: "'a list \<Rightarrow> nat \<Rightarrow> nat \<Rightarrow> 'a list" where
  "ring_list b r k = map (\<lambda>i. b ! ((r + i) mod length b)) [0..<k]"

definition ring_pred :: "nat \<Rightarrow> nat \<Rightarrow> nat" where
  "ring_pred n p = (if p = 0 then n - 1 else p - 1)"

definition ring_add :: "nat \<Rightarrow> nat \<Rightarrow> nat \<Rightarrow> nat" where
  "ring_add n p k = (if p + k = n then 0 else p + k)"

lemma ring_count_self [simp]: "ring_count n r r = 0"
  by (simp add: ring_count_def)

lemma ring_count_zero_iff: "r < n \<Longrightarrow> w < n \<Longrightarrow> ring_count n r w = 0 \<longleftrightarrow> r = w"
  by (auto simp: ring_count_def)

lemma ring_count_less: "r < n \<Longrightarrow> w < n \<Longrightarrow> ring_count n r w < n"
  by (auto simp: ring_count_def)

lemma ring_add_less: "p < n \<Longrightarrow> p + k \<le> n \<Longrightarrow> ring_add n p k < n"
  by (auto simp: ring_add_def)

lemma ring_add_mod: "p < n \<Longrightarrow> p + k \<le> n \<Longrightarrow> ring_add n p k = (p + k) mod n"
  by (auto simp: ring_add_def)

lemma ring_count_add_read:
  "r < n \<Longrightarrow> w < n \<Longrightarrow> r + k \<le> n \<Longrightarrow> k \<le> ring_count n r w \<Longrightarrow>
    ring_count n (ring_add n r k) w = ring_count n r w - k"
  by (auto simp: ring_count_def ring_add_def split: if_splits)

lemma ring_count_add_write:
  "r < n \<Longrightarrow> w < n \<Longrightarrow> w + k \<le> n \<Longrightarrow> ring_count n r w + k < n \<Longrightarrow>
    ring_count n r (ring_add n w k) = ring_count n r w + k"
  by (auto simp: ring_count_def ring_add_def split: if_splits)

lemma ring_pred_less: "r < n \<Longrightarrow> ring_pred n r < n"
  by (auto simp: ring_pred_def)

lemma ring_count_pred:
  "r < n \<Longrightarrow> w < n \<Longrightarrow> ring_count n w (ring_pred n r) = n - 1 - ring_count n r w"
  by (auto simp: ring_count_def ring_pred_def)

lemma length_ring_list [simp]: "length (ring_list b r k) = k"
  by (simp add: ring_list_def)

lemma ring_list_0 [simp]: "ring_list b r 0 = []"
  by (simp add: ring_list_def)

lemma nth_ring_list [simp]: "i < k \<Longrightarrow> ring_list b r k ! i = b ! ((r + i) mod length b)"
  by (simp add: ring_list_def)

lemma take_ring_list: "j \<le> k \<Longrightarrow> take j (ring_list b r k) = ring_list b r j"
  by (simp add: ring_list_def take_map)

lemma drop_ring_list:
  assumes "r < length b" "r + j \<le> length b" "j \<le> k"
  shows "drop j (ring_list b r k) = ring_list b (ring_add (length b) r j) (k - j)"
proof (rule nth_equalityI)
  fix i assume "i < length (drop j (ring_list b r k))"
  then have i: "i < k - j" by simp
  have "(ring_add (length b) r j + i) mod length b = (r + j + i) mod length b"
    using assms by (simp add: ring_add_mod mod_add_left_eq)
  with i show "drop j (ring_list b r k) ! i = ring_list b (ring_add (length b) r j) (k - j) ! i"
    by (simp add: add.assoc)
qed simp

lemma ring_list_flat:
  assumes "r + k \<le> length b"
  shows "ring_list b r k = take k (drop r b)"
  by (rule nth_equalityI) (use assms in auto)

lemma ring_list_append:
  assumes "r < length b" "r + j \<le> length b"
  shows "ring_list b r (j + k) = ring_list b r j @ ring_list b (ring_add (length b) r j) k"
  using take_ring_list [of j "j + k" b r] drop_ring_list [OF assms, of "j + k"]
    append_take_drop_id [of j "ring_list b r (j + k)"] by simp

text \<open>The write position is the cell after the last one of the list.\<close>

lemma ring_count_position:
  assumes "r < n" "w < n"
  shows "(r + ring_count n r w) mod n = w"
  using assms by (auto simp: ring_count_def)

lemma ring_cells_distinct:
  assumes "r < (n::nat)" "i < n" "j < n" "(r + i) mod n = (r + j) mod n"
  shows "i = j"
proof -
  have "(r + x) mod n = (if r + x < n then r + x else r + x - n)" if "x < n" for x
    using assms(1) that by (simp add: mod_if)
  with assms show ?thesis by (auto split: if_splits)
qed

text \<open>Cells written from the write position on are not among the occupied ones.\<close>

lemma ring_cell_outside:
  assumes "r < n" "w < n" "w + k \<le> n" "ring_count n r w + k < n" "i < ring_count n r w"
  shows "\<not> (w \<le> (r + i) mod n \<and> (r + i) mod n < w + k)"
proof
  assume "w \<le> (r + i) mod n \<and> (r + i) mod n < w + k"
  then obtain j where j: "(r + i) mod n = w + j" "j < k"
    by (metis add.commute le_add_diff_inverse nat_add_left_cancel_less)
  have "(r + (ring_count n r w + j)) mod n = (w + j) mod n"
    using ring_count_position [OF assms(1,2)]
    by (metis add.assoc mod_add_left_eq)
  also have "\<dots> = w + j" using j(2) assms(3) by simp
  finally have "i = ring_count n r w + j"
    using ring_cells_distinct [OF assms(1), of i "ring_count n r w + j"] j assms(4,5) by simp
  with assms(5) show False by simp
qed

lemma ring_list_overwrite:
  assumes "r < length b" "w < length b" "w + length xs \<le> length b"
    "ring_count (length b) r w + length xs < length b"
  shows "ring_list (overwrite b w xs) r (ring_count (length b) r w)
    = ring_list b r (ring_count (length b) r w)"
proof (rule nth_equalityI)
  fix i assume "i < length (ring_list (overwrite b w xs) r (ring_count (length b) r w))"
  then have i: "i < ring_count (length b) r w" by simp
  have "(r + i) mod length b < length b" using assms(1) by (intro mod_less_divisor) linarith
  with ring_cell_outside [OF assms i] i assms(3)
  show "ring_list (overwrite b w xs) r (ring_count (length b) r w) ! i
    = ring_list b r (ring_count (length b) r w) ! i"
    by (auto simp: nth_overwrite)
qed simp

lemma ring_list_overwrite_new:
  assumes "w + length xs \<le> length b"
  shows "ring_list (overwrite b w xs) w (length xs) = xs"
  using assms by (simp add: ring_list_flat overwrite_def)

text \<open>Publishing the written cells appends them to the list.\<close>

lemma ring_list_extend:
  assumes "r < length b" "w < length b" "w + length xs \<le> length b"
    "ring_count (length b) r w + length xs < length b"
    "take (length xs) (drop w b) = xs"
  shows "ring_list b r (ring_count (length b) r w + length xs)
    = ring_list b r (ring_count (length b) r w) @ xs"
proof (rule nth_equalityI)
  let ?n = "length b" and ?c = "ring_count (length b) r w"
  fix i assume "i < length (ring_list b r (?c + length xs))"
  then have i: "i < ?c + length xs" by simp
  show "ring_list b r (?c + length xs) ! i = (ring_list b r ?c @ xs) ! i"
  proof (cases "i < ?c")
    case True
    with i show ?thesis by (simp add: nth_append)
  next
    case False
    then obtain j where j: "i = ?c + j" "j < length xs"
      using i by (metis le_add_diff_inverse nat_add_left_cancel_less not_less)
    have "(r + i) mod ?n = (w + j) mod ?n"
      using ring_count_position [OF assms(1,2)] j(1) by (metis add.assoc mod_add_left_eq)
    also have "\<dots> = w + j" using j(2) assms(3) by simp
    finally have "b ! ((r + i) mod ?n) = take (length xs) (drop w b) ! j"
      using j(2) assms(3) by simp
    with i j assms(5) show ?thesis by (simp add: nth_append)
  qed
qed simp

end
