(* ===== verification/Pipe_Types.thy ===== *)
theory Pipe_Types
  imports Ring
begin

text \<open>
  The data of the pipe library (\<^verbatim>\<open>xen_shm_pipe.h\<close> and the first part of
  \<^verbatim>\<open>xen_shm_pipe.c\<close>): the private structure of one end, the shared area, the constants,
  and the environment in which one end runs.

  One end of the pipe runs beside the other end, which changes the shared area at any
  moment, and above the operating system, which answers its system calls.  Both are
  parameters of the model: \<open>interf env t\<close> is what the peer does to the shared area
  between the observation number \<open>t\<close> of the running end and the one before it, and
  \<open>answer env t\<close> is the answer to a system call made at that moment.  Every read of a
  \<^verbatim>\<open>volatile\<close> location and every system call is one observation.  Accesses are taken to be
  sequentially consistent.
\<close>

section \<open>Constants\<close>

abbreviation (input) XEN_SHM_PIPE_PAGE_SIZE :: u64 where "XEN_SHM_PIPE_PAGE_SIZE \<equiv> 4096"
abbreviation (input) XEN_SHM_PIPE_FAST_CHECK_INTERVAL :: nat where
  "XEN_SHM_PIPE_FAST_CHECK_INTERVAL \<equiv> 128"
abbreviation (input) XEN_SHM_PIPE_WAIT_CHECK_PER_ROUND :: int where
  "XEN_SHM_PIPE_WAIT_CHECK_PER_ROUND \<equiv> 4"
abbreviation (input) XEN_SHM_PIPE_WAIT_LOOP_LIMIT :: u32 where
  "XEN_SHM_PIPE_WAIT_LOOP_LIMIT \<equiv> 10000"
abbreviation (input) XEN_SHM_PIPE_WAIT_LOOP_ACTIVE_MAX :: u32 where
  "XEN_SHM_PIPE_WAIT_LOOP_ACTIVE_MAX \<equiv> 10000"

abbreviation (input) XSHMP_OPENED :: u32 where "XSHMP_OPENED \<equiv> 1"
abbreviation (input) XSHMP_CLOSED :: u32 where "XSHMP_CLOSED \<equiv> 2"
abbreviation (input) XSHMP_WAITING :: u32 where "XSHMP_WAITING \<equiv> 4"
abbreviation (input) XSHMP_SLEEPING :: u32 where "XSHMP_SLEEPING \<equiv> 8"
abbreviation (input) XSHMP_ACTIVE :: u32 where "XSHMP_ACTIVE \<equiv> 16"

abbreviation (input) XEN_SHM_IOCTL_AWAIT_USER :: u8 where "XEN_SHM_IOCTL_AWAIT_USER \<equiv> 1"
abbreviation (input) XEN_SHM_IOCTL_AWAIT_INIT :: u8 where "XEN_SHM_IOCTL_AWAIT_INIT \<equiv> 2"
abbreviation (input) XEN_SHM_IOCTL_AWAIT_MUTEX :: u8 where "XEN_SHM_IOCTL_AWAIT_MUTEX \<equiv> 4"
abbreviation (input) XEN_SHM_IOCTL_AWAIT_LATENT_USER :: u8 where
  "XEN_SHM_IOCTL_AWAIT_LATENT_USER \<equiv> 8"

section \<open>Structures\<close>

datatype xen_shm_pipe_mod = xen_shm_pipe_mod_write | xen_shm_pipe_mod_read

datatype xen_shm_pipe_conv = xen_shm_pipe_conv_writer_offers | xen_shm_pipe_conv_reader_offers

record xen_shm_pipe_stats =
  ioctl_count_await :: u64
  ioctl_count_epipe_prone :: u64
  ioctl_count_ssig :: u64
  read_count :: u64
  write_count :: u64
  waiting :: u8

record xen_shm_ioctlarg_await =
  request_flags :: u8
  timeout_ms :: u64
  remaining_ms :: u64

text \<open>
  The private data of one end.  The pointer to the shared area is its address, or
  \<open>None\<close> for \<^verbatim>\<open>NULL\<close>; \<^verbatim>\<open>mod\<close> and \<^verbatim>\<open>conv\<close> are the fields \<open>pmod\<close> and \<open>pconv\<close>.
\<close>

record xen_shm_pipe_priv =
  fd :: int
  pmod :: xen_shm_pipe_mod
  pconv :: xen_shm_pipe_conv
  pshared :: "nat option"
  buffer_size :: u64
  wait_check_interval :: int
  await_op :: xen_shm_ioctlarg_await
  saw_epipe :: int
  stats :: xen_shm_pipe_stats

record xen_shm_pipe_shared =
  writer_flags :: u32
  reader_flags :: u32
  sh_write :: u32
  sh_read :: u32
  buffer :: memory

text \<open>\<^verbatim>\<open>sizeof(struct xen_shm_pipe_shared)\<close>, which is also the offset of \<^verbatim>\<open>buffer\<close>.\<close>

abbreviation (input) sizeof_shared :: nat where "sizeof_shared \<equiv> 16"

text \<open>The bytes of the shared area that are written and not read yet, in order.\<close>

definition in_transit :: "xen_shm_pipe_shared \<Rightarrow> byte list" where
  "in_transit s = ring_list (buffer s) (unat (sh_read s))
     (ring_count (length (buffer s)) (unat (sh_read s)) (unat (sh_write s)))"

section \<open>The environment of one end\<close>

datatype syscall =
    Sys_open
  | Sys_close int
  | Sys_mmap int nat
  | Sys_munmap nat nat
  | Sys_get_domid int
  | Sys_init_offerer int u8 u16
  | Sys_init_receiver int u8 u16 u32
  | Sys_await int u8 u64
  | Sys_ssig int

record sys_answer =
  a_ret :: int
  a_errno :: int
  a_addr :: nat
  a_domid :: u16
  a_grant :: u32
  a_remaining :: u64

record pipe_env =
  interf :: "nat \<Rightarrow> xen_shm_pipe_shared \<Rightarrow> xen_shm_pipe_shared"
  answer :: "nat \<Rightarrow> sys_answer"

text \<open>The state of one end: its private data, the shared area as it is now, \<^verbatim>\<open>errno\<close>, the
  number of observations made and the system calls issued so far.  The last three fields are
  history variables, which no operation reads: the bytes the peer was seen to add to those in
  transit, the bytes it was seen to take from them, and the shared area before and after
  each action of the peer.\<close>

record pipe_st =
  priv :: xen_shm_pipe_priv
  shm :: xen_shm_pipe_shared
  errno :: int
  tick :: nat
  calls :: "syscall list"
  arrived :: "byte list"
  departed :: "byte list"
  trail :: "(xen_shm_pipe_shared \<times> xen_shm_pipe_shared) list"

definition observe :: "pipe_env \<Rightarrow> pipe_st \<Rightarrow> pipe_st" where
  "observe env st =
    (let s = interf env (tick st) (shm st); q = in_transit (shm st); q' = in_transit s
     in st\<lparr>shm := s, tick := Suc (tick st), arrived := arrived st @ drop (length q) q',
           departed := departed st @ take (length q - length q') q,
           trail := trail st @ [(shm st, s)]\<rparr>)"

definition sys_call :: "pipe_env \<Rightarrow> syscall \<Rightarrow> pipe_st \<Rightarrow> sys_answer \<times> pipe_st" where
  "sys_call env c st =
    (let a = answer env (tick st)
     in (a, (observe env st)\<lparr>calls := calls st @ [c],
          errno := (if a_ret a = -1 then a_errno a else errno st)\<rparr>))"

section \<open>Helpers on the structures\<close>

fun xen_shm_pipe_is_offerer :: "xen_shm_pipe_priv \<Rightarrow> bool" where
  "xen_shm_pipe_is_offerer p \<longleftrightarrow>
    (pmod p = xen_shm_pipe_mod_read \<and> pconv p = xen_shm_pipe_conv_reader_offers)
    \<or> (pmod p = xen_shm_pipe_mod_write \<and> pconv p = xen_shm_pipe_conv_writer_offers)"

text \<open>\<^verbatim>\<open>__xen_shm_pipe_get_flags\<close> returns a pointer to one of the two flag words: here the
  word it points to, and the update of that word.\<close>

definition xen_shm_pipe_get_flags :: "xen_shm_pipe_priv \<Rightarrow> bool \<Rightarrow> xen_shm_pipe_shared \<Rightarrow> u32" where
  "xen_shm_pipe_get_flags p my_flags s =
    (if pmod p = xen_shm_pipe_mod_write
     then (if my_flags then writer_flags s else reader_flags s)
     else (if my_flags then reader_flags s else writer_flags s))"

definition xen_shm_pipe_upd_flags ::
  "xen_shm_pipe_priv \<Rightarrow> bool \<Rightarrow> (u32 \<Rightarrow> u32) \<Rightarrow> xen_shm_pipe_shared \<Rightarrow> xen_shm_pipe_shared" where
  "xen_shm_pipe_upd_flags p my_flags f s =
    (if pmod p = xen_shm_pipe_mod_write
     then (if my_flags then s\<lparr>writer_flags := f (writer_flags s)\<rparr> else s\<lparr>reader_flags := f (reader_flags s)\<rparr>)
     else (if my_flags then s\<lparr>reader_flags := f (reader_flags s)\<rparr> else s\<lparr>writer_flags := f (writer_flags s)\<rparr>))"

text \<open>The address of \<^verbatim>\<open>s->buffer\<close>.\<close>

definition buffer_addr :: "xen_shm_pipe_priv \<Rightarrow> nat" where
  "buffer_addr p = (case pshared p of None \<Rightarrow> 0 | Some a \<Rightarrow> a + sizeof_shared)"

definition xen_shm_pipe_send_signal :: "pipe_env \<Rightarrow> pipe_st \<Rightarrow> int \<times> pipe_st" where
  "xen_shm_pipe_send_signal env st =
    (let st = st\<lparr>priv := (priv st)\<lparr>stats := (stats (priv st))
           \<lparr>ioctl_count_ssig := ioctl_count_ssig (stats (priv st)) + 1\<rparr>\<rparr>\<rparr>;
         (a, st) = sys_call env (Sys_ssig (fd (priv st))) st
     in (a_ret a, st))"

definition xen_shm_pipe_wait_signal :: "pipe_env \<Rightarrow> pipe_st \<Rightarrow> int \<times> pipe_st" where
  "xen_shm_pipe_wait_signal env st =
    (let st = st\<lparr>priv := (priv st)\<lparr>stats := (stats (priv st))
           \<lparr>ioctl_count_await := ioctl_count_await (stats (priv st)) + 1\<rparr>\<rparr>\<rparr>;
         op = await_op (priv st);
         (a, st) = sys_call env (Sys_await (fd (priv st)) (request_flags op) (timeout_ms op)) st;
         st = (if a_ret a = 0
               then st\<lparr>priv := (priv st)\<lparr>await_op := op\<lparr>remaining_ms := a_remaining a\<rparr>\<rparr>\<rparr> else st)
     in (a_ret a, st))"

definition xen_shm_pipe_prone_for_epipe :: "pipe_env \<Rightarrow> pipe_st \<Rightarrow> int \<times> pipe_st" where
  "xen_shm_pipe_prone_for_epipe env st =
    (let st = st\<lparr>priv := (priv st)\<lparr>stats := (stats (priv st))
           \<lparr>ioctl_count_epipe_prone := ioctl_count_epipe_prone (stats (priv st)) + 1\<rparr>\<rparr>\<rparr>;
         (a, st) = sys_call env (Sys_await (fd (priv st)) XEN_SHM_IOCTL_AWAIT_INIT 1) st
     in (if a_ret a < 0 \<and> errno st = EPIPE then -1 else 0, st))"

section \<open>The abstract pipe and its users\<close>

text \<open>When the shared area is well formed for a buffer of \<open>n\<close> bytes.\<close>

definition shared_wf :: "nat \<Rightarrow> xen_shm_pipe_shared \<Rightarrow> bool" where
  "shared_wf n s \<longleftrightarrow> length (buffer s) = n \<and> unat (sh_read s) < n \<and> unat (sh_write s) < n"

text \<open>
  What one end may rely on of the other: the writer only appends and leaves the read
  position and the reader's flags alone; the reader only consumes, and writes neither the
  buffer nor the write position nor the closed flag of the writer.  A writer that set its closed
  flag writes nothing more.
\<close>

definition writer_rely :: "nat \<Rightarrow> xen_shm_pipe_shared \<Rightarrow> xen_shm_pipe_shared \<Rightarrow> bool" where
  "writer_rely n s s' \<longleftrightarrow> shared_wf n s' \<and> sh_read s' = sh_read s \<and> reader_flags s' = reader_flags s
     \<and> prefix (in_transit s) (in_transit s')
     \<and> (flag_set (writer_flags s) XSHMP_CLOSED \<longrightarrow>
          flag_set (writer_flags s') XSHMP_CLOSED \<and> in_transit s' = in_transit s)"

definition reader_rely :: "nat \<Rightarrow> xen_shm_pipe_shared \<Rightarrow> xen_shm_pipe_shared \<Rightarrow> bool" where
  "reader_rely n s s' \<longleftrightarrow> shared_wf n s' \<and> sh_write s' = sh_write s \<and> buffer s' = buffer s
     \<and> suffix (in_transit s') (in_transit s)
     \<and> flag_set (writer_flags s') XSHMP_CLOSED = flag_set (writer_flags s) XSHMP_CLOSED
     \<and> (flag_set (reader_flags s) XSHMP_CLOSED \<longrightarrow> flag_set (reader_flags s') XSHMP_CLOSED)"

definition env_writer :: "nat \<Rightarrow> pipe_env \<Rightarrow> bool" where
  "env_writer n env \<longleftrightarrow> (\<forall>t s. shared_wf n s \<longrightarrow> writer_rely n s (interf env t s))"

definition env_reader :: "nat \<Rightarrow> pipe_env \<Rightarrow> bool" where
  "env_reader n env \<longleftrightarrow> (\<forall>t s. shared_wf n s \<longrightarrow> reader_rely n s (interf env t s))"

text \<open>
  The state of a connected end: the shared area is well formed, the private data describe it
  and the mapping is aligned (\<^verbatim>\<open>mmap\<close> returns whole pages).
\<close>

definition pipe_wf :: "nat \<Rightarrow> pipe_st \<Rightarrow> bool" where
  "pipe_wf n st \<longleftrightarrow> shared_wf n (shm st) \<and> unat (buffer_size (priv st)) = n \<and> n \<le> 2 ^ 32
     \<and> 0 < wait_check_interval (priv st)
     \<and> (case pshared (priv st) of None \<Rightarrow> False | Some a \<Rightarrow> 8 dvd a)"

text \<open>Both ends tell the peer that they have made progress only when it sleeps.\<close>

definition signal_if_sleeping ::
  "pipe_env \<Rightarrow> (xen_shm_pipe_shared \<Rightarrow> u32) \<Rightarrow> pipe_st \<Rightarrow> pipe_st" where
  "signal_if_sleeping env peer_flags st =
    (let st = observe env st
     in if flag_set (peer_flags (shm st)) XSHMP_SLEEPING
        then snd (xen_shm_pipe_send_signal env st) else st)"

section \<open>Facts\<close>

lemma length_in_transit:
  "length (in_transit s) = ring_count (length (buffer s)) (unat (sh_read s)) (unat (sh_write s))"
  by (simp add: in_transit_def)

lemma in_transit_bound: "shared_wf n s \<Longrightarrow> length (in_transit s) < n"
  by (auto simp: shared_wf_def length_in_transit intro: ring_count_less)

lemma in_transit_Nil_iff: "shared_wf n s \<Longrightarrow> in_transit s = [] \<longleftrightarrow> sh_read s = sh_write s"
  by (auto simp: shared_wf_def length_in_transit ring_count_zero_iff word_unat_eq_iff
      simp flip: length_0_conv)

lemma in_transit_flags [simp]:
  "in_transit (s\<lparr>reader_flags := f\<rparr>) = in_transit s"
  "in_transit (s\<lparr>writer_flags := f\<rparr>) = in_transit s"
  by (simp_all add: in_transit_def)

lemma shared_wf_flags [simp]:
  "shared_wf n (s\<lparr>reader_flags := f\<rparr>) = shared_wf n s"
  "shared_wf n (s\<lparr>writer_flags := f\<rparr>) = shared_wf n s"
  by (simp_all add: shared_wf_def)

lemma observe_simps [simp]:
  "priv (observe env st) = priv st"
  "tick (observe env st) = Suc (tick st)"
  "errno (observe env st) = errno st"
  "calls (observe env st) = calls st"
  "shm (observe env st) = interf env (tick st) (shm st)"
  by (simp_all add: observe_def Let_def)

text \<open>Only the peer's steps are recorded in the history.\<close>

lemma sys_call_history [simp]:
  "arrived (snd (sys_call env c st)) = arrived (observe env st)"
  "departed (snd (sys_call env c st)) = departed (observe env st)"
  "trail (snd (sys_call env c st)) = trail (observe env st)"
  by (simp_all add: sys_call_def Let_def)

lemma observe_history:
  "arrived (observe env (st\<lparr>priv := p\<rparr>)) = arrived (observe env st)"
  "departed (observe env (st\<lparr>priv := p\<rparr>)) = departed (observe env st)"
  "trail (observe env st) = trail st @ [(shm st, interf env (tick st) (shm st))]"
  by (simp_all add: observe_def Let_def)

lemma sys_call_simps [simp]:
  "fst (sys_call env c st) = answer env (tick st)"
  "priv (snd (sys_call env c st)) = priv st"
  "shm (snd (sys_call env c st)) = interf env (tick st) (shm st)"
  "tick (snd (sys_call env c st)) = Suc (tick st)"
  "calls (snd (sys_call env c st)) = calls st @ [c]"
  by (simp_all add: sys_call_def Let_def)

lemma send_signal_simps [simp]:
  "shm (snd (xen_shm_pipe_send_signal env st)) = interf env (tick st) (shm st)"
  "tick (snd (xen_shm_pipe_send_signal env st)) = Suc (tick st)"
  "calls (snd (xen_shm_pipe_send_signal env st)) = calls st @ [Sys_ssig (fd (priv st))]"
  "fst (xen_shm_pipe_send_signal env st) = a_ret (answer env (tick st))"
  by (simp_all add: xen_shm_pipe_send_signal_def Let_def split_beta)

text \<open>The part of the private data that never changes once the end is connected.\<close>

definition same_pipe :: "pipe_st \<Rightarrow> pipe_st \<Rightarrow> bool" where
  "same_pipe st st' \<longleftrightarrow> buffer_size (priv st') = buffer_size (priv st)
     \<and> wait_check_interval (priv st') = wait_check_interval (priv st)
     \<and> pshared (priv st') = pshared (priv st) \<and> pmod (priv st') = pmod (priv st)
     \<and> pconv (priv st') = pconv (priv st) \<and> fd (priv st') = fd (priv st)"

lemma same_pipe_refl [simp]: "same_pipe st st"
  by (simp add: same_pipe_def)

lemma same_pipe_trans: "same_pipe a b \<Longrightarrow> same_pipe b c \<Longrightarrow> same_pipe a c"
  by (simp add: same_pipe_def)

lemma same_pipe_observe [simp]: "same_pipe st (observe env st)"
  by (simp add: same_pipe_def)

lemma same_pipe_send_signal [simp]: "same_pipe st (snd (xen_shm_pipe_send_signal env st))"
  by (simp add: same_pipe_def xen_shm_pipe_send_signal_def Let_def split_beta)

lemma same_pipe_wait_signal [simp]: "same_pipe st (snd (xen_shm_pipe_wait_signal env st))"
  by (simp add: same_pipe_def xen_shm_pipe_wait_signal_def Let_def split_beta)

lemma same_pipe_prone [simp]: "same_pipe st (snd (xen_shm_pipe_prone_for_epipe env st))"
  by (simp add: same_pipe_def xen_shm_pipe_prone_for_epipe_def Let_def split_beta)

lemma same_pipe_signal_if_sleeping [simp]: "same_pipe st (signal_if_sleeping env fl st)"
  using same_pipe_trans [OF same_pipe_observe same_pipe_send_signal]
  by (simp add: signal_if_sleeping_def Let_def)

lemma same_pipe_wf: "same_pipe st st' \<Longrightarrow> shared_wf n (shm st') \<Longrightarrow> pipe_wf n st \<Longrightarrow> pipe_wf n st'"
  by (simp add: pipe_wf_def same_pipe_def)

lemma same_pipe_buffer_addr: "same_pipe st st' \<Longrightarrow> buffer_addr (priv st') = buffer_addr (priv st)"
  by (simp add: same_pipe_def buffer_addr_def)

lemma pipe_wf_shared: "pipe_wf n st \<Longrightarrow> shared_wf n (shm st)"
  by (simp add: pipe_wf_def)

lemma pipe_wf_size: "pipe_wf n st \<Longrightarrow> unat (buffer_size (priv st)) = n"
  by (simp add: pipe_wf_def)

lemma pipe_wf_addr: "pipe_wf n st \<Longrightarrow> 8 dvd buffer_addr (priv st)"
  by (auto simp: pipe_wf_def buffer_addr_def split: option.splits)

section \<open>Moving the positions\<close>

lemma unat_position: "pipe_wf n st \<Longrightarrow> p < n \<Longrightarrow> unat (of_nat p :: u32) = p"
  by (simp add: pipe_wf_def unat_of_nat_eq)

lemma consume_in_transit:
  assumes "shared_wf n s" "n \<le> 2 ^ 32" "k \<le> length (in_transit s)" "unat (sh_read s) + k \<le> n"
  defines "s' \<equiv> s\<lparr>sh_read := of_nat (ring_add n (unat (sh_read s)) k)\<rparr>"
  shows "in_transit s' = drop k (in_transit s)" "shared_wf n s'"
proof -
  let ?r = "ring_add n (unat (sh_read s)) k"
  have r: "?r < n" using assms(1,4) by (simp add: shared_wf_def ring_add_less)
  then have u: "unat (of_nat ?r :: u32) = ?r" using assms(2) by (simp add: unat_of_nat_eq)
  show "shared_wf n s'" using assms(1) r u by (simp add: shared_wf_def s'_def)
  show "in_transit s' = drop k (in_transit s)"
    using assms(1,3,4) u drop_ring_list [of "unat (sh_read s)" "buffer s" k "length (in_transit s)"]
      ring_count_add_read [of "unat (sh_read s)" n "unat (sh_write s)" k]
    by (simp add: shared_wf_def in_transit_def s'_def)
qed

lemma produce_in_transit:
  assumes "shared_wf n s" "n \<le> 2 ^ 32" "unat (sh_write s) + length xs \<le> n"
    "length (in_transit s) + length xs < n"
    "take (length xs) (drop (unat (sh_write s)) (buffer s)) = xs"
  defines "s' \<equiv> s\<lparr>sh_write := of_nat (ring_add n (unat (sh_write s)) (length xs))\<rparr>"
  shows "in_transit s' = in_transit s @ xs" "shared_wf n s'"
proof -
  let ?w = "ring_add n (unat (sh_write s)) (length xs)"
  have w: "?w < n" using assms(1,3) by (simp add: shared_wf_def ring_add_less)
  then have u: "unat (of_nat ?w :: u32) = ?w" using assms(2) by (simp add: unat_of_nat_eq)
  show "shared_wf n s'" using assms(1) w u by (simp add: shared_wf_def s'_def)
  show "in_transit s' = in_transit s @ xs"
    using assms(1,3,4,5) u ring_list_extend [of "unat (sh_read s)" "buffer s" "unat (sh_write s)" xs]
      ring_count_add_write [of "unat (sh_read s)" n "unat (sh_write s)" "length xs"]
    by (simp add: shared_wf_def in_transit_def s'_def length_in_transit)
qed

lemma fill_in_transit:
  assumes "shared_wf n s" "unat (sh_write s) + length xs \<le> n" "length (in_transit s) + length xs < n"
  defines "s' \<equiv> s\<lparr>buffer := overwrite (buffer s) (unat (sh_write s)) xs\<rparr>"
  shows "in_transit s' = in_transit s" "shared_wf n s'"
    "take (length xs) (drop (unat (sh_write s')) (buffer s')) = xs"
proof -
  show "in_transit s' = in_transit s" "shared_wf n s'"
    using assms(1-3) ring_list_overwrite [of "unat (sh_read s)" "buffer s" "unat (sh_write s)" xs]
    by (simp_all add: shared_wf_def in_transit_def s'_def length_in_transit)
  show "take (length xs) (drop (unat (sh_write s')) (buffer s')) = xs"
    using assms(1,2) by (simp add: s'_def overwrite_def shared_wf_def)
qed

section \<open>Keeping to the protocol\<close>

text \<open>
  The shared area goes from one end to the other and back: \<open>rely_guar R G s tr s'\<close> says of
  the actions \<open>tr\<close> of the peer between \<open>s\<close> and \<open>s'\<close> that each of them is as \<open>R\<close> says, and that what this
  end did before, between and after them is as \<open>G\<close> says.
\<close>

fun rely_guar ::
  "('s \<Rightarrow> 's \<Rightarrow> bool) \<Rightarrow> ('s \<Rightarrow> 's \<Rightarrow> bool) \<Rightarrow> 's \<Rightarrow> ('s \<times> 's) list \<Rightarrow> 's \<Rightarrow> bool" where
  "rely_guar R G s [] s' \<longleftrightarrow> G s s'"
| "rely_guar R G s ((a, b) # tr) s' \<longleftrightarrow> G s a \<and> R a b \<and> rely_guar R G b tr s'"

definition acts ::
  "(xen_shm_pipe_shared \<Rightarrow> xen_shm_pipe_shared \<Rightarrow> bool) \<Rightarrow> (xen_shm_pipe_shared \<Rightarrow> xen_shm_pipe_shared \<Rightarrow> bool)
    \<Rightarrow> pipe_st \<Rightarrow> pipe_st \<Rightarrow> bool" where
  "acts R G a b \<longleftrightarrow> (\<exists>tr. trail b = trail a @ tr \<and> rely_guar R G (shm a) tr (shm b))"

lemma rely_guar_cong: "(\<And>s. G s t = G s t') \<Longrightarrow> rely_guar R G s tr t = rely_guar R G s tr t'"
  by (induction R G s tr t rule: rely_guar.induct) auto

lemma acts_cong:
  "trail b' = trail b \<Longrightarrow> (\<And>s. G s (shm b') = G s (shm b)) \<Longrightarrow> acts R G a b' = acts R G a b"
  using rely_guar_cong [of G "shm b'" "shm b" R] by (simp add: acts_def)

locale rely_guarantee =
  fixes R G :: "xen_shm_pipe_shared \<Rightarrow> xen_shm_pipe_shared \<Rightarrow> bool"
  assumes own_refl: "G s s" and own_trans: "G s t \<Longrightarrow> G t u \<Longrightarrow> G s u"
begin

lemma rely_guar_before: "G s t \<Longrightarrow> rely_guar R G t tr u \<Longrightarrow> rely_guar R G s tr u"
  by (cases tr) (auto intro: own_trans)

lemma rely_guar_append:
  "rely_guar R G s tr t \<Longrightarrow> rely_guar R G t tr' u \<Longrightarrow> rely_guar R G s (tr @ tr') u"
  by (induction tr arbitrary: s) (auto intro: rely_guar_before)

lemma acts_refl: "acts R G a a"
  by (simp add: acts_def own_refl)

lemma acts_trans: "acts R G a b \<Longrightarrow> acts R G b c \<Longrightarrow> acts R G a c"
  by (auto simp: acts_def intro: rely_guar_append)

lemma acts_own: "trail b = trail a \<Longrightarrow> G (shm a) (shm b) \<Longrightarrow> acts R G a b"
  by (simp add: acts_def)

lemma acts_peer: "trail b = trail a @ [(shm a, shm b)] \<Longrightarrow> R (shm a) (shm b) \<Longrightarrow> acts R G a b"
  by (simp add: acts_def own_refl)

end

text \<open>The steps of each side on an area of any size, and those of a writer that has not closed its end.\<close>

definition reader_does :: "xen_shm_pipe_shared \<Rightarrow> xen_shm_pipe_shared \<Rightarrow> bool" where
  "reader_does s s' \<longleftrightarrow> (shared_wf (length (buffer s)) s \<longrightarrow> reader_rely (length (buffer s)) s s')"

definition writer_does :: "xen_shm_pipe_shared \<Rightarrow> xen_shm_pipe_shared \<Rightarrow> bool" where
  "writer_does s s' \<longleftrightarrow> (shared_wf (length (buffer s)) s \<longrightarrow> writer_rely (length (buffer s)) s s')"

definition open_writer_does :: "xen_shm_pipe_shared \<Rightarrow> xen_shm_pipe_shared \<Rightarrow> bool" where
  "open_writer_does s s' \<longleftrightarrow> (\<not> flag_set (writer_flags s) XSHMP_CLOSED \<longrightarrow>
     writer_does s s' \<and> \<not> flag_set (writer_flags s') XSHMP_CLOSED)"

lemma shared_wf_length: "shared_wf n s \<Longrightarrow> length (buffer s) = n"
  by (simp add: shared_wf_def)

lemma does_iff:
  assumes "shared_wf n s"
  shows "reader_does s s' = reader_rely n s s'" "writer_does s s' = writer_rely n s s'"
  using assms by (simp_all add: reader_does_def writer_does_def shared_wf_length [OF assms])

lemma rely_trans:
  "reader_rely n s t \<Longrightarrow> reader_rely n t u \<Longrightarrow> reader_rely n s u"
  "writer_rely n s t \<Longrightarrow> writer_rely n t u \<Longrightarrow> writer_rely n s u"
  by (auto simp: reader_rely_def writer_rely_def intro: suffix_order.trans prefix_order.trans)

interpretation reader_rg: rely_guarantee writer_does reader_does
proof
  show "reader_does s s" for s by (simp add: reader_does_def reader_rely_def)
  show "reader_does s u" if "reader_does s t" "reader_does t u" for s t u
    using that by (auto simp: reader_does_def reader_rely_def shared_wf_def intro: suffix_order.trans)
qed

interpretation writer_rg: rely_guarantee reader_does open_writer_does
proof
  show "open_writer_does s s" for s by (simp add: open_writer_does_def writer_does_def writer_rely_def)
  show "open_writer_does s u" if "open_writer_does s t" "open_writer_does t u" for s t u
    using that by (auto simp: open_writer_does_def writer_does_def writer_rely_def shared_wf_def
        intro: prefix_order.trans)
qed

text \<open>What an end did on an area of \<open>n\<close> bytes.\<close>

lemma reader_acts_wf:
  assumes "acts writer_does reader_does a b" "shared_wf n (shm a)"
  obtains tr where "trail b = trail a @ tr" "rely_guar (writer_rely n) (reader_rely n) (shm a) tr (shm b)"
proof -
  have "rely_guar (writer_rely n) (reader_rely n) s tr t"
    if "rely_guar writer_does reader_does s tr t" "shared_wf n s" for s tr t
    using that
  proof (induction tr arbitrary: s)
    case (Cons p tr)
    obtain x y where p: "p = (x, y)" by (cases p)
    have x: "reader_rely n s x" using Cons.prems by (simp add: p does_iff)
    then have "shared_wf n x" by (simp add: reader_rely_def)
    then have y: "writer_rely n x y" using Cons.prems(1) by (simp add: p does_iff)
    then have "shared_wf n y" by (simp add: writer_rely_def)
    with x y Cons.IH [of y] Cons.prems(1) show ?case by (simp add: p)
  qed (simp add: does_iff)
  with assms that show ?thesis by (auto simp: acts_def)
qed

lemma writer_acts_wf:
  assumes "acts reader_does open_writer_does a b" "shared_wf n (shm a)"
    "\<not> flag_set (writer_flags (shm a)) XSHMP_CLOSED"
  obtains tr where "trail b = trail a @ tr" "rely_guar (reader_rely n) (writer_rely n) (shm a) tr (shm b)"
proof -
  have "rely_guar (reader_rely n) (writer_rely n) s tr t"
    if "rely_guar reader_does open_writer_does s tr t" "shared_wf n s"
      "\<not> flag_set (writer_flags s) XSHMP_CLOSED" for s tr t
    using that
  proof (induction tr arbitrary: s)
    case (Cons p tr)
    obtain x y where p: "p = (x, y)" by (cases p)
    have x: "writer_rely n s x" "\<not> flag_set (writer_flags x) XSHMP_CLOSED"
      using Cons.prems by (simp_all add: p open_writer_does_def does_iff)
    then have "shared_wf n x" by (simp add: writer_rely_def)
    then have y: "reader_rely n x y" using Cons.prems(1) by (simp add: p does_iff)
    then have "shared_wf n y" "\<not> flag_set (writer_flags y) XSHMP_CLOSED"
      using x(2) by (simp_all add: reader_rely_def)
    with x y Cons.IH [of y] Cons.prems(1) show ?case by (simp add: p)
  qed (simp add: open_writer_does_def does_iff)
  with assms that show ?thesis by (auto simp: acts_def)
qed

section \<open>The bytes one end moves\<close>

text \<open>
  The reader took \<open>xs\<close>: in front of what is in transit now, they give what was in transit before
  followed by what arrived in the meantime.  The writer gave \<open>xs\<close>: what was in transit, followed
  by \<open>xs\<close>, is what the reader took in the meantime, followed by what is in transit now.
  The reader does not close its end while it reads.  In both cases this end has kept to the
  protocol, beside a peer that did.
\<close>

definition reader_flow :: "byte list \<Rightarrow> pipe_st \<Rightarrow> pipe_st \<Rightarrow> bool" where
  "reader_flow xs a b \<longleftrightarrow> (\<exists>ys. arrived b = arrived a @ ys
     \<and> xs @ in_transit (shm b) = in_transit (shm a) @ ys)
     \<and> flag_set (reader_flags (shm b)) XSHMP_CLOSED = flag_set (reader_flags (shm a)) XSHMP_CLOSED
     \<and> acts writer_does reader_does a b"

definition writer_flow :: "byte list \<Rightarrow> pipe_st \<Rightarrow> pipe_st \<Rightarrow> bool" where
  "writer_flow xs a b \<longleftrightarrow> (\<exists>ys. departed b = departed a @ ys
     \<and> in_transit (shm a) @ xs = ys @ in_transit (shm b))
     \<and> acts reader_does open_writer_does a b"

lemma reader_flow_refl [simp]: "reader_flow [] a a"
  by (simp add: reader_flow_def reader_rg.acts_refl)

lemma writer_flow_refl [simp]: "writer_flow [] a a"
  by (simp add: writer_flow_def writer_rg.acts_refl)

lemma reader_flow_trans:
  assumes "reader_flow xs a b" "reader_flow xs' b c"
  shows "reader_flow (xs @ xs') a c"
proof -
  from assms obtain ys ys' where "arrived b = arrived a @ ys" "arrived c = arrived b @ ys'"
    and "xs @ in_transit (shm b) = in_transit (shm a) @ ys"
    and "xs' @ in_transit (shm c) = in_transit (shm b) @ ys'"
    by (auto simp: reader_flow_def)
  then have "arrived c = arrived a @ (ys @ ys')" "(xs @ xs') @ in_transit (shm c) = in_transit (shm a) @ (ys @ ys')"
    by (simp, metis append.assoc)
  moreover have "acts writer_does reader_does a c"
    using assms by (auto simp: reader_flow_def intro: reader_rg.acts_trans)
  ultimately show ?thesis
    using assms unfolding reader_flow_def by blast
qed

lemma writer_flow_trans:
  assumes "writer_flow xs a b" "writer_flow xs' b c"
  shows "writer_flow (xs @ xs') a c"
proof -
  from assms obtain ys ys' where "departed b = departed a @ ys" "departed c = departed b @ ys'"
    and "in_transit (shm a) @ xs = ys @ in_transit (shm b)"
    and "in_transit (shm b) @ xs' = ys' @ in_transit (shm c)"
    by (auto simp: writer_flow_def)
  then have "departed c = departed a @ (ys @ ys')" "in_transit (shm a) @ (xs @ xs') = (ys @ ys') @ in_transit (shm c)"
    by (simp, metis append.assoc)
  moreover have "acts reader_does open_writer_does a c"
    using assms by (auto simp: writer_flow_def intro: writer_rg.acts_trans)
  ultimately show ?thesis
    unfolding writer_flow_def by blast
qed

lemma reader_flow_prefix: "reader_flow [] a b \<Longrightarrow> prefix (in_transit (shm a)) (in_transit (shm b))"
  by (auto simp: reader_flow_def)

lemma writer_flow_suffix: "writer_flow [] a b \<Longrightarrow> suffix (in_transit (shm b)) (in_transit (shm a))"
  by (auto simp: writer_flow_def suffix_def)

lemma reader_flow_length:
  "reader_flow xs a b \<Longrightarrow> length (in_transit (shm a)) \<le> length xs + length (in_transit (shm b))"
  by (auto simp: reader_flow_def dest!: arg_cong [where f = length])

lemma writer_flow_length:
  "writer_flow xs a b \<Longrightarrow> length (in_transit (shm b)) \<le> length (in_transit (shm a)) + length xs"
  by (auto simp: writer_flow_def dest!: arg_cong [where f = length])

section \<open>Interference\<close>

lemma env_writerD:
  assumes "env_writer n env" "shared_wf n s"
  shows "shared_wf n (interf env t s)" "sh_read (interf env t s) = sh_read s"
    "prefix (in_transit s) (in_transit (interf env t s))"
    "reader_flags (interf env t s) = reader_flags s"
  using assms by (simp_all add: env_writer_def writer_rely_def)

lemma env_readerD:
  assumes "env_reader n env" "shared_wf n s"
  shows "shared_wf n (interf env t s)" "sh_write (interf env t s) = sh_write s"
    "suffix (in_transit (interf env t s)) (in_transit s)" "buffer (interf env t s) = buffer s"
  using assms by (simp_all add: env_reader_def reader_rely_def)

text \<open>A passive phase of the reader (of the writer): observations and system calls only.\<close>

definition reader_passive :: "nat \<Rightarrow> pipe_st \<Rightarrow> pipe_st \<Rightarrow> bool" where
  "reader_passive n st st' \<longleftrightarrow> same_pipe st st' \<and> shared_wf n (shm st')
     \<and> sh_read (shm st') = sh_read (shm st) \<and> reader_flow [] st st'"

definition writer_passive :: "nat \<Rightarrow> pipe_st \<Rightarrow> pipe_st \<Rightarrow> bool" where
  "writer_passive n st st' \<longleftrightarrow> same_pipe st st' \<and> shared_wf n (shm st')
     \<and> sh_write (shm st') = sh_write (shm st) \<and> buffer (shm st') = buffer (shm st)
     \<and> writer_flow [] st st'"

lemma reader_passive_trans: "reader_passive n a b \<Longrightarrow> reader_passive n b c \<Longrightarrow> reader_passive n a c"
  using reader_flow_trans [of "[]" a b "[]" c] by (auto simp: reader_passive_def intro: same_pipe_trans)

lemma writer_passive_trans: "writer_passive n a b \<Longrightarrow> writer_passive n b c \<Longrightarrow> writer_passive n a c"
  using writer_flow_trans [of "[]" a b "[]" c] by (auto simp: writer_passive_def intro: same_pipe_trans)

text \<open>A step of the model that is one observation, as far as the shared area is concerned.\<close>

definition observed :: "pipe_env \<Rightarrow> pipe_st \<Rightarrow> pipe_st \<Rightarrow> bool" where
  "observed env st st' \<longleftrightarrow> same_pipe st st' \<and> shm st' = shm (observe env st)
     \<and> arrived st' = arrived (observe env st) \<and> departed st' = departed (observe env st)
     \<and> trail st' = trail st @ [(shm st, shm st')]"

lemma observed_steps [simp]:
  "observed env st (observe env st)"
  "observed env st (snd (xen_shm_pipe_send_signal env st))"
  "observed env st (snd (xen_shm_pipe_wait_signal env st))"
  "observed env st (snd (xen_shm_pipe_prone_for_epipe env st))"
  by (simp_all add: observed_def observe_history)
    (simp_all add: xen_shm_pipe_send_signal_def xen_shm_pipe_wait_signal_def
      xen_shm_pipe_prone_for_epipe_def Let_def split_beta observe_history)

lemma reader_passive_observed:
  assumes "env_writer n env" "shared_wf n (shm st)" "observed env st st'"
  shows "reader_passive n st st'"
proof -
  note w = env_writerD [OF assms(1,2), of "tick st"]
  have "arrived st' = arrived st @ drop (length (in_transit (shm st))) (in_transit (shm st'))"
    using assms(3) by (simp add: observed_def observe_def Let_def)
  moreover have "acts writer_does reader_does st st'"
    using assms by (intro reader_rg.acts_peer) (simp_all add: observed_def does_iff env_writer_def)
  ultimately have "reader_flow [] st st'"
    using w(3,4) assms(3) by (auto simp: reader_flow_def observed_def prefix_def)
  with w assms(3) show ?thesis by (simp add: reader_passive_def observed_def)
qed

lemma writer_passive_observed:
  assumes "env_reader n env" "shared_wf n (shm st)" "observed env st st'"
  shows "writer_passive n st st'"
proof -
  note w = env_readerD [OF assms(1,2), of "tick st"]
  have "departed st' = departed st
      @ take (length (in_transit (shm st)) - length (in_transit (shm st'))) (in_transit (shm st))"
    using assms(3) by (simp add: observed_def observe_def Let_def)
  moreover have "acts reader_does open_writer_does st st'"
    using assms by (intro writer_rg.acts_peer) (simp_all add: observed_def does_iff env_reader_def)
  ultimately have "writer_flow [] st st'"
    using w(3) assms(3) by (auto simp: writer_flow_def observed_def suffix_def)
  with w assms(3) show ?thesis by (simp add: writer_passive_def observed_def)
qed

lemmas reader_passive_observe = reader_passive_observed [OF _ _ observed_steps(1)]
lemmas writer_passive_observe = writer_passive_observed [OF _ _ observed_steps(1)]

lemma reader_passive_signal:
  assumes "env_writer n env" "shared_wf n (shm st)"
  shows "reader_passive n st (signal_if_sleeping env fl st)"
proof -
  have "shared_wf n (shm (observe env st))" using assms by (simp add: env_writerD)
  note reader_passive_observed [OF assms(1) this observed_steps(2)]
  with reader_passive_observe [OF assms] show ?thesis
    by (auto simp: signal_if_sleeping_def Let_def intro: reader_passive_trans)
qed

lemma writer_passive_signal:
  assumes "env_reader n env" "shared_wf n (shm st)"
  shows "writer_passive n st (signal_if_sleeping env fl st)"
proof -
  have "shared_wf n (shm (observe env st))" using assms by (simp add: env_readerD)
  note writer_passive_observed [OF assms(1) this observed_steps(2)]
  with writer_passive_observe [OF assms] show ?thesis
    by (auto simp: signal_if_sleeping_def Let_def intro: writer_passive_trans)
qed

lemma reader_passive_wf: "reader_passive n st st' \<Longrightarrow> pipe_wf n st \<Longrightarrow> pipe_wf n st'"
  by (auto simp: reader_passive_def intro: same_pipe_wf)

lemma writer_passive_wf: "writer_passive n st st' \<Longrightarrow> pipe_wf n st \<Longrightarrow> pipe_wf n st'"
  by (auto simp: writer_passive_def intro: same_pipe_wf)

section \<open>A quiet peer, and a small pipe\<close>

text \<open>The environment in which the peer is between two calls, and the device gives the answers \<open>ans\<close>.\<close>

definition quiet_env :: "(nat \<Rightarrow> sys_answer) \<Rightarrow> pipe_env" where
  "quiet_env ans = \<lparr>interf = \<lambda>_ s. s, answer = ans\<rparr>"

lemma quiet_env_simps [simp]: "interf (quiet_env ans) t s = s" "answer (quiet_env ans) = ans"
  by (simp_all add: quiet_env_def)

lemma quiet_env_rely [simp]: "env_writer n (quiet_env ans)" "env_reader n (quiet_env ans)"
  by (simp_all add: env_writer_def env_reader_def writer_rely_def reader_rely_def)

lemma quiet_observe:
  "observe (quiet_env ans) st = st\<lparr>tick := Suc (tick st), trail := trail st @ [(shm st, shm st)]\<rparr>"
  by (simp add: observe_def Let_def)

text \<open>A buffer of eight bytes with three bytes in transit, which starts near the end of the
  buffer, and the two ends over it.\<close>

definition small_area :: xen_shm_pipe_shared where
  "small_area = \<lparr>writer_flags = 1, reader_flags = 1, sh_write = 1, sh_read = 6,
     buffer = [12, 0, 0, 0, 0, 0, 10, 11]\<rparr>"

definition small_end :: "xen_shm_pipe_mod \<Rightarrow> xen_shm_pipe_shared \<Rightarrow> pipe_st" where
  "small_end md s = \<lparr>priv = \<lparr>fd = 3, pmod = md, pconv = xen_shm_pipe_conv_writer_offers, pshared = Some 4096,
     buffer_size = 8, wait_check_interval = 2,
     await_op = \<lparr>request_flags = XEN_SHM_IOCTL_AWAIT_LATENT_USER, timeout_ms = 0, remaining_ms = 0\<rparr>,
     saw_epipe = 0, stats = \<lparr>ioctl_count_await = 0, ioctl_count_epipe_prone = 0, ioctl_count_ssig = 0,
       read_count = 0, write_count = 0, waiting = 0\<rparr>\<rparr>,
     shm = s, errno = 0, tick = 0, calls = [], arrived = [], departed = [], trail = []\<rparr>"

definition epipe_answer :: "nat \<Rightarrow> sys_answer" where
  "epipe_answer t = \<lparr>a_ret = -1, a_errno = EPIPE, a_addr = 0, a_domid = 0, a_grant = 0, a_remaining = 0\<rparr>"

lemma small_area_wf: "shared_wf 8 small_area"
  by (simp add: shared_wf_def small_area_def)

lemma small_area_in_transit: "in_transit small_area = [10, 11, 12]"
  by (simp add: in_transit_def small_area_def ring_list_def ring_count_def)

lemma small_end_wf: "shared_wf 8 s \<Longrightarrow> pipe_wf 8 (small_end md s)"
  by (simp add: pipe_wf_def small_end_def)

lemma small_end_simps [simp]:
  "shm (small_end md s) = s" "pmod (priv (small_end md s)) = md" "tick (small_end md s) = 0"
  "pshared (priv (small_end md s)) = Some 4096"
  by (simp_all add: small_end_def)

end
