(* ===== verification/Pipe_Copy.thy ===== *)
theory Pipe_Copy
  imports Pipe_Types "HOL-Library.Monad_Syntax"
begin

text \<open>
  Copying between the user buffer and the circular buffer, as the bodies of
  \<^verbatim>\<open>__xen_shm_pipe_read_avail\<close> and \<^verbatim>\<open>__xen_shm_pipe_write_avail\<close> do it: where a chunk
  ends, and the copy of one chunk, by bytes or, when both pointers are congruent modulo 8
  and the chunk is long enough, by 64 bit words.

  Pointers are offsets into the buffer they point to; the address of offset \<open>i\<close> of a
  buffer at address \<open>b\<close> is \<open>b + i\<close>, and \<^verbatim>\<open>addr & 0x7\<close> is \<open>addr mod 8\<close>.  The copy reads
  from a source and writes to a destination; \<open>u si di\<close> picks the one of the two offsets
  that points into the user buffer, which is the one the loops of the code test.
\<close>

section \<open>Definitions\<close>

text \<open>
  The end of the next chunk in the user buffer: the end of the contiguous available part of
  the circular buffer, the end of the user's request, or the next check of the peer,
  whichever comes first, and whether it is the check.
\<close>

definition chunk_bound :: "nat \<Rightarrow> nat \<Rightarrow> nat \<Rightarrow> nat \<Rightarrow> nat \<Rightarrow> nat \<Rightarrow> nat \<times> bool" where
  "chunk_bound bsize own_pos limit_pos current_buf usr_max_buf gran_max_buf =
    (let circ_max_buf =
           (if own_pos \<le> limit_pos then current_buf + (limit_pos - own_pos)
            else current_buf + (bsize - own_pos));
         min_max_buf = circ_max_buf;
         min_max_buf = (if min_max_buf > usr_max_buf then usr_max_buf else min_max_buf);
         gran_check = (min_max_buf > gran_max_buf);
         min_max_buf = (if gran_check then gran_max_buf else min_max_buf)
     in (min_max_buf, gran_check))"

text \<open>An access of \<open>w\<close> bytes at offset \<open>i\<close> of a buffer at address \<open>b\<close> is defined when it is in
  bounds and aligned.\<close>

definition access_ok :: "nat \<Rightarrow> nat \<Rightarrow> memory \<Rightarrow> nat \<Rightarrow> bool" where
  "access_ok w b m i \<longleftrightarrow> i + w \<le> length m \<and> w dvd (b + i)"

function copy_loop ::
  "(nat \<Rightarrow> nat \<Rightarrow> bool) \<Rightarrow> nat \<Rightarrow> nat \<Rightarrow> nat \<Rightarrow> memory \<Rightarrow> nat \<Rightarrow> memory \<Rightarrow> nat
    \<Rightarrow> (memory \<times> nat \<times> nat) option" where
  "copy_loop stop w sb db src si dst di =
    (if stop si di then Some (dst, si, di)
     else if 0 < w \<and> access_ok w sb src si \<and> access_ok w db dst di
     then copy_loop stop w sb db src (si + w) (overwrite dst di (take w (drop si src))) (di + w)
     else None)"
  by pat_completeness auto
termination
  by (relation "measure (\<lambda>(stop, w, sb, db, src, si, dst, di). length dst - di)")
    (auto simp: access_ok_def)

declare copy_loop.simps [simp del]

definition chunk_copy ::
  "(nat \<Rightarrow> nat \<Rightarrow> nat) \<Rightarrow> nat \<Rightarrow> nat \<Rightarrow> nat \<Rightarrow> memory \<Rightarrow> nat \<Rightarrow> memory \<Rightarrow> nat \<Rightarrow> bool \<Rightarrow> nat \<Rightarrow> bool
    \<Rightarrow> (memory \<times> nat \<times> nat \<times> bool) option" where
  "chunk_copy u ub sb db src si dst di is_aligned min_max_buf gran_check =
    (if (is_aligned \<or> (sb + si) mod 8 = (db + di) mod 8) \<and> min_max_buf > u si di + 24
     then do {
       (dst, si, di) \<leftarrow>
         (if \<not> is_aligned
          then copy_loop (\<lambda>si di. (ub + u si di) mod 8 = 0) 1 sb db src si dst di
          else Some (dst, si, di));
       let min_max_buf64 = 8 * ((ub + min_max_buf) div 8);
       (dst, si, di) \<leftarrow> copy_loop (\<lambda>si di. ub + u si di = min_max_buf64) 8 sb db src si dst di;
       if \<not> gran_check \<and> u si di \<noteq> min_max_buf
       then do {
         (dst, si, di) \<leftarrow> copy_loop (\<lambda>si di. u si di = min_max_buf) 1 sb db src si dst di;
         Some (dst, si, di, False)
       }
       else Some (dst, si, di, True)
     }
     else do {
       (dst, si, di) \<leftarrow> copy_loop (\<lambda>si di. u si di = min_max_buf) 1 sb db src si dst di;
       Some (dst, si, di, False)
     })"

section \<open>The chunk bound\<close>

lemma chunk_bound_progress:
  assumes "chunk_bound n p l cur usr gran = (m, g)"
    and "p < n" "l < n" "p \<noteq> l" "cur < usr" "cur < gran"
  shows "cur < m" "m \<le> usr" "m \<le> gran" "m - cur \<le> ring_count n p l" "p + (m - cur) \<le> n"
  using assms by (auto simp: chunk_bound_def ring_count_def Let_def split: if_splits)

lemma chunk_bound_no_check:
  assumes "chunk_bound n p l cur usr gran = (m, False)" "p < n" "l < n"
  shows "m = usr \<or> m = cur + (if p \<le> l then ring_count n p l else n - p)"
  using assms by (auto simp: chunk_bound_def ring_count_def Let_def split: if_splits)

section \<open>Addresses modulo 8\<close>

text \<open>The distance to the next multiple of 8.\<close>

definition align_gap :: "nat \<Rightarrow> nat" where
  "align_gap x = (if x mod 8 = 0 then 0 else 8 - x mod 8)"

lemma align_gap_less: "align_gap x < 8"
  by (simp add: align_gap_def)

lemma align_gap_zero: "x mod 8 = 0 \<Longrightarrow> align_gap x = 0"
  by (simp add: align_gap_def)

lemma align_gap_mod: "(x + align_gap x) mod 8 = 0"
proof -
  have "(x + align_gap x) mod 8 = (x mod 8 + align_gap x) mod 8" by (simp add: mod_add_left_eq)
  moreover have "x mod 8 + align_gap x = 0 \<or> x mod 8 + align_gap x = 8"
    using mod_less_divisor [of 8 x] by (auto simp: align_gap_def)
  ultimately show ?thesis by (metis mod_0 mod_self)
qed

lemma align_gap_before: "j < align_gap x \<Longrightarrow> (x + j) mod 8 \<noteq> 0"
proof -
  assume j: "j < align_gap x"
  have "(x + j) mod 8 = (x mod 8 + j) mod 8" by (simp add: mod_add_left_eq)
  moreover have "0 < x mod 8 + j" "x mod 8 + j < 8"
    using j by (auto simp: align_gap_def split: if_splits)
  ultimately show ?thesis by simp
qed

text \<open>The number of whole words between an aligned address and the last aligned address
  before the end.\<close>

lemma word_steps:
  assumes "x mod 8 = 0" "x + 8 < (y::nat)"
  shows "x + 8 * (y div 8 - x div 8) = 8 * (y div 8)" "0 < y div 8 - x div 8"
    "x + 8 * (y div 8 - x div 8) \<le> y"
proof -
  obtain q where q: "x = 8 * q" using assms(1) by (auto simp: mod_eq_0_iff_dvd elim: dvdE)
  have "8 * (y div 8) \<le> y" "y < 8 * (y div 8) + 8" by simp_all
  with q assms(2) show "x + 8 * (y div 8 - x div 8) = 8 * (y div 8)" "0 < y div 8 - x div 8"
    "x + 8 * (y div 8 - x div 8) \<le> y" by auto
qed

section \<open>The copy loops\<close>

lemma copy_loop_run:
  assumes "0 < w" "\<And>j. j < k \<Longrightarrow> \<not> stop (si + w * j) (di + w * j)"
    "stop (si + w * k) (di + w * k)"
    "si + w * k \<le> length src" "di + w * k \<le> length dst" "w dvd sb + si" "w dvd db + di"
  shows "copy_loop stop w sb db src si dst di
    = Some (overwrite dst di (take (w * k) (drop si src)), si + w * k, di + w * k)"
  using assms(2-)
proof (induction k arbitrary: si di dst)
  case 0
  then show ?case by (subst copy_loop.simps) simp
next
  case (Suc k)
  let ?dst = "overwrite dst di (take w (drop si src))"
  have ok: "access_ok w sb src si" "access_ok w db dst di" and len: "length ?dst = length dst"
    using Suc.prems by (auto simp: access_ok_def)
  have "\<not> stop si di" using Suc.prems(1) [of 0] by simp
  moreover have "copy_loop stop w sb db src (si + w) ?dst (di + w)
    = Some (overwrite ?dst (di + w) (take (w * k) (drop (si + w) src)), si + w + w * k, di + w + w * k)"
  proof (rule Suc.IH)
    show "\<not> stop (si + w + w * j) (di + w + w * j)" if "j < k" for j
      using Suc.prems(1) [of "Suc j"] that by (simp add: add.assoc)
  qed (use Suc.prems len in \<open>auto simp: add.assoc add.left_commute dvd_add_left_iff
      simp flip: add.assoc\<close>)
  moreover have "overwrite ?dst (di + w) (take (w * k) (drop (si + w) src))
    = overwrite dst di (take (w * Suc k) (drop si src))"
    using overwrite_overwrite [of di "take w (drop si src)" "take (w * k) (drop (si + w) src)" dst]
      Suc.prems by (simp add: take_drop_add)
  ultimately show ?case
    using ok \<open>0 < w\<close> by (subst copy_loop.simps) (simp add: add.assoc)
qed

text \<open>One byte at a time, until the user pointer reaches the given offset.\<close>

lemma copy_bytes_to:
  assumes u: "\<And>j. u (si + j) (di + j) = u si di + j"
    and "u si di + k = m" "si + k \<le> length src" "di + k \<le> length dst"
  shows "copy_loop (\<lambda>si di. u si di = m) 1 sb db src si dst di
    = Some (overwrite dst di (take k (drop si src)), si + k, di + k)"
  using copy_loop_run [of 1 k "\<lambda>si di. u si di = m" si di src dst sb db] assms by (simp add: u)

text \<open>The bytes up to the next address that is a multiple of 8.\<close>

lemma copy_bytes_to_aligned:
  assumes u: "\<And>j. u (si + j) (di + j) = u si di + j"
    and "k = align_gap (ub + u si di)" "si + k \<le> length src" "di + k \<le> length dst"
  shows "copy_loop (\<lambda>si di. (ub + u si di) mod 8 = 0) 1 sb db src si dst di
    = Some (overwrite dst di (take k (drop si src)), si + k, di + k)"
proof -
  have "(ub + (u si di + j)) mod 8 \<noteq> 0" if "j < k" for j
    using align_gap_before [of j "ub + u si di"] that assms(2) by (simp add: add.assoc)
  moreover have "(ub + (u si di + k)) mod 8 = 0"
    using align_gap_mod [of "ub + u si di"] assms(2) by (simp add: add.assoc)
  ultimately show ?thesis
    using copy_loop_run [of 1 k "\<lambda>si di. (ub + u si di) mod 8 = 0" si di src dst sb db] assms(3,4)
    by (simp add: u)
qed

text \<open>Eight bytes at a time, up to an aligned address.\<close>

lemma copy_words_to:
  assumes u: "\<And>j. u (si + j) (di + j) = u si di + j"
    and "ub + u si di + 8 * k = m" "si + 8 * k \<le> length src" "di + 8 * k \<le> length dst"
    "8 dvd sb + si" "8 dvd db + di"
  shows "copy_loop (\<lambda>si di. ub + u si di = m) 8 sb db src si dst di
    = Some (overwrite dst di (take (8 * k) (drop si src)), si + 8 * k, di + 8 * k)"
  using copy_loop_run [of 8 k "\<lambda>si di. ub + u si di = m" si di src dst sb db] assms by (simp add: u)

section \<open>The copy of one chunk\<close>

lemma overwrite_take_take:
  assumes "si + k + l \<le> length src" "di + k + l \<le> length dst"
  shows "overwrite (overwrite dst di (take k (drop si src))) (di + k) (take l (drop (si + k) src))
    = overwrite dst di (take (k + l) (drop si src))"
  using overwrite_overwrite [of di "take k (drop si src)" "take l (drop (si + k) src)" dst] assms
  by (simp add: take_drop_add min_absorb2)

text \<open>
  The user pointer is one of the two pointers, and its buffer lies at \<open>ub\<close>; a set
  \<open>is_aligned\<close> means that both pointers are multiples of 8.
\<close>

definition copy_frame ::
  "(nat \<Rightarrow> nat \<Rightarrow> nat) \<Rightarrow> nat \<Rightarrow> nat \<Rightarrow> nat \<Rightarrow> nat \<Rightarrow> nat \<Rightarrow> bool \<Rightarrow> bool" where
  "copy_frame u ub sb db si di is_aligned \<longleftrightarrow>
    (u = (\<lambda>si di. si) \<and> ub = sb \<or> u = (\<lambda>si di. di) \<and> ub = db)
    \<and> (is_aligned \<longrightarrow> 8 dvd sb + si \<and> 8 dvd db + di)"

lemma chunk_aligned:
  assumes "copy_frame u ub sb db si di al" "al \<or> (sb + si) mod 8 = (db + di) mod 8"
    and "al \<longrightarrow> a = 0" "(ub + u si di + a) mod 8 = 0"
  shows "8 dvd sb + (si + a)" "8 dvd db + (di + a)"
proof -
  have "8 dvd sb + si + a \<and> 8 dvd db + di + a"
  proof (cases al)
    case True
    with assms show ?thesis by (simp add: copy_frame_def)
  next
    case False
    then have "(sb + si + a) mod 8 = (db + di + a) mod 8"
      using assms(2) mod_add_cong by blast
    with assms(1,4) show ?thesis
      unfolding copy_frame_def dvd_eq_mod_eq_0 by (elim conjE disjE) simp_all
  qed
  then show "8 dvd sb + (si + a)" "8 dvd db + (di + a)" by (simp_all add: add.assoc)
qed

lemma chunk_copy_fast:
  assumes fr: "copy_frame u ub sb db si di al"
    and fast: "al \<or> (sb + si) mod 8 = (db + di) mod 8" "m > u si di + 24"
    and bnd: "si + (m - u si di) \<le> length src" "di + (m - u si di) \<le> length dst"
  shows "\<exists>k al'. chunk_copy u ub sb db src si dst di al m g
      = Some (overwrite dst di (take k (drop si src)), si + k, di + k, al')
    \<and> 0 < k \<and> k \<le> m - u si di \<and> (\<not> g \<longrightarrow> k = m - u si di)
    \<and> (al' \<longrightarrow> 8 dvd sb + (si + k) \<and> 8 dvd db + (di + k))"
proof -
  have u: "\<And>si di j. u (si + j) (di + j) = u si di + j"
    using fr by (auto simp: copy_frame_def)
  define a where "a = (if al then 0 else align_gap (ub + u si di))"
  define f where "f = (ub + m) div 8 - (ub + u si di + a) div 8"
  have a: "a < 8" "(ub + u si di + a) mod 8 = 0"
    using fr align_gap_less align_gap_mod unfolding a_def copy_frame_def by (auto simp: mod_eq_0_iff_dvd)
  have al8: "8 dvd sb + (si + a)" "8 dvd db + (di + a)"
    using chunk_aligned [OF fr fast(1) _ a(2)] by (simp_all add: a_def)
  have "ub + u si di + a + 8 < ub + m" using a(1) fast(2) by simp
  note st = word_steps [OF a(2) this, folded f_def]
  have end64: "ub + u si di + a + 8 * f = 8 * ((ub + m) div 8)" and f: "0 < f" "a + 8 * f \<le> m - u si di"
    using st by simp_all
  have c1: "(if \<not> al then copy_loop (\<lambda>si di. (ub + u si di) mod 8 = 0) 1 sb db src si dst di
      else Some (dst, si, di)) = Some (overwrite dst di (take a (drop si src)), si + a, di + a)"
    using copy_bytes_to_aligned [of u si di a ub src dst sb db] u bnd f unfolding a_def by auto
  let ?d1 = "overwrite dst di (take a (drop si src))"
  have c2: "copy_loop (\<lambda>si di. ub + u si di = 8 * ((ub + m) div 8)) 8 sb db src (si + a) ?d1 (di + a)
    = Some (overwrite dst di (take (a + 8 * f) (drop si src)), si + (a + 8 * f), di + (a + 8 * f))"
    using copy_words_to [of u "si + a" "di + a" ub f "8 * ((ub + m) div 8)" src ?d1 sb db] u
      end64 bnd f(2) al8 overwrite_take_take [of si a "8 * f" src di dst] by (simp add: add.assoc)
  define k where "k = a + 8 * f"
  obtain r where r: "m = u si di + k + r"
    using f(2) fast(2) le_iff_add [of "u si di + k" m] unfolding k_def by auto
  show ?thesis
  proof (cases "\<not> g \<and> u (si + k) (di + k) \<noteq> m")
    case True
    have "copy_loop (\<lambda>si di. u si di = m) 1 sb db src (si + k)
        (overwrite dst di (take k (drop si src))) (di + k)
      = Some (overwrite dst di (take (k + r) (drop si src)), si + (k + r), di + (k + r))"
      using copy_bytes_to [of u "si + k" "di + k" r m src "overwrite dst di (take k (drop si src))" sb db]
        u bnd r overwrite_take_take [of si k r src di dst] by (simp add: add.assoc)
    then show ?thesis
      using fast c1 c2 True f(1) r by (auto simp: chunk_copy_def Let_def k_def)
  next
    case False
    have "g \<or> k = m - u si di" using False u r by auto
    moreover have "8 dvd sb + (si + k)" "8 dvd db + (di + k)"
      using al8 unfolding k_def by (simp_all add: add.assoc [symmetric])
    ultimately show ?thesis
      using fast c1 c2 False f by (auto simp: chunk_copy_def Let_def k_def)
  qed
qed

lemma chunk_copy_slow:
  assumes fr: "copy_frame u ub sb db si di al"
    and slow: "\<not> ((al \<or> (sb + si) mod 8 = (db + di) mod 8) \<and> m > u si di + 24)"
    and bnd: "u si di < m" "si + (m - u si di) \<le> length src" "di + (m - u si di) \<le> length dst"
  shows "chunk_copy u ub sb db src si dst di al m g
      = Some (overwrite dst di (take (m - u si di) (drop si src)),
          si + (m - u si di), di + (m - u si di), False)"
proof -
  have "\<And>j. u (si + j) (di + j) = u si di + j"
    using fr by (auto simp: copy_frame_def)
  with copy_bytes_to [of u si di "m - u si di" m src dst sb db] bnd
  show ?thesis by (simp add: chunk_copy_def slow)
qed

text \<open>
  Whatever the alignment of the two buffers, the chunk copy moves a non-empty block of
  consecutive bytes, stays in bounds, does only aligned 64 bit accesses, and copies up to
  the bound unless the bound is a check of the peer.
\<close>

lemma chunk_copy_correct:
  assumes "copy_frame u ub sb db si di al"
    and "u si di < m" "si + (m - u si di) \<le> length src" "di + (m - u si di) \<le> length dst"
  shows "\<exists>k al'. chunk_copy u ub sb db src si dst di al m g
      = Some (overwrite dst di (take k (drop si src)), si + k, di + k, al')
    \<and> 0 < k \<and> k \<le> m - u si di \<and> (\<not> g \<longrightarrow> k = m - u si di)
    \<and> (al' \<longrightarrow> 8 dvd sb + (si + k) \<and> 8 dvd db + (di + k))"
proof (cases "(al \<or> (sb + si) mod 8 = (db + di) mod 8) \<and> m > u si di + 24")
  case True
  with chunk_copy_fast [OF assms(1) _ _ assms(3,4)] show ?thesis by blast
next
  case False
  from chunk_copy_slow [OF assms(1) False assms(2-4), of g] assms(2) show ?thesis
    by (intro exI [of _ "m - u si di"] exI [of _ False]) simp
qed

section \<open>The copy of a chunk\<close>

text \<open>C6.  The copy of a chunk by aligned 64 bit words is a plain copy of bytes: started with both
  offsets in range, it makes no access out of bounds or misaligned, ends, and has replaced \<open>k\<close> bytes of
  the destination by the next \<open>k\<close> bytes of the source, at least one and at most the chunk, and the
  whole chunk unless a check of the peer is due; it reports aligned pointers only when both are.\<close>

theorem chunk_copy_is_block_copy:
  assumes "copy_frame u ub sb db si di al"
    and "u si di < m" "si + (m - u si di) \<le> length src" "di + (m - u si di) \<le> length dst"
  shows "\<exists>k al'. chunk_copy u ub sb db src si dst di al m g
      = Some (overwrite dst di (take k (drop si src)), si + k, di + k, al')
    \<and> 0 < k \<and> k \<le> m - u si di \<and> (\<not> g \<longrightarrow> k = m - u si di)
    \<and> (al' \<longrightarrow> 8 dvd sb + (si + k) \<and> 8 dvd db + (di + k))"
  using assms by (rule chunk_copy_correct)

theorem chunk_copy_is_block_copy_witness:
  "\<exists>k al'. chunk_copy (\<lambda>si di. di) 5 13 5 (replicate 64 7) 0 (replicate 64 0) 0 False 60 False
      = Some (overwrite (replicate 64 0) 0 (take k (drop 0 (replicate 64 7))), 0 + k, 0 + k, al')
    \<and> 0 < k \<and> k \<le> 60 - 0 \<and> (\<not> False \<longrightarrow> k = 60 - 0)
    \<and> (al' \<longrightarrow> 8 dvd 13 + (0 + k) \<and> 8 dvd (5 :: nat) + (0 + k))"
  by (rule chunk_copy_is_block_copy) (simp_all add: copy_frame_def)

end
