(* ===== verification/Pipe_Read.thy ===== *)
theory Pipe_Read
  imports Pipe_Copy
begin

text \<open>
  \<^verbatim>\<open>__xen_shm_pipe_read_avail\<close>: copy to the user buffer what the circular buffer holds,
  chunk by chunk, publishing the read position after each chunk, while the writer goes on
  writing.  Local variables of the function are the fields of \<open>read_loc\<close>; pointers into the
  user buffer and into the circular buffer are offsets.
\<close>

section \<open>Definitions\<close>

record read_loc =
  rd_buf :: memory
  rd_current_buf :: nat
  rd_read_pos :: nat
  rd_write_pos :: nat
  rd_gran_max_buf :: nat
  rd_is_aligned :: bool
  rd_st :: pipe_st

definition read_avail_start :: "pipe_env \<Rightarrow> memory \<Rightarrow> pipe_st \<Rightarrow> read_loc" where
  "read_avail_start env buf st =
    (let read_pos = unat (sh_read (shm st));
         st = observe env st;
         write_pos = unat (sh_write (shm st));
         st = observe env st;
         gran_max_buf =
           (if flag_set (writer_flags (shm st)) XSHMP_SLEEPING then XEN_SHM_PIPE_FAST_CHECK_INTERVAL
            else nat (wait_check_interval (priv st)))
     in \<lparr>rd_buf = buf, rd_current_buf = 0, rd_read_pos = read_pos, rd_write_pos = write_pos,
         rd_gran_max_buf = gran_max_buf, rd_is_aligned = False, rd_st = st\<rparr>)"

definition read_avail_cond :: "nat \<Rightarrow> read_loc \<Rightarrow> bool" where
  "read_avail_cond nbytes l \<longleftrightarrow> rd_read_pos l \<noteq> rd_write_pos l \<and> rd_current_buf l \<noteq> nbytes"

text \<open>One round of the loop; \<open>ub\<close> is the address of the user buffer.\<close>

definition read_avail_iter :: "pipe_env \<Rightarrow> nat \<Rightarrow> nat \<Rightarrow> read_loc \<Rightarrow> read_loc option" where
  "read_avail_iter env ub nbytes l =
    (let st = rd_st l;
         bsize = unat (buffer_size (priv st));
         (min_max_buf, gran_check) =
           chunk_bound bsize (rd_read_pos l) (rd_write_pos l) (rd_current_buf l) nbytes (rd_gran_max_buf l)
     in do {
       (buf, read_pos, current_buf, is_aligned) \<leftarrow>
         chunk_copy (\<lambda>si di. di) ub (buffer_addr (priv st)) ub (buffer (shm st)) (rd_read_pos l)
           (rd_buf l) (rd_current_buf l) (rd_is_aligned l) min_max_buf gran_check;
       let (st, gran_max_buf) =
         (if gran_check \<or> current_buf = rd_gran_max_buf l
          then (signal_if_sleeping env writer_flags st,
                rd_gran_max_buf l + nat (wait_check_interval (priv st)))
          else (st, rd_gran_max_buf l));
       let read_pos = (if read_pos = bsize then 0 else read_pos);
       let st = observe env st;
       let write_pos = unat (sh_write (shm st));
       let st = st\<lparr>shm := (shm st)\<lparr>sh_read := of_nat read_pos\<rparr>\<rparr>;
       Some \<lparr>rd_buf = buf, rd_current_buf = current_buf, rd_read_pos = read_pos,
             rd_write_pos = write_pos, rd_gran_max_buf = gran_max_buf,
             rd_is_aligned = is_aligned, rd_st = st\<rparr>
     })"

partial_function (option) read_avail_loop ::
  "pipe_env \<Rightarrow> nat \<Rightarrow> nat \<Rightarrow> read_loc \<Rightarrow> read_loc option" where
  "read_avail_loop env ub nbytes l =
    (if read_avail_cond nbytes l
     then Option.bind (read_avail_iter env ub nbytes l) (read_avail_loop env ub nbytes)
     else Some l)"

definition xen_shm_pipe_read_avail ::
  "pipe_env \<Rightarrow> nat \<Rightarrow> memory \<Rightarrow> nat \<Rightarrow> pipe_st \<Rightarrow> (nat \<times> memory \<times> pipe_st) option" where
  "xen_shm_pipe_read_avail env ub buf nbytes st =
    do {
      l \<leftarrow> read_avail_loop env ub nbytes (read_avail_start env buf st);
      let st = signal_if_sleeping env writer_flags (rd_st l);
      Some (rd_current_buf l, rd_buf l, st)
    }"

lemma read_avail_loop_induct:
  assumes "read_avail_loop env ub nbytes s = Some t" "\<And>s. \<not> read_avail_cond nbytes s \<Longrightarrow> P s s"
    and "\<And>s u t. read_avail_cond nbytes s \<Longrightarrow> read_avail_iter env ub nbytes s = Some u \<Longrightarrow> P u t \<Longrightarrow> P s t"
  shows "P s t"
proof -
  let ?P = "\<lambda>env' ub' nbytes' s t. env' = env \<longrightarrow> ub' = ub \<longrightarrow> nbytes' = nbytes \<longrightarrow> P s t"
  have "?P env ub nbytes s t"
    by (rule read_avail_loop.raw_induct [where P = ?P, OF _ assms(1)])
      (auto intro: assms(2,3) simp: bind_eq_Some_conv split: if_splits)
  then show ?thesis by blast
qed

interpretation rd: option_loop "read_avail_cond nbytes" "read_avail_iter env ub nbytes"
    "read_avail_loop env ub nbytes" for env ub nbytes
  by unfold_locales (rule read_avail_loop.simps, rule read_avail_loop_induct)

section \<open>The loop invariant\<close>

text \<open>
  \<open>st0\<close> is the state when the call began and \<open>b0\<close> the user buffer then.  The locally
  known write position may be out of date, but then the writer has only added bytes.
\<close>

definition read_inv :: "nat \<Rightarrow> nat \<Rightarrow> nat \<Rightarrow> pipe_st \<Rightarrow> memory \<Rightarrow> read_loc \<Rightarrow> bool" where
  "read_inv n ub nbytes st0 b0 l \<longleftrightarrow>
     pipe_wf n (rd_st l) \<and> same_pipe st0 (rd_st l)
   \<and> rd_read_pos l = unat (sh_read (shm (rd_st l))) \<and> rd_write_pos l < n
   \<and> ring_count n (rd_read_pos l) (rd_write_pos l) \<le> length (in_transit (shm (rd_st l)))
   \<and> length (in_transit (shm st0)) \<le> rd_current_buf l + ring_count n (rd_read_pos l) (rd_write_pos l)
   \<and> rd_current_buf l \<le> nbytes \<and> nbytes \<le> length (rd_buf l)
   \<and> rd_current_buf l < rd_gran_max_buf l
   \<and> (rd_is_aligned l \<longrightarrow> 8 dvd ub + rd_current_buf l
        \<and> 8 dvd buffer_addr (priv (rd_st l)) + rd_read_pos l)
   \<and> reader_flow (take (rd_current_buf l) (rd_buf l)) st0 (rd_st l)
   \<and> length (rd_buf l) = length b0
   \<and> drop (rd_current_buf l) (rd_buf l) = drop (rd_current_buf l) b0"

lemma read_inv_start:
  assumes env: "env_writer n env" and wf: "pipe_wf n st" and "nbytes \<le> length buf"
  shows "read_inv n ub nbytes st buf (read_avail_start env buf st)"
proof -
  note sw = pipe_wf_shared [OF wf]
  let ?s1 = "observe env st" and ?s2 = "observe env (observe env st)"
  have p1: "reader_passive n st ?s1" by (rule reader_passive_observe [OF env sw])
  then have "shared_wf n (shm ?s1)" by (simp add: reader_passive_def)
  from reader_passive_observe [OF env this] have p2: "reader_passive n ?s1 ?s2" .
  have wpos: "ring_count n (unat (sh_read (shm st))) (unat (sh_write (shm ?s1)))
      = length (in_transit (shm ?s1))" "unat (sh_write (shm ?s1)) < n"
    using p1 by (auto simp: reader_passive_def shared_wf_def length_in_transit)
  have "length (in_transit (shm st)) \<le> length (in_transit (shm ?s1))"
    "length (in_transit (shm ?s1)) \<le> length (in_transit (shm ?s2))"
    "reader_flow [] st ?s2"
    using p1 p2 reader_passive_trans [OF p1 p2] by (auto simp: reader_passive_def dest: reader_flow_length)
  moreover have "pipe_wf n ?s2" "same_pipe st ?s2" "sh_read (shm ?s2) = sh_read (shm st)"
    using reader_passive_trans [OF p1 p2] reader_passive_wf [OF _ wf] by (auto simp: reader_passive_def)
  ultimately show ?thesis
    using wpos assms(3) wf
    by (simp add: read_inv_def read_avail_start_def Let_def pipe_wf_def del: observe_simps(5))
qed

text \<open>The bytes a chunk copies are the first ones in transit.\<close>

lemma read_chunk_bytes:
  assumes "shared_wf n s" "unat (sh_read s) + k \<le> n" "k \<le> length (in_transit s)"
  shows "take k (drop (unat (sh_read s)) (buffer s)) = take k (in_transit s)"
  using assms by (simp add: shared_wf_def in_transit_def take_ring_list ring_list_flat length_in_transit)

text \<open>After the copy of \<open>k\<close> bytes: the effect of the rest of the round.\<close>

lemma read_publish:
  assumes wf: "pipe_wf n st" and p: "reader_passive n st st'"
    and k: "unat (sh_read (shm st)) + k \<le> n" "k \<le> length (in_transit (shm st))"
  defines "r \<equiv> ring_add n (unat (sh_read (shm st))) k"
  defines "st'' \<equiv> st'\<lparr>shm := (shm st')\<lparr>sh_read := of_nat r\<rparr>\<rparr>"
  shows "pipe_wf n st''" "same_pipe st st''" "unat (sh_read (shm st'')) = r" "r < n"
    "reader_flow (take k (in_transit (shm st))) st st''"
    "ring_count n r (unat (sh_write (shm st'))) = length (in_transit (shm st''))"
    "length (in_transit (shm st)) \<le> k + length (in_transit (shm st''))"
proof -
  have wf': "pipe_wf n st'" and sr: "sh_read (shm st') = sh_read (shm st)"
    and pre: "reader_flow [] st st'" and sp: "same_pipe st st'"
    using p reader_passive_wf [OF p wf] by (simp_all add: reader_passive_def)
  have len: "length (in_transit (shm st)) \<le> length (in_transit (shm st'))"
    using reader_flow_length [OF pre] by simp
  have c: "in_transit (shm st'') = drop k (in_transit (shm st'))" "shared_wf n (shm st'')"
    using consume_in_transit [of n "shm st'" k] pipe_wf_shared [OF wf'] wf k len
    unfolding st''_def r_def by (simp_all add: sr pipe_wf_def)
  show "same_pipe st st''" using sp by (simp add: same_pipe_def st''_def)
  then show "pipe_wf n st''" using c(2) wf by (rule same_pipe_wf)
  show r: "r < n" using wf k(1) by (simp add: r_def ring_add_less pipe_wf_def shared_wf_def)
  then show ur: "unat (sh_read (shm st'')) = r"
    using unat_position [OF wf] by (simp add: st''_def)
  have "reader_does (shm st') (shm st'')"
    using c pipe_wf_shared [OF wf'] by (simp add: does_iff [of n] reader_rely_def st''_def suffix_drop)
  then have "acts writer_does reader_does st' st''" by (intro reader_rg.acts_own) (simp_all add: st''_def)
  with pre have "acts writer_does reader_does st st''" by (auto simp: reader_flow_def intro: reader_rg.acts_trans)
  then show "reader_flow (take k (in_transit (shm st))) st st''"
    using c(1) pre k(2) by (auto simp: reader_flow_def st''_def)
  show "ring_count n r (unat (sh_write (shm st'))) = length (in_transit (shm st''))"
    using c(2) ur by (simp add: length_in_transit shared_wf_def st''_def)
  show "length (in_transit (shm st)) \<le> k + length (in_transit (shm st''))"
    using c(1) len k(2) by simp
qed

text \<open>The copy of one chunk out of the occupied cells.\<close>

lemma read_copy_step:
  assumes inv: "read_inv n ub nbytes st0 b0 l" and cond: "read_avail_cond nbytes l"
    and b: "chunk_bound n (rd_read_pos l) (rd_write_pos l) (rd_current_buf l) nbytes
      (rd_gran_max_buf l) = (m, g)"
  obtains k al where
    "chunk_copy (\<lambda>si di. di) ub (buffer_addr (priv (rd_st l))) ub (buffer (shm (rd_st l)))
       (rd_read_pos l) (rd_buf l) (rd_current_buf l) (rd_is_aligned l) m g
     = Some (overwrite (rd_buf l) (rd_current_buf l) (take k (in_transit (shm (rd_st l)))),
         rd_read_pos l + k, rd_current_buf l + k, al)"
    and "0 < k" "rd_current_buf l + k \<le> nbytes" "rd_read_pos l + k \<le> n"
    and "k \<le> length (in_transit (shm (rd_st l)))"
    and "rd_current_buf l + k < rd_gran_max_buf l \<or> g \<or> rd_current_buf l + k = rd_gran_max_buf l"
    and "rd_current_buf l + k \<le> rd_gran_max_buf l"
    and "al \<longrightarrow> 8 dvd ub + (rd_current_buf l + k)
       \<and> 8 dvd buffer_addr (priv (rd_st l)) + (rd_read_pos l + k)"
proof -
  let ?st = "rd_st l" and ?p = "rd_read_pos l" and ?c = "rd_current_buf l"
  have wf: "pipe_wf n ?st" and pos: "?p = unat (sh_read (shm ?st))"
    using inv by (simp_all add: read_inv_def)
  note sw = pipe_wf_shared [OF wf]
  have pn: "?p < n" using sw pos by (simp add: shared_wf_def)
  have bnd: "?c < m" "m \<le> nbytes" "m \<le> rd_gran_max_buf l" "?p + (m - ?c) \<le> n"
    "m - ?c \<le> length (in_transit (shm ?st))"
    using chunk_bound_progress [OF b pn] inv cond by (auto simp: read_inv_def read_avail_cond_def)
  have fr: "copy_frame (\<lambda>si di. di) ub (buffer_addr (priv ?st)) ub ?p ?c (rd_is_aligned l)"
    using inv unfolding copy_frame_def read_inv_def by blast
  obtain k al where cp: "chunk_copy (\<lambda>si di. di) ub (buffer_addr (priv ?st)) ub (buffer (shm ?st)) ?p
        (rd_buf l) ?c (rd_is_aligned l) m g
      = Some (overwrite (rd_buf l) ?c (take k (drop ?p (buffer (shm ?st)))), ?p + k, ?c + k, al)"
    and k: "0 < k" "k \<le> m - ?c" "\<not> g \<longrightarrow> k = m - ?c"
    and al: "al \<longrightarrow> 8 dvd buffer_addr (priv ?st) + (?p + k) \<and> 8 dvd ub + (?c + k)"
    using chunk_copy_correct [OF fr, of m "buffer (shm ?st)" "rd_buf l" g] bnd sw inv
    by (auto simp: shared_wf_def read_inv_def)
  have "take k (drop ?p (buffer (shm ?st))) = take k (in_transit (shm ?st))"
    using read_chunk_bytes [OF sw, of k] k bnd pos by simp
  with cp have cp': "chunk_copy (\<lambda>si di. di) ub (buffer_addr (priv ?st)) ub (buffer (shm ?st)) ?p
        (rd_buf l) ?c (rd_is_aligned l) m g
      = Some (overwrite (rd_buf l) ?c (take k (in_transit (shm ?st))), ?p + k, ?c + k, al)"
    by simp
  show ?thesis
    by (rule that [OF cp' k(1)]) (use k bnd al in auto)
qed

lemma read_iter_step:
  assumes env: "env_writer n env" and inv: "read_inv n ub nbytes st0 b0 l"
    and cond: "read_avail_cond nbytes l"
  shows "\<exists>l'. read_avail_iter env ub nbytes l = Some l' \<and> read_inv n ub nbytes st0 b0 l'
    \<and> nbytes - rd_current_buf l' < nbytes - rd_current_buf l"
proof -
  let ?st = "rd_st l" and ?p = "rd_read_pos l" and ?c = "rd_current_buf l"
  have wf: "pipe_wf n ?st" and pos: "?p = unat (sh_read (shm ?st))"
    using inv by (simp_all add: read_inv_def)
  note sw = pipe_wf_shared [OF wf]
  obtain m g where b: "chunk_bound n ?p (rd_write_pos l) ?c nbytes (rd_gran_max_buf l) = (m, g)"
    by fastforce
  obtain k al where cp: "chunk_copy (\<lambda>si di. di) ub (buffer_addr (priv ?st)) ub (buffer (shm ?st)) ?p
        (rd_buf l) ?c (rd_is_aligned l) m g
      = Some (overwrite (rd_buf l) ?c (take k (in_transit (shm ?st))), ?p + k, ?c + k, al)"
    and k: "0 < k" "?c + k \<le> nbytes" "?p + k \<le> n" "k \<le> length (in_transit (shm ?st))"
    and gr: "?c + k < rd_gran_max_buf l \<or> g \<or> ?c + k = rd_gran_max_buf l" "?c + k \<le> rd_gran_max_buf l"
    and al: "al \<longrightarrow> 8 dvd ub + (?c + k) \<and> 8 dvd buffer_addr (priv ?st) + (?p + k)"
    by (rule read_copy_step [OF inv cond b])
  define st1 where "st1 = (if g \<or> ?c + k = rd_gran_max_buf l
    then signal_if_sleeping env writer_flags ?st else ?st)"
  define gran where "gran = (if g \<or> ?c + k = rd_gran_max_buf l
    then rd_gran_max_buf l + nat (wait_check_interval (priv ?st)) else rd_gran_max_buf l)"
  have p1: "reader_passive n ?st st1"
    using reader_passive_signal [OF env sw] sw by (simp add: st1_def reader_passive_def)
  then have "shared_wf n (shm st1)" by (simp add: reader_passive_def)
  from reader_passive_trans [OF p1 reader_passive_observe [OF env this]]
  have p2: "reader_passive n ?st (observe env st1)" .
  note pub = read_publish [OF wf p2, of k, folded pos, OF k(3,4)]
  let ?r = "ring_add n ?p k" and ?st2 = "observe env st1"
  let ?st3 = "?st2\<lparr>shm := (shm ?st2)\<lparr>sh_read := of_nat (ring_add n ?p k)\<rparr>\<rparr>"
  define l' where "l' = \<lparr>rd_buf = overwrite (rd_buf l) ?c (take k (in_transit (shm ?st))),
    rd_current_buf = ?c + k, rd_read_pos = ?r, rd_write_pos = unat (sh_write (shm ?st2)),
    rd_gran_max_buf = gran, rd_is_aligned = al, rd_st = ?st3\<rparr>"
  have step: "read_avail_iter env ub nbytes l = Some l'"
    using cp b pipe_wf_size [OF wf]
    by (simp add: read_avail_iter_def Let_def l'_def st1_def gran_def ring_add_def split_beta
        del: observe_simps(5))
  have "?c + k < gran"
    using gr wf unfolding gran_def by (auto simp: pipe_wf_def)
  moreover have "al \<longrightarrow> 8 dvd ub + (?c + k) \<and> 8 dvd buffer_addr (priv ?st3) + ?r"
    using al pipe_wf_addr [OF wf] same_pipe_buffer_addr [OF pub(2)] by (simp add: ring_add_def)
  moreover have "drop (?c + k) (overwrite (rd_buf l) ?c (take k (in_transit (shm ?st)))) = drop (?c + k) b0"
    using drop_overwrite_eq [of ?c "rd_buf l" b0 "take k (in_transit (shm ?st))"] k inv
    by (simp add: read_inv_def)
  moreover have "reader_flow (take (?c + k) (overwrite (rd_buf l) ?c (take k (in_transit (shm ?st))))) st0 ?st3"
    using reader_flow_trans [OF _ pub(5), of "take ?c (rd_buf l)" st0] k inv
      take_overwrite [of ?c "take k (in_transit (shm ?st))" "rd_buf l"]
    by (simp add: read_inv_def)
  moreover have "length (in_transit (shm st0)) \<le> ?c + k + ring_count n ?r (unat (sh_write (shm ?st2)))"
    using inv pub(6,7) by (simp add: read_inv_def del: observe_simps(5))
  moreover have "unat (sh_write (shm ?st2)) < n" "same_pipe st0 ?st3"
    using p2 pub(2) inv by (auto simp: reader_passive_def shared_wf_def read_inv_def intro: same_pipe_trans)
  ultimately have "read_inv n ub nbytes st0 b0 l'"
    using pub(1,3,6) k inv by (simp add: read_inv_def l'_def del: observe_simps(5))
  then show ?thesis
    using step k(1,2) by (intro exI [of _ l']) (simp add: l'_def)
qed

section \<open>Total correctness\<close>

lemma read_avail_total:
  assumes env: "env_writer n env" and wf: "pipe_wf n st" and "nbytes \<le> length buf"
  obtains k buf' st' where "xen_shm_pipe_read_avail env ub buf nbytes st = Some (k, buf', st')"
    and "k \<le> nbytes" "length buf' = length buf" "drop k buf' = drop k buf"
    and "reader_flow (take k buf') st st'"
    and "k = nbytes \<or> length (in_transit (shm st)) \<le> k"
    and "pipe_wf n st'" "same_pipe st st'"
proof -
  let ?q = "in_transit (shm st)"
  obtain l where l: "read_avail_loop env ub nbytes (read_avail_start env buf st) = Some l"
    and inv: "read_inv n ub nbytes st buf l" and stop: "\<not> read_avail_cond nbytes l"
    using rd.loop_total [where I = "read_inv n ub nbytes st buf"
        and m = "\<lambda>l. nbytes - rd_current_buf l", OF read_iter_step [OF env] read_inv_start [OF assms]]
    by blast
  let ?st' = "signal_if_sleeping env writer_flags (rd_st l)"
  have wfl: "pipe_wf n (rd_st l)" using inv by (simp add: read_inv_def)
  have p: "reader_passive n (rd_st l) ?st'"
    by (rule reader_passive_signal [OF env pipe_wf_shared [OF wfl]])
  show ?thesis
  proof (rule that)
    show "xen_shm_pipe_read_avail env ub buf nbytes st = Some (rd_current_buf l, rd_buf l, ?st')"
      using l by (simp add: xen_shm_pipe_read_avail_def)
    show "reader_flow (take (rd_current_buf l) (rd_buf l)) st ?st'"
      using inv p reader_flow_trans [of "take (rd_current_buf l) (rd_buf l)" st "rd_st l" "[]" ?st']
      by (simp add: read_inv_def reader_passive_def)
    show "rd_current_buf l = nbytes \<or> length ?q \<le> rd_current_buf l"
      using inv stop by (auto simp: read_inv_def read_avail_cond_def)
  qed (use inv reader_passive_wf [OF p wfl] p in
      \<open>auto simp: read_inv_def reader_passive_def intro: same_pipe_trans\<close>)
qed

text \<open>C4.  \<^verbatim>\<open>__xen_shm_pipe_read_avail\<close> beside a writer that goes on writing: the call ends without
  an access out of bounds, it returns a count of at most \<open>nbytes\<close>, the bytes it put at the start of
  the user buffer followed by those still in transit are the bytes that were in transit followed by
  those that arrived meanwhile, the rest of the user buffer is untouched, and it stops short of
  \<open>nbytes\<close> only after all the bytes that were there at the start.\<close>

theorem read_avail_delivers:
  assumes "env_writer n env" "pipe_wf n st" "nbytes \<le> length buf"
  shows "\<exists>k buf' st'. xen_shm_pipe_read_avail env ub buf nbytes st = Some (k, buf', st')
    \<and> k \<le> nbytes \<and> reader_flow (take k buf') st st' \<and> length buf' = length buf
    \<and> drop k buf' = drop k buf \<and> (k = nbytes \<or> length (in_transit (shm st)) \<le> k) \<and> pipe_wf n st'"
  by (rule read_avail_total [OF assms]) blast

theorem read_avail_delivers_witness:
  "\<exists>k buf' st'. xen_shm_pipe_read_avail (quiet_env epipe_answer) 0 [0, 0, 0, 0] 4
        (small_end xen_shm_pipe_mod_read small_area) = Some (k, buf', st')
    \<and> k \<le> 4 \<and> reader_flow (take k buf') (small_end xen_shm_pipe_mod_read small_area) st'
    \<and> length buf' = length [0, 0, 0, 0 :: byte] \<and> drop k buf' = drop k [0, 0, 0, 0]
    \<and> (k = 4 \<or> length (in_transit (shm (small_end xen_shm_pipe_mod_read small_area))) \<le> k)
    \<and> pipe_wf 8 st'"
  by (rule read_avail_delivers) (simp_all add: small_end_wf small_area_wf)

end
