(* ===== verification/Pipe_Write.thy ===== *)
theory Pipe_Write
  imports Pipe_Copy
begin

text \<open>
  \<^verbatim>\<open>__xen_shm_pipe_write_avail\<close>: copy from the user buffer what fits into the circular
  buffer, chunk by chunk, publishing the write position after each chunk, while the reader
  goes on reading.  The writer stops one cell before the read position, so a full buffer is
  never taken for an empty one.
\<close>

section \<open>Definitions\<close>

record write_loc =
  wr_current_buf :: nat
  wr_write_pos :: nat
  wr_read_pos_reduced :: nat
  wr_gran_max_buf :: nat
  wr_is_aligned :: bool
  wr_st :: pipe_st

definition read_pos_reduced :: "nat \<Rightarrow> nat \<Rightarrow> nat" where
  "read_pos_reduced bsize read_pos = (if read_pos = 0 then bsize - 1 else read_pos - 1)"

definition write_avail_start :: "pipe_env \<Rightarrow> pipe_st \<Rightarrow> write_loc" where
  "write_avail_start env st =
    (let st = observe env st;
         reduced = read_pos_reduced (unat (buffer_size (priv st))) (unat (sh_read (shm st)));
         write_pos = unat (sh_write (shm st));
         st = observe env st;
         gran_max_buf =
           (if flag_set (reader_flags (shm st)) XSHMP_SLEEPING then XEN_SHM_PIPE_FAST_CHECK_INTERVAL
            else nat (wait_check_interval (priv st)))
     in \<lparr>wr_current_buf = 0, wr_write_pos = write_pos, wr_read_pos_reduced = reduced,
         wr_gran_max_buf = gran_max_buf, wr_is_aligned = False, wr_st = st\<rparr>)"

definition write_avail_cond :: "nat \<Rightarrow> write_loc \<Rightarrow> bool" where
  "write_avail_cond nbytes l \<longleftrightarrow>
    wr_write_pos l \<noteq> wr_read_pos_reduced l \<and> wr_current_buf l \<noteq> nbytes"

definition write_avail_iter ::
  "pipe_env \<Rightarrow> nat \<Rightarrow> memory \<Rightarrow> nat \<Rightarrow> write_loc \<Rightarrow> write_loc option" where
  "write_avail_iter env ub buf nbytes l =
    (let st = wr_st l;
         bsize = unat (buffer_size (priv st));
         (min_max_buf, gran_check) =
           chunk_bound bsize (wr_write_pos l) (wr_read_pos_reduced l) (wr_current_buf l) nbytes
             (wr_gran_max_buf l)
     in do {
       (ring, current_buf, write_pos, is_aligned) \<leftarrow>
         chunk_copy (\<lambda>si di. si) ub ub (buffer_addr (priv st)) buf (wr_current_buf l)
           (buffer (shm st)) (wr_write_pos l) (wr_is_aligned l) min_max_buf gran_check;
       let st = st\<lparr>shm := (shm st)\<lparr>buffer := ring\<rparr>\<rparr>;
       let (st, gran_max_buf) =
         (if gran_check \<or> current_buf = wr_gran_max_buf l
          then (signal_if_sleeping env reader_flags st,
                wr_gran_max_buf l + nat (wait_check_interval (priv st)))
          else (st, wr_gran_max_buf l));
       let write_pos = (if write_pos = bsize then 0 else write_pos);
       let st = observe env st;
       let reduced = read_pos_reduced bsize (unat (sh_read (shm st)));
       let st = st\<lparr>shm := (shm st)\<lparr>sh_write := of_nat write_pos\<rparr>\<rparr>;
       Some \<lparr>wr_current_buf = current_buf, wr_write_pos = write_pos, wr_read_pos_reduced = reduced,
             wr_gran_max_buf = gran_max_buf, wr_is_aligned = is_aligned, wr_st = st\<rparr>
     })"

partial_function (option) write_avail_loop ::
  "pipe_env \<Rightarrow> nat \<Rightarrow> memory \<Rightarrow> nat \<Rightarrow> write_loc \<Rightarrow> write_loc option" where
  "write_avail_loop env ub buf nbytes l =
    (if write_avail_cond nbytes l
     then Option.bind (write_avail_iter env ub buf nbytes l) (write_avail_loop env ub buf nbytes)
     else Some l)"

definition xen_shm_pipe_write_avail ::
  "pipe_env \<Rightarrow> nat \<Rightarrow> memory \<Rightarrow> nat \<Rightarrow> pipe_st \<Rightarrow> (nat \<times> pipe_st) option" where
  "xen_shm_pipe_write_avail env ub buf nbytes st =
    do {
      l \<leftarrow> write_avail_loop env ub buf nbytes (write_avail_start env st);
      let st = signal_if_sleeping env reader_flags (wr_st l);
      Some (wr_current_buf l, st)
    }"

lemma write_avail_loop_induct:
  assumes "write_avail_loop env ub buf nbytes s = Some t" "\<And>s. \<not> write_avail_cond nbytes s \<Longrightarrow> P s s"
    and "\<And>s u t. write_avail_cond nbytes s \<Longrightarrow> write_avail_iter env ub buf nbytes s = Some u \<Longrightarrow> P u t \<Longrightarrow> P s t"
  shows "P s t"
proof -
  let ?P = "\<lambda>env' ub' buf' nbytes' s t. env' = env \<longrightarrow> ub' = ub \<longrightarrow> buf' = buf \<longrightarrow> nbytes' = nbytes \<longrightarrow> P s t"
  have "?P env ub buf nbytes s t"
    by (rule write_avail_loop.raw_induct [where P = ?P, OF _ assms(1)])
      (auto intro: assms(2,3) simp: bind_eq_Some_conv split: if_splits)
  then show ?thesis by blast
qed

interpretation wr: option_loop "write_avail_cond nbytes" "write_avail_iter env ub buf nbytes"
    "write_avail_loop env ub buf nbytes" for env ub buf nbytes
  by unfold_locales (rule write_avail_loop.simps, rule write_avail_loop_induct)

section \<open>The loop invariant\<close>

lemma read_pos_reduced_pred: "read_pos_reduced = ring_pred"
  by (simp add: fun_eq_iff read_pos_reduced_def ring_pred_def)

text \<open>
  \<open>st0\<close> is the state when the call began.  The locally known free space may be out of
  date, but then the reader has only freed more cells.
\<close>

definition write_inv :: "nat \<Rightarrow> nat \<Rightarrow> memory \<Rightarrow> nat \<Rightarrow> pipe_st \<Rightarrow> write_loc \<Rightarrow> bool" where
  "write_inv n ub buf nbytes st0 l \<longleftrightarrow>
     pipe_wf n (wr_st l) \<and> same_pipe st0 (wr_st l)
   \<and> wr_write_pos l = unat (sh_write (shm (wr_st l))) \<and> wr_read_pos_reduced l < n
   \<and> ring_count n (wr_write_pos l) (wr_read_pos_reduced l) + length (in_transit (shm (wr_st l))) < n
   \<and> n \<le> 1 + length (in_transit (shm st0)) + wr_current_buf l + ring_count n (wr_write_pos l) (wr_read_pos_reduced l)
   \<and> wr_current_buf l \<le> nbytes \<and> nbytes \<le> length buf
   \<and> wr_current_buf l < wr_gran_max_buf l
   \<and> (wr_is_aligned l \<longrightarrow> 8 dvd ub + wr_current_buf l
        \<and> 8 dvd buffer_addr (priv (wr_st l)) + wr_write_pos l)
   \<and> writer_flow (take (wr_current_buf l) buf) st0 (wr_st l)"

text \<open>The free space the writer computes from the read position it sees.\<close>

lemma free_space:
  assumes "shared_wf n s"
  shows "ring_count n (unat (sh_write s)) (ring_pred n (unat (sh_read s))) = n - 1 - length (in_transit s)"
  using assms ring_count_pred [of "unat (sh_read s)" n "unat (sh_write s)"]
  by (simp add: shared_wf_def length_in_transit)

lemma write_inv_start:
  assumes env: "env_reader n env" and wf: "pipe_wf n st" and "nbytes \<le> length buf"
  shows "write_inv n ub buf nbytes st (write_avail_start env st)"
proof -
  note sw = pipe_wf_shared [OF wf]
  let ?s1 = "observe env st" and ?s2 = "observe env (observe env st)"
  have p1: "writer_passive n st ?s1" by (rule writer_passive_observe [OF env sw])
  then have sw1: "shared_wf n (shm ?s1)" by (simp add: writer_passive_def)
  from writer_passive_observe [OF env this] have p2: "writer_passive n ?s1 ?s2" .
  note p = writer_passive_trans [OF p1 p2]
  have "length (in_transit (shm ?s1)) \<le> length (in_transit (shm st))"
    "length (in_transit (shm ?s2)) \<le> length (in_transit (shm ?s1))"
    "writer_flow [] st ?s2"
    using p1 p2 p by (auto simp: writer_passive_def dest: writer_flow_length)
  moreover have "ring_pred n (unat (sh_read (shm ?s1))) < n" "length (in_transit (shm ?s1)) < n"
    using sw1 in_transit_bound [OF sw1] by (auto simp: shared_wf_def intro: ring_pred_less)
  moreover have "pipe_wf n ?s2" "same_pipe st ?s2" "sh_write (shm ?s2) = sh_write (shm ?s1)"
    "unat (buffer_size (priv st)) = n"
    using p p2 writer_passive_wf [OF p wf] pipe_wf_size [OF wf] by (auto simp: writer_passive_def)
  ultimately show ?thesis
    using assms(3) wf free_space [OF sw1]
    by (auto simp: write_inv_def write_avail_start_def Let_def pipe_wf_def read_pos_reduced_pred
        simp del: observe_simps(5))
qed

text \<open>The copy of one chunk into the free cells.\<close>

lemma write_copy_step:
  assumes inv: "write_inv n ub buf nbytes st0 l" and cond: "write_avail_cond nbytes l"
    and b: "chunk_bound n (wr_write_pos l) (wr_read_pos_reduced l) (wr_current_buf l) nbytes
      (wr_gran_max_buf l) = (m, g)"
  obtains k al where
    "chunk_copy (\<lambda>si di. si) ub ub (buffer_addr (priv (wr_st l))) buf (wr_current_buf l)
       (buffer (shm (wr_st l))) (wr_write_pos l) (wr_is_aligned l) m g
     = Some (overwrite (buffer (shm (wr_st l))) (wr_write_pos l) (take k (drop (wr_current_buf l) buf)),
         wr_current_buf l + k, wr_write_pos l + k, al)"
    and "0 < k" "wr_current_buf l + k \<le> nbytes" "wr_write_pos l + k \<le> n"
    and "length (in_transit (shm (wr_st l))) + k < n"
    and "wr_current_buf l + k < wr_gran_max_buf l \<or> g \<or> wr_current_buf l + k = wr_gran_max_buf l"
    and "wr_current_buf l + k \<le> wr_gran_max_buf l"
    and "al \<longrightarrow> 8 dvd ub + (wr_current_buf l + k)
       \<and> 8 dvd buffer_addr (priv (wr_st l)) + (wr_write_pos l + k)"
proof -
  let ?st = "wr_st l" and ?p = "wr_write_pos l" and ?c = "wr_current_buf l"
  have wf: "pipe_wf n ?st" and pos: "?p = unat (sh_write (shm ?st))"
    using inv by (simp_all add: write_inv_def)
  note sw = pipe_wf_shared [OF wf]
  have pn: "?p < n" using sw pos by (simp add: shared_wf_def)
  have bnd: "?c < m" "m \<le> nbytes" "m \<le> wr_gran_max_buf l" "?p + (m - ?c) \<le> n"
    "length (in_transit (shm ?st)) + (m - ?c) < n"
    using chunk_bound_progress [OF b pn] inv cond by (auto simp: write_inv_def write_avail_cond_def)
  have fr: "copy_frame (\<lambda>si di. si) ub ub (buffer_addr (priv ?st)) ?c ?p (wr_is_aligned l)"
    using inv unfolding copy_frame_def write_inv_def by blast
  obtain k al where cp: "chunk_copy (\<lambda>si di. si) ub ub (buffer_addr (priv ?st)) buf ?c
        (buffer (shm ?st)) ?p (wr_is_aligned l) m g
      = Some (overwrite (buffer (shm ?st)) ?p (take k (drop ?c buf)), ?c + k, ?p + k, al)"
    and k: "0 < k" "k \<le> m - ?c" "\<not> g \<longrightarrow> k = m - ?c"
    and al: "al \<longrightarrow> 8 dvd ub + (?c + k) \<and> 8 dvd buffer_addr (priv ?st) + (?p + k)"
    using chunk_copy_correct [OF fr, of m buf "buffer (shm ?st)" g] bnd sw inv
    by (auto simp: shared_wf_def write_inv_def)
  show ?thesis
    by (rule that [OF cp k(1) _ _ _ _ _ al]) (use k bnd in auto)
qed

text \<open>The bytes copied into free cells are published by moving the write position, whatever the
  reader consumed in the meantime.\<close>

lemma write_publish:
  assumes wf: "pipe_wf n st" and xs: "unat (sh_write (shm st)) + length xs \<le> n"
    "length (in_transit (shm st)) + length xs < n"
  defines "st1 \<equiv> st\<lparr>shm := (shm st)\<lparr>buffer := overwrite (buffer (shm st)) (unat (sh_write (shm st))) xs\<rparr>\<rparr>"
  defines "w \<equiv> ring_add n (unat (sh_write (shm st))) (length xs)"
  assumes p: "writer_passive n st1 st2"
  defines "st3 \<equiv> st2\<lparr>shm := (shm st2)\<lparr>sh_write := of_nat w\<rparr>\<rparr>"
  shows "pipe_wf n st3" "same_pipe st st3" "unat (sh_write (shm st3)) = w" "w < n"
    "writer_flow xs st st3"
    "ring_count n w (ring_pred n (unat (sh_read (shm st2)))) = n - 1 - length (in_transit (shm st3))"
    "ring_pred n (unat (sh_read (shm st2))) < n"
proof -
  note fill = fill_in_transit [OF pipe_wf_shared [OF wf] xs]
  have sp1: "same_pipe st st1" by (simp add: same_pipe_def st1_def)
  have "open_writer_does (shm st) (shm st1)"
    using fill pipe_wf_shared [OF wf] by (simp add: open_writer_does_def does_iff [of n] writer_rely_def st1_def)
  then have fl1: "writer_flow [] st st1"
    using fill(1) writer_rg.acts_own [of st1 st] by (simp add: writer_flow_def st1_def)
  have s2: "shared_wf n (shm st2)" "sh_write (shm st2) = sh_write (shm st)"
    "buffer (shm st2) = buffer (shm st1)" "writer_flow [] st st2"
    "same_pipe st st2"
    using p fl1 writer_flow_trans [of "[]" st st1 "[]" st2] same_pipe_trans [OF sp1]
    by (simp_all add: writer_passive_def st1_def)
  have len: "length (in_transit (shm st2)) + length xs < n"
    using xs(2) writer_flow_length [OF s2(4)] by simp
  have c: "in_transit (shm st3) = in_transit (shm st2) @ xs" "shared_wf n (shm st3)"
    using produce_in_transit [of n "shm st2" xs] s2 fill(3) wf xs len
    unfolding st3_def w_def by (simp_all add: st1_def pipe_wf_def)
  show "same_pipe st st3" using s2(5) by (simp add: same_pipe_def st3_def)
  then show wf3: "pipe_wf n st3" using c(2) wf by (rule same_pipe_wf)
  show w: "w < n" using wf xs(1) by (simp add: w_def ring_add_less pipe_wf_def shared_wf_def)
  then show uw: "unat (sh_write (shm st3)) = w"
    using unat_position [OF wf] by (simp add: st3_def)
  have "open_writer_does (shm st2) (shm st3)"
    using c s2(1) by (simp add: open_writer_does_def does_iff [of n] writer_rely_def st3_def)
  then have "acts reader_does open_writer_does st2 st3" by (intro writer_rg.acts_own) (simp_all add: st3_def)
  with s2(4) have "acts reader_does open_writer_does st st3"
    by (auto simp: writer_flow_def intro: writer_rg.acts_trans)
  then show "writer_flow xs st st3"
    using c(1) s2(4) by (auto simp: writer_flow_def st3_def)
  show "ring_count n w (ring_pred n (unat (sh_read (shm st2)))) = n - 1 - length (in_transit (shm st3))"
    using free_space [OF c(2)] uw by (simp add: st3_def)
  show "ring_pred n (unat (sh_read (shm st2))) < n"
    using s2(1) by (simp add: shared_wf_def ring_pred_less)
qed

lemma write_iter_step:
  assumes env: "env_reader n env" and inv: "write_inv n ub buf nbytes st0 l"
    and cond: "write_avail_cond nbytes l"
  shows "\<exists>l'. write_avail_iter env ub buf nbytes l = Some l' \<and> write_inv n ub buf nbytes st0 l'
    \<and> nbytes - wr_current_buf l' < nbytes - wr_current_buf l"
proof -
  let ?st = "wr_st l" and ?p = "wr_write_pos l" and ?c = "wr_current_buf l"
  have wf: "pipe_wf n ?st" and pos: "?p = unat (sh_write (shm ?st))"
    using inv by (simp_all add: write_inv_def)
  obtain m g where b: "chunk_bound n ?p (wr_read_pos_reduced l) ?c nbytes (wr_gran_max_buf l) = (m, g)"
    by fastforce
  obtain k al where cp: "chunk_copy (\<lambda>si di. si) ub ub (buffer_addr (priv ?st)) buf ?c
        (buffer (shm ?st)) ?p (wr_is_aligned l) m g
      = Some (overwrite (buffer (shm ?st)) ?p (take k (drop ?c buf)), ?c + k, ?p + k, al)"
    and k: "0 < k" "?c + k \<le> nbytes" "?p + k \<le> n" "length (in_transit (shm ?st)) + k < n"
    and gr: "?c + k < wr_gran_max_buf l \<or> g \<or> ?c + k = wr_gran_max_buf l" "?c + k \<le> wr_gran_max_buf l"
    and al: "al \<longrightarrow> 8 dvd ub + (?c + k) \<and> 8 dvd buffer_addr (priv ?st) + (?p + k)"
    by (rule write_copy_step [OF inv cond b])
  define xs where "xs = take k (drop ?c buf)"
  have xs: "length xs = k" "take (?c + k) buf = take ?c buf @ xs"
    using k(2) inv by (auto simp: xs_def write_inv_def take_add)
  define st1 where "st1 = ?st\<lparr>shm := (shm ?st)\<lparr>buffer := overwrite (buffer (shm ?st)) ?p xs\<rparr>\<rparr>"
  have sw1: "shared_wf n (shm st1)"
    using fill_in_transit(2) [OF pipe_wf_shared [OF wf], of xs] k xs(1) pos by (simp add: st1_def)
  define st2 where "st2 = (if g \<or> ?c + k = wr_gran_max_buf l
    then signal_if_sleeping env reader_flags st1 else st1)"
  define gran where "gran = (if g \<or> ?c + k = wr_gran_max_buf l
    then wr_gran_max_buf l + nat (wait_check_interval (priv ?st)) else wr_gran_max_buf l)"
  have p1: "writer_passive n st1 st2"
    using writer_passive_signal [OF env sw1] sw1 by (simp add: st2_def writer_passive_def)
  then have "shared_wf n (shm st2)" by (simp add: writer_passive_def)
  from writer_passive_trans [OF p1 writer_passive_observe [OF env this]]
  have p2: "writer_passive n st1 (observe env st2)" .
  let ?st3 = "observe env st2" and ?w = "ring_add n ?p k"
  let ?st4 = "?st3\<lparr>shm := (shm ?st3)\<lparr>sh_write := of_nat ?w\<rparr>\<rparr>"
  note pub = write_publish [OF wf, of xs ?st3, folded pos, folded st1_def, unfolded xs(1), OF k(3,4) p2]
  define l' where "l' = \<lparr>wr_current_buf = ?c + k, wr_write_pos = ?w,
    wr_read_pos_reduced = ring_pred n (unat (sh_read (shm ?st3))), wr_gran_max_buf = gran,
    wr_is_aligned = al, wr_st = ?st4\<rparr>"
  have step: "write_avail_iter env ub buf nbytes l = Some l'"
    using cp b pipe_wf_size [OF wf]
    by (simp add: write_avail_iter_def Let_def l'_def st2_def st1_def xs_def gran_def ring_add_def
        split_beta read_pos_reduced_pred del: observe_simps(5))
  have "?c + k < gran"
    using gr wf unfolding gran_def by (auto simp: pipe_wf_def)
  moreover have "al \<longrightarrow> 8 dvd ub + (?c + k) \<and> 8 dvd buffer_addr (priv ?st4) + ?w"
    using al pipe_wf_addr [OF wf] same_pipe_buffer_addr [OF pub(2)] by (simp add: ring_add_def)
  moreover have flow: "writer_flow (take (?c + k) buf) st0 ?st4"
    using writer_flow_trans [OF _ pub(5), of "take ?c buf" st0] inv xs(2) by (simp add: write_inv_def)
  moreover have "n \<le> 1 + length (in_transit (shm st0)) + (?c + k) + (n - 1 - length (in_transit (shm ?st4)))"
    "length (in_transit (shm ?st4)) < n"
    using writer_flow_length [OF flow] in_transit_bound [OF pipe_wf_shared [OF pub(1)]]
    by (simp_all del: observe_simps(5))
  ultimately have "write_inv n ub buf nbytes st0 l'"
    using pub(1,2,3,6,7) k(2) inv same_pipe_trans
    by (auto simp add: write_inv_def l'_def simp del: observe_simps(5))
  then show ?thesis
    using step k(1,2) by (intro exI [of _ l']) (simp add: l'_def)
qed

section \<open>Total correctness\<close>

lemma write_avail_total:
  assumes env: "env_reader n env" and wf: "pipe_wf n st" and "nbytes \<le> length buf"
  obtains k st' where "xen_shm_pipe_write_avail env ub buf nbytes st = Some (k, st')"
    and "k \<le> nbytes"
    and "writer_flow (take k buf) st st'"
    and "k = nbytes \<or> n \<le> 1 + length (in_transit (shm st)) + k"
    and "pipe_wf n st'" "same_pipe st st'"
proof -
  let ?q = "in_transit (shm st)"
  obtain l where l: "write_avail_loop env ub buf nbytes (write_avail_start env st) = Some l"
    and inv: "write_inv n ub buf nbytes st l" and stop: "\<not> write_avail_cond nbytes l"
    using wr.loop_total [where I = "write_inv n ub buf nbytes st"
        and m = "\<lambda>l. nbytes - wr_current_buf l", OF write_iter_step [OF env] write_inv_start [OF assms]]
    by blast
  let ?st' = "signal_if_sleeping env reader_flags (wr_st l)"
  have wfl: "pipe_wf n (wr_st l)" using inv by (simp add: write_inv_def)
  have p: "writer_passive n (wr_st l) ?st'"
    by (rule writer_passive_signal [OF env pipe_wf_shared [OF wfl]])
  show ?thesis
  proof (rule that)
    show "xen_shm_pipe_write_avail env ub buf nbytes st = Some (wr_current_buf l, ?st')"
      using l by (simp add: xen_shm_pipe_write_avail_def)
    show "writer_flow (take (wr_current_buf l) buf) st ?st'"
      using inv p writer_flow_trans [of "take (wr_current_buf l) buf" st "wr_st l" "[]" ?st']
      by (simp add: write_inv_def writer_passive_def)
    show "wr_current_buf l = nbytes \<or> n \<le> 1 + length ?q + wr_current_buf l"
      using inv stop by (auto simp: write_inv_def write_avail_cond_def)
  qed (use inv writer_passive_wf [OF p wfl] p in
      \<open>auto simp: write_inv_def writer_passive_def intro: same_pipe_trans\<close>)
qed

text \<open>C5.  \<^verbatim>\<open>__xen_shm_pipe_write_avail\<close> beside a reader that goes on reading: the call ends without
  an access out of bounds, it returns a count of at most \<open>nbytes\<close>, what was in transit followed by
  that many bytes of the user buffer is what the reader took meanwhile followed by what is in
  transit now, so that no byte in transit is overwritten, and it stops short of \<open>nbytes\<close> only
  when the buffer it found is full.\<close>

theorem write_avail_delivers:
  assumes "env_reader n env" "pipe_wf n st" "nbytes \<le> length buf"
  shows "\<exists>k st'. xen_shm_pipe_write_avail env ub buf nbytes st = Some (k, st')
    \<and> k \<le> nbytes \<and> writer_flow (take k buf) st st'
    \<and> (k = nbytes \<or> n \<le> 1 + length (in_transit (shm st)) + k) \<and> pipe_wf n st'"
  by (rule write_avail_total [OF assms]) blast

theorem write_avail_delivers_witness:
  "\<exists>k st'. xen_shm_pipe_write_avail (quiet_env epipe_answer) 0 [1, 2, 3, 4, 5, 6] 6
        (small_end xen_shm_pipe_mod_write small_area) = Some (k, st')
    \<and> k \<le> 6 \<and> writer_flow (take k [1, 2, 3, 4, 5, 6]) (small_end xen_shm_pipe_mod_write small_area) st'
    \<and> (k = 6 \<or> 8 \<le> 1 + length (in_transit (shm (small_end xen_shm_pipe_mod_write small_area))) + k)
    \<and> pipe_wf 8 st'"
  by (rule write_avail_delivers) (simp_all add: small_end_wf small_area_wf)

end
