(* ===== verification/Pipe_Wait.thy ===== *)
theory Pipe_Wait
  imports Pipe_Types "HOL-Library.Monad_Syntax"
begin

text \<open>
  \<^verbatim>\<open>__xen_shm_pipe_wait_reader\<close> and \<^verbatim>\<open>__xen_shm_pipe_wait_writer\<close>: wait until there is a byte to
  read (room for a byte to write), actively while the peer is running or waiting itself, and
  else by sleeping in the device.  A round of the loop, from the evaluation of the
  \<^verbatim>\<open>while\<close> condition on, is one function; how it ends is a \<open>wait_ctl\<close>: \<open>Wret r\<close> for
  \<^verbatim>\<open>return r\<close>, \<open>Wexit\<close> for leaving the loop, \<open>Wnext\<close> for another round.
\<close>

section \<open>Definitions\<close>

datatype wait_ctl = Wret int | Wexit | Wnext

record wait_loc =
  loop_count :: u32
  active_count :: u32
  unset_wait :: bool
  wait_st :: pipe_st

definition wait_start :: "pipe_st \<Rightarrow> wait_loc" where
  "wait_start st = \<lparr>loop_count = XEN_SHM_PIPE_WAIT_LOOP_LIMIT,
     active_count = XEN_SHM_PIPE_WAIT_LOOP_ACTIVE_MAX, unset_wait = False, wait_st = st\<rparr>"

text \<open>Updates of the flag words of the shared area.\<close>

definition upd_reader_flags :: "(u32 \<Rightarrow> u32) \<Rightarrow> pipe_st \<Rightarrow> pipe_st" where
  "upd_reader_flags f st = st\<lparr>shm := (shm st)\<lparr>reader_flags := f (reader_flags (shm st))\<rparr>\<rparr>"

definition upd_writer_flags :: "(u32 \<Rightarrow> u32) \<Rightarrow> pipe_st \<Rightarrow> pipe_st" where
  "upd_writer_flags f st = st\<lparr>shm := (shm st)\<lparr>writer_flags := f (writer_flags (shm st))\<rparr>\<rparr>"

definition set_saw_epipe :: "pipe_st \<Rightarrow> pipe_st" where
  "set_saw_epipe st = st\<lparr>priv := (priv st)\<lparr>saw_epipe := 1\<rparr>\<rparr>"

text \<open>The check for a broken pipe every \<^verbatim>\<open>XEN_SHM_PIPE_WAIT_LOOP_LIMIT\<close> rounds: \<open>True\<close> when the
  pipe is broken and the function has to return.\<close>

definition wait_limit_check :: "pipe_env \<Rightarrow> wait_loc \<Rightarrow> bool \<times> wait_loc" where
  "wait_limit_check env l =
    (if loop_count l = 0
     then (let (r, st) = xen_shm_pipe_prone_for_epipe env (wait_st l)
           in if r < 0 then (True, l\<lparr>wait_st := st\<lparr>errno := EPIPE\<rparr>\<rparr>)
              else (False, l\<lparr>loop_count := XEN_SHM_PIPE_WAIT_LOOP_LIMIT, wait_st := st\<rparr>))
     else (False, l))"

subsection \<open>The reader\<close>

definition wait_reader_sleep :: "pipe_env \<Rightarrow> wait_loc \<Rightarrow> wait_ctl \<times> wait_loc" where
  "wait_reader_sleep env l =
    (let st = upd_reader_flags (\<lambda>f. set_flag f XSHMP_SLEEPING) (observe env (wait_st l));
         (retval, st) = xen_shm_pipe_wait_signal env st;
         st = upd_reader_flags (\<lambda>f. clear_flag f XSHMP_SLEEPING) (observe env st)
     in if retval = -1
        then (if errno st = EPIPE
              then (Wnext, l\<lparr>wait_st := set_saw_epipe st\<rparr>)
              else (Wret (-1), l\<lparr>wait_st := upd_writer_flags (\<lambda>f. clear_flag f XSHMP_WAITING) st\<rparr>))
        else (Wnext, l\<lparr>wait_st := st\<rparr>))"

definition wait_reader_body :: "pipe_env \<Rightarrow> u32 \<Rightarrow> wait_loc \<Rightarrow> wait_ctl \<times> wait_loc" where
  "wait_reader_body env read_p l =
    (let st = observe env (wait_st l)
     in if read_p \<noteq> sh_write (shm st) then (Wexit, l\<lparr>wait_st := st\<rparr>)
     else let
       st = observe env st;
       wflags = writer_flags (shm st);
       st = upd_reader_flags (\<lambda>f. set_flag f XSHMP_WAITING) st;
       l = l\<lparr>loop_count := loop_count l - 1, unset_wait := True\<rparr>;
       st = observe env st
     in if read_p \<noteq> sh_write (shm st) then (Wexit, l\<lparr>wait_st := st\<rparr>)
     else if flag_set wflags XSHMP_CLOSED then (Wret 0, l\<lparr>wait_st := st\<rparr>)
     else let (broken, l) = wait_limit_check env (l\<lparr>wait_st := st\<rparr>)
     in if broken then (Wret (-1), l)
     else if saw_epipe (priv (wait_st l)) \<noteq> 0
       then (Wret (-1), l\<lparr>wait_st := (wait_st l)\<lparr>errno := EPIPE\<rparr>\<rparr>)
     else if flag_set wflags XSHMP_SLEEPING
       then (Wnext, l\<lparr>wait_st := snd (xen_shm_pipe_send_signal env (wait_st l))\<rparr>)
     else if flag_set wflags XSHMP_WAITING then (Wnext, l)
     else if flag_set wflags XSHMP_ACTIVE \<and> active_count l \<noteq> 0
       then (Wnext, l\<lparr>active_count := active_count l - 1\<rparr>)
     else wait_reader_sleep env l)"

partial_function (option) wait_reader_loop ::
  "pipe_env \<Rightarrow> u32 \<Rightarrow> wait_ctl \<times> wait_loc \<Rightarrow> (wait_ctl \<times> wait_loc) option" where
  "wait_reader_loop env read_p cl =
    (if fst cl = Wnext
     then Option.bind (Some (wait_reader_body env read_p (snd cl))) (wait_reader_loop env read_p)
     else Some cl)"

definition xen_shm_pipe_wait_reader :: "pipe_env \<Rightarrow> pipe_st \<Rightarrow> (int \<times> pipe_st) option" where
  "xen_shm_pipe_wait_reader env st =
    do {
      (c, l) \<leftarrow> wait_reader_loop env (sh_read (shm st)) (Wnext, wait_start st);
      (case c of
         Wret r \<Rightarrow> Some (r, wait_st l)
       | _ \<Rightarrow> Some (1, if unset_wait l
                    then upd_reader_flags (\<lambda>f. clear_flag f XSHMP_WAITING) (wait_st l) else wait_st l))
    }"

subsection \<open>The writer\<close>

definition wait_writer_sleep :: "pipe_env \<Rightarrow> wait_loc \<Rightarrow> wait_ctl \<times> wait_loc" where
  "wait_writer_sleep env l =
    (let st = upd_writer_flags (\<lambda>f. set_flag f XSHMP_SLEEPING) (observe env (wait_st l));
         (retval, st) = xen_shm_pipe_wait_signal env st;
         st = upd_writer_flags (\<lambda>f. clear_flag f XSHMP_SLEEPING) (observe env st)
     in if retval = -1
        then (Wret (-1), l\<lparr>wait_st := upd_writer_flags (\<lambda>f. clear_flag f XSHMP_WAITING) st\<rparr>)
        else (Wnext, l\<lparr>wait_st := st\<rparr>))"

definition wait_writer_body :: "pipe_env \<Rightarrow> u32 \<Rightarrow> wait_loc \<Rightarrow> wait_ctl \<times> wait_loc" where
  "wait_writer_body env write_p l =
    (let st = observe env (wait_st l)
     in if write_p \<noteq> sh_read (shm st) then (Wexit, l\<lparr>wait_st := st\<rparr>)
     else let
       st = observe env st;
       rflags = reader_flags (shm st);
       st = upd_writer_flags (\<lambda>f. set_flag f XSHMP_WAITING) st;
       l = l\<lparr>loop_count := loop_count l - 1, unset_wait := True\<rparr>;
       st = observe env st
     in if write_p \<noteq> sh_read (shm st) then (Wexit, l\<lparr>wait_st := st\<rparr>)
     else if flag_set rflags XSHMP_CLOSED then (Wret (-1), l\<lparr>wait_st := st\<rparr>)
     else let (broken, l) = wait_limit_check env (l\<lparr>wait_st := st\<rparr>)
     in if broken then (Wret (-1), l)
     else if flag_set rflags XSHMP_SLEEPING
       then (Wnext, l\<lparr>wait_st := snd (xen_shm_pipe_send_signal env (wait_st l))\<rparr>)
     else if flag_set rflags XSHMP_WAITING then (Wnext, l)
     else if flag_set rflags XSHMP_ACTIVE \<and> active_count l \<noteq> 0
       then (Wnext, l\<lparr>active_count := active_count l - 1\<rparr>)
     else wait_writer_sleep env l)"

partial_function (option) wait_writer_loop ::
  "pipe_env \<Rightarrow> u32 \<Rightarrow> wait_ctl \<times> wait_loc \<Rightarrow> (wait_ctl \<times> wait_loc) option" where
  "wait_writer_loop env write_p cl =
    (if fst cl = Wnext
     then Option.bind (Some (wait_writer_body env write_p (snd cl))) (wait_writer_loop env write_p)
     else Some cl)"

text \<open>The position after the write position, with the wrap-around at the buffer size.\<close>

definition wait_write_p :: "pipe_st \<Rightarrow> u32" where
  "wait_write_p st =
    (let write_p = sh_write (shm st) + 1
     in if ucast write_p = buffer_size (priv st) then 0 else write_p)"

definition xen_shm_pipe_wait_writer :: "pipe_env \<Rightarrow> pipe_st \<Rightarrow> (int \<times> pipe_st) option" where
  "xen_shm_pipe_wait_writer env st =
    (let st = observe env st
     in if flag_set (reader_flags (shm st)) XSHMP_CLOSED then Some (-1, st)
     else do {
       (c, l) \<leftarrow> wait_writer_loop env (wait_write_p st) (Wnext, wait_start st);
       (case c of
          Wret r \<Rightarrow> Some (r, wait_st l)
        | _ \<Rightarrow> Some (1, if unset_wait l
                     then upd_writer_flags (\<lambda>f. clear_flag f XSHMP_WAITING) (wait_st l) else wait_st l))
     })"

section \<open>Termination of a waiting loop\<close>

text \<open>
  The contract both rounds satisfy: a round that asks for another one has made an observation,
  and has counted down the rounds to the next check for a broken pipe, or has made that
  check and found the pipe not broken.
\<close>

definition epipe_at :: "pipe_env \<Rightarrow> nat \<Rightarrow> bool" where
  "epipe_at env t \<longleftrightarrow> a_ret (answer env t) = -1 \<and> a_errno (answer env t) = EPIPE"

locale wait_round =
  fixes round :: "pipe_env \<Rightarrow> u32 \<Rightarrow> wait_loc \<Rightarrow> wait_ctl \<times> wait_loc"
    and wloop :: "pipe_env \<Rightarrow> u32 \<Rightarrow> wait_ctl \<times> wait_loc \<Rightarrow> (wait_ctl \<times> wait_loc) option"
  assumes wloop_unfold: "wloop env p cl =
      (if fst cl = Wnext then Option.bind (Some (round env p (snd cl))) (wloop env p) else Some cl)"
    and wloop_induct: "wloop env p s = Some t \<Longrightarrow> (\<And>s. fst s \<noteq> Wnext \<Longrightarrow> P s s)
      \<Longrightarrow> (\<And>s t. fst s = Wnext \<Longrightarrow> P (round env p (snd s)) t \<Longrightarrow> P s t) \<Longrightarrow> P s t"
    and next_tick: "round env p l = (Wnext, l') \<Longrightarrow> tick (wait_st l) < tick (wait_st l')"
    and next_count: "round env p l = (Wnext, l') \<Longrightarrow>
      loop_count l - 1 \<noteq> 0 \<and> loop_count l' = loop_count l - 1
      \<or> loop_count l' = XEN_SHM_PIPE_WAIT_LOOP_LIMIT
        \<and> (\<exists>t \<ge> tick (wait_st l). t < tick (wait_st l') \<and> \<not> epipe_at env t)"
begin

sublocale lp: option_loop "\<lambda>cl. fst cl = Wnext" "\<lambda>cl. Some (round env p (snd cl))" "wloop env p"
  for env p
proof
  fix s t and P :: "wait_ctl \<times> wait_loc \<Rightarrow> wait_ctl \<times> wait_loc \<Rightarrow> bool"
  assume "wloop env p s = Some t" "\<And>s. fst s \<noteq> Wnext \<Longrightarrow> P s s"
    "\<And>s u t. fst s = Wnext \<Longrightarrow> Some (round env p (snd s)) = Some u \<Longrightarrow> P u t \<Longrightarrow> P s t"
  then show "P s t" using wloop_induct [of env p s t P] by blast
qed (rule wloop_unfold)

definition wait_measure :: "nat \<Rightarrow> wait_loc \<Rightarrow> nat" where
  "wait_measure T l = (T - tick (wait_st l)) * 10001 + unat (loop_count l)"

lemma next_measure:
  assumes nx: "round env p l = (Wnext, l')"
    and bound: "0 < unat (loop_count l)" "unat (loop_count l) \<le> 10000"
    and stop: "tick (wait_st l) < T \<or> (\<forall>t \<ge> T. epipe_at env t)"
  shows "wait_measure T l' < wait_measure T l \<and> 0 < unat (loop_count l')
    \<and> unat (loop_count l') \<le> 10000"
proof -
  have dec: "unat (loop_count l - 1) = unat (loop_count l) - 1"
    using bound(1) by (simp add: unat_sub word_le_nat_alt)
  have tick: "tick (wait_st l) < tick (wait_st l')" using nx by (rule next_tick)
  show ?thesis
  proof (cases "loop_count l - 1 \<noteq> 0 \<and> loop_count l' = loop_count l - 1")
    case True
    then have "loop_count l' \<noteq> 0" "unat (loop_count l') = unat (loop_count l) - 1"
      using dec by simp_all
    moreover from this(1) have "0 < unat (loop_count l')" by (simp add: unat_gt_0)
    moreover have "(T - tick (wait_st l')) * 10001 \<le> (T - tick (wait_st l)) * 10001"
      using tick by (intro mult_right_mono) auto
    ultimately show ?thesis using bound unfolding wait_measure_def by linarith
  next
    case False
    with next_count [OF nx] obtain t where lim: "loop_count l' = XEN_SHM_PIPE_WAIT_LOOP_LIMIT"
      and t: "tick (wait_st l) \<le> t" "\<not> epipe_at env t" by blast
    from stop t have "tick (wait_st l) < T" by (meson le_trans not_less)
    then have "T - tick (wait_st l') < T - tick (wait_st l)" using tick by simp
    then have "(T - tick (wait_st l')) * 10001 + 10001 \<le> (T - tick (wait_st l)) * 10001" by simp
    with lim show ?thesis by (simp add: wait_measure_def)
  qed
qed

lemma wloop_invariant:
  assumes ret: "wloop env p cl = Some cl'" and init: "Q cl"
    and step: "\<And>cl. Q cl \<Longrightarrow> Q (round env p (snd cl))"
  shows "Q cl'" "fst cl' \<noteq> Wnext"
proof -
  have "Q cl' \<and> \<not> fst cl' = Wnext"
  proof (rule lp.loop_partial [OF ret, of Q, OF init])
    fix s u assume "Q s" "Some (round env p (snd s)) = Some u"
    then show "Q u" using step [of s] by (metis option.inject)
  qed
  then show "Q cl'" "fst cl' \<noteq> Wnext" by simp_all
qed

text \<open>The loop ends when from some moment on no round can ask for another one, and when from
  some moment on every call of the device reports a broken pipe.\<close>

lemma wloop_returns:
  assumes "(\<forall>l. T \<le> tick (wait_st l) \<longrightarrow> J l \<longrightarrow> fst (round env p l) \<noteq> Wnext) \<or> (\<forall>t \<ge> T. epipe_at env t)"
    and J: "\<And>l l'. J l \<Longrightarrow> round env p l = (Wnext, l') \<Longrightarrow> J l'"
    and start: "J l" "0 < unat (loop_count l)" "unat (loop_count l) \<le> 10000"
  shows "\<exists>cl. wloop env p (Wnext, l) = Some cl"
proof -
  let ?I = "\<lambda>cl. fst cl = Wnext \<longrightarrow> J (snd cl) \<and> 0 < unat (loop_count (snd cl)) \<and> unat (loop_count (snd cl)) \<le> 10000"
  let ?m = "\<lambda>cl. if fst cl = Wnext then Suc (wait_measure T (snd cl)) else 0"
  have "\<exists>d. Some (round env p (snd cl)) = Some d \<and> ?I d \<and> ?m d < ?m cl"
    if I: "?I cl" and n: "fst cl = Wnext" for cl
  proof (cases "fst (round env p (snd cl)) = Wnext")
    case True
    then obtain l' where l': "round env p (snd cl) = (Wnext, l')" by (metis prod.collapse)
    have "tick (wait_st (snd cl)) < T \<or> (\<forall>t \<ge> T. epipe_at env t)"
      using assms(1) I n True by (metis not_le)
    with next_measure [OF l'] I n l' J [of "snd cl" l'] show ?thesis by auto
  qed (use n in auto)
  then have "\<exists>d. wloop env p (Wnext, l) = Some d \<and> ?I d \<and> \<not> fst d = Wnext"
    by (rule lp.loop_total) (use start in auto)
  then show ?thesis by blast
qed

end

section \<open>Facts on a round\<close>

lemma upd_flags_simps [simp]:
  "priv (upd_reader_flags f st) = priv st" "priv (upd_writer_flags f st) = priv st"
  "tick (upd_reader_flags f st) = tick st" "tick (upd_writer_flags f st) = tick st"
  "errno (upd_reader_flags f st) = errno st" "errno (upd_writer_flags f st) = errno st"
  "arrived (upd_reader_flags f st) = arrived st" "arrived (upd_writer_flags f st) = arrived st"
  "departed (upd_reader_flags f st) = departed st" "departed (upd_writer_flags f st) = departed st"
  "calls (upd_reader_flags f st) = calls st" "calls (upd_writer_flags f st) = calls st"
  "trail (upd_reader_flags f st) = trail st" "trail (upd_writer_flags f st) = trail st"
  "shm (upd_reader_flags f st) = (shm st)\<lparr>reader_flags := f (reader_flags (shm st))\<rparr>"
  "shm (upd_writer_flags f st) = (shm st)\<lparr>writer_flags := f (writer_flags (shm st))\<rparr>"
  by (simp_all add: upd_reader_flags_def upd_writer_flags_def)

lemma set_saw_epipe_simps [simp]:
  "shm (set_saw_epipe st) = shm st" "tick (set_saw_epipe st) = tick st"
  "calls (set_saw_epipe st) = calls st" "trail (set_saw_epipe st) = trail st"
  "errno (set_saw_epipe st) = errno st" "saw_epipe (priv (set_saw_epipe st)) = 1"
  by (simp_all add: set_saw_epipe_def)

lemma wait_signal_simps [simp]:
  "shm (snd (xen_shm_pipe_wait_signal env st)) = interf env (tick st) (shm st)"
  "tick (snd (xen_shm_pipe_wait_signal env st)) = Suc (tick st)"
  "saw_epipe (priv (snd (xen_shm_pipe_wait_signal env st))) = saw_epipe (priv st)"
  by (simp_all add: xen_shm_pipe_wait_signal_def Let_def split_beta)

lemma prone_simps [simp]:
  "shm (snd (xen_shm_pipe_prone_for_epipe env st)) = interf env (tick st) (shm st)"
  "tick (snd (xen_shm_pipe_prone_for_epipe env st)) = Suc (tick st)"
  "saw_epipe (priv (snd (xen_shm_pipe_prone_for_epipe env st))) = saw_epipe (priv st)"
  by (simp_all add: xen_shm_pipe_prone_for_epipe_def Let_def split_beta)

lemma prone_epipe: "epipe_at env (tick st) \<Longrightarrow> fst (xen_shm_pipe_prone_for_epipe env st) = -1"
  by (simp add: xen_shm_pipe_prone_for_epipe_def Let_def split_beta epipe_at_def sys_call_def)

lemma limit_check_cases:
  assumes "wait_limit_check env l = (b, l')"
  shows "tick (wait_st l) \<le> tick (wait_st l')"
    "\<not> b \<Longrightarrow> loop_count l \<noteq> 0 \<and> l' = l \<or> loop_count l' = XEN_SHM_PIPE_WAIT_LOOP_LIMIT
       \<and> \<not> epipe_at env (tick (wait_st l)) \<and> tick (wait_st l') = Suc (tick (wait_st l))"
  using assms prone_epipe [of env "wait_st l"]
  by (auto simp: wait_limit_check_def Let_def split_beta split: if_splits)

lemma reader_sleep_next:
  "wait_reader_sleep env l = (Wnext, l') \<Longrightarrow>
    loop_count l' = loop_count l \<and> tick (wait_st l) \<le> tick (wait_st l')"
  by (auto simp: wait_reader_sleep_def Let_def split_beta split: if_splits)

lemma writer_sleep_next:
  "wait_writer_sleep env l = (Wnext, l') \<Longrightarrow>
    loop_count l' = loop_count l \<and> tick (wait_st l) \<le> tick (wait_st l')"
  by (auto simp: wait_writer_sleep_def Let_def split_beta split: if_splits)

text \<open>What a round that asks for another one has done.\<close>

lemma reader_round_next:
  assumes "wait_reader_body env p l = (Wnext, l')"
  obtains lm lc where "wait_limit_check env lm = (False, lc)"
    and "loop_count lm = loop_count l - 1" "tick (wait_st lm) = tick (wait_st l) + 3"
    and "loop_count l' = loop_count lc" "tick (wait_st lc) \<le> tick (wait_st l')"
proof -
  let ?st1 = "observe env (wait_st l)"
  let ?st2 = "upd_reader_flags (\<lambda>f. set_flag f XSHMP_WAITING) (observe env ?st1)"
  let ?lm = "l\<lparr>loop_count := loop_count l - 1, unset_wait := True, wait_st := observe env ?st2\<rparr>"
  obtain b lc where c: "wait_limit_check env ?lm = (b, lc)" by fastforce
  from assms c have nb: "\<not> b" and "loop_count l' = loop_count lc" "tick (wait_st lc) \<le> tick (wait_st l')"
    by (auto simp: wait_reader_body_def Let_def split: if_splits dest: reader_sleep_next)
  with c that [of ?lm lc] show ?thesis by simp
qed

lemma writer_round_next:
  assumes "wait_writer_body env p l = (Wnext, l')"
  obtains lm lc where "wait_limit_check env lm = (False, lc)"
    and "loop_count lm = loop_count l - 1" "tick (wait_st lm) = tick (wait_st l) + 3"
    and "loop_count l' = loop_count lc" "tick (wait_st lc) \<le> tick (wait_st l')"
proof -
  let ?st1 = "observe env (wait_st l)"
  let ?st2 = "upd_writer_flags (\<lambda>f. set_flag f XSHMP_WAITING) (observe env ?st1)"
  let ?lm = "l\<lparr>loop_count := loop_count l - 1, unset_wait := True, wait_st := observe env ?st2\<rparr>"
  obtain b lc where c: "wait_limit_check env ?lm = (b, lc)" by fastforce
  from assms c have nb: "\<not> b" and "loop_count l' = loop_count lc" "tick (wait_st lc) \<le> tick (wait_st l')"
    by (auto simp: wait_writer_body_def Let_def split: if_splits dest: writer_sleep_next)
  with c that [of ?lm lc] show ?thesis by simp
qed

lemma round_next_count:
  assumes "wait_limit_check env lm = (False, lc)" "loop_count lm = loop_count l - 1"
    "tick (wait_st lm) = tick (wait_st l) + 3"
    "loop_count l' = loop_count lc" "tick (wait_st lc) \<le> tick (wait_st l')"
  shows "tick (wait_st l) < tick (wait_st l')"
    "loop_count l - 1 \<noteq> 0 \<and> loop_count l' = loop_count l - 1
      \<or> loop_count l' = XEN_SHM_PIPE_WAIT_LOOP_LIMIT
        \<and> (\<exists>t \<ge> tick (wait_st l). t < tick (wait_st l') \<and> \<not> epipe_at env t)"
  using limit_check_cases [OF assms(1)] assms(2-) by (auto simp: Suc_le_eq intro!: exI [of _ "tick (wait_st lm)"])

lemma wait_reader_loop_induct:
  assumes "wait_reader_loop env p s = Some t" "\<And>s. fst s \<noteq> Wnext \<Longrightarrow> P s s"
    and "\<And>s t. fst s = Wnext \<Longrightarrow> P (wait_reader_body env p (snd s)) t \<Longrightarrow> P s t"
  shows "P s t"
proof -
  let ?P = "\<lambda>env' p' s t. env' = env \<longrightarrow> p' = p \<longrightarrow> P s t"
  have "?P env p s t"
  proof (rule wait_reader_loop.raw_induct [where P = ?P, OF _ assms(1)])
    fix f env' p' s t
    assume IH: "\<And>env' p' s t. f env' p' s = Some t \<Longrightarrow> ?P env' p' s t"
      and eq: "(if fst s = Wnext then Option.bind (Some (wait_reader_body env' p' (snd s))) (f env' p')
        else Some s) = Some t"
    show "?P env' p' s t"
      using IH [of env' p' "wait_reader_body env' p' (snd s)" t] eq assms(2) [of s] assms(3) [of s t]
      by (auto split: if_splits)
  qed
  then show ?thesis by blast
qed

interpretation wait_rd: wait_round wait_reader_body wait_reader_loop
proof
  show "wait_reader_loop env p cl = (if fst cl = Wnext
      then Option.bind (Some (wait_reader_body env p (snd cl))) (wait_reader_loop env p) else Some cl)"
    for env p cl by (rule wait_reader_loop.simps)
  show "P s t" if "wait_reader_loop env p s = Some t" "\<And>s. fst s \<noteq> Wnext \<Longrightarrow> P s s"
    "\<And>s t. fst s = Wnext \<Longrightarrow> P (wait_reader_body env p (snd s)) t \<Longrightarrow> P s t" for env p s t P
    using that by (rule wait_reader_loop_induct)
qed (erule reader_round_next, erule (4) round_next_count)+

lemma wait_writer_loop_induct:
  assumes "wait_writer_loop env p s = Some t" "\<And>s. fst s \<noteq> Wnext \<Longrightarrow> P s s"
    and "\<And>s t. fst s = Wnext \<Longrightarrow> P (wait_writer_body env p (snd s)) t \<Longrightarrow> P s t"
  shows "P s t"
proof -
  let ?P = "\<lambda>env' p' s t. env' = env \<longrightarrow> p' = p \<longrightarrow> P s t"
  have "?P env p s t"
  proof (rule wait_writer_loop.raw_induct [where P = ?P, OF _ assms(1)])
    fix f env' p' s t
    assume IH: "\<And>env' p' s t. f env' p' s = Some t \<Longrightarrow> ?P env' p' s t"
      and eq: "(if fst s = Wnext then Option.bind (Some (wait_writer_body env' p' (snd s))) (f env' p')
        else Some s) = Some t"
    show "?P env' p' s t"
      using IH [of env' p' "wait_writer_body env' p' (snd s)" t] eq assms(2) [of s] assms(3) [of s t]
      by (auto split: if_splits)
  qed
  then show ?thesis by blast
qed

interpretation wait_wr: wait_round wait_writer_body wait_writer_loop
proof
  show "wait_writer_loop env p cl = (if fst cl = Wnext
      then Option.bind (Some (wait_writer_body env p (snd cl))) (wait_writer_loop env p) else Some cl)"
    for env p cl by (rule wait_writer_loop.simps)
  show "P s t" if "wait_writer_loop env p s = Some t" "\<And>s. fst s \<noteq> Wnext \<Longrightarrow> P s s"
    "\<And>s t. fst s = Wnext \<Longrightarrow> P (wait_writer_body env p (snd s)) t \<Longrightarrow> P s t" for env p s t P
    using that by (rule wait_writer_loop_induct)
qed (erule writer_round_next, erule (4) round_next_count)+

section \<open>Safety of the waiting loops\<close>

text \<open>While an end waits, the shared area changes by what the peer does, and by flags.\<close>

named_theorems passive_simps \<open>steps of a waiting end that leave the bytes in transit to the peer\<close>

text \<open>Setting and clearing flags other than the closed one is a step that both protocols allow.\<close>

lemma acts_flags:
  assumes "\<And>w. flag_set (f w) XSHMP_CLOSED = flag_set w XSHMP_CLOSED"
  shows "acts writer_does reader_does a (upd_reader_flags f b) = acts writer_does reader_does a b"
    "acts writer_does reader_does a (upd_writer_flags f b) = acts writer_does reader_does a b"
    "acts reader_does open_writer_does a (upd_writer_flags f b) = acts reader_does open_writer_does a b"
  by (rule acts_cong; simp add: assms reader_does_def reader_rely_def open_writer_does_def writer_does_def
      writer_rely_def)+

lemma acts_keep: "acts R G a (b\<lparr>errno := e\<rparr>) = acts R G a b" "acts R G a (b\<lparr>priv := p\<rparr>) = acts R G a b"
  by (simp_all add: acts_def)

lemma reader_passive_simps [passive_simps]:
  "(\<And>w. flag_set (f w) XSHMP_CLOSED = flag_set w XSHMP_CLOSED) \<Longrightarrow>
     reader_passive n a (upd_reader_flags f b) = reader_passive n a b"
  "(\<And>w. flag_set (f w) XSHMP_CLOSED = flag_set w XSHMP_CLOSED) \<Longrightarrow>
     reader_passive n a (upd_writer_flags f b) = reader_passive n a b"
  "reader_passive n a (b\<lparr>errno := e\<rparr>) = reader_passive n a b"
  "reader_passive n a (set_saw_epipe b) = reader_passive n a b"
  by (simp_all add: reader_passive_def same_pipe_def set_saw_epipe_def reader_flow_def acts_flags acts_keep)

lemma writer_passive_simps [passive_simps]:
  "(\<And>w. flag_set (f w) XSHMP_CLOSED = flag_set w XSHMP_CLOSED) \<Longrightarrow>
     writer_passive n a (upd_writer_flags f b) = writer_passive n a b"
  "writer_passive n a (b\<lparr>errno := e\<rparr>) = writer_passive n a b"
  by (simp_all add: writer_passive_def same_pipe_def writer_flow_def acts_flags acts_keep)

lemma reader_passive_steps [passive_simps]:
  assumes "env_writer n env" "reader_passive n a b"
  shows "reader_passive n a (observe env b)"
    "reader_passive n a (snd (xen_shm_pipe_send_signal env b))"
    "reader_passive n a (snd (xen_shm_pipe_wait_signal env b))"
    "reader_passive n a (snd (xen_shm_pipe_prone_for_epipe env b))"
proof -
  have b: "shared_wf n (shm b)" using assms(2) by (simp add: reader_passive_def)
  show "reader_passive n a (observe env b)"
    "reader_passive n a (snd (xen_shm_pipe_send_signal env b))"
    "reader_passive n a (snd (xen_shm_pipe_wait_signal env b))"
    "reader_passive n a (snd (xen_shm_pipe_prone_for_epipe env b))"
    by (rule reader_passive_trans [OF assms(2) reader_passive_observed [OF assms(1) b]], simp)+
qed

lemma writer_passive_steps [passive_simps]:
  assumes "env_reader n env" "writer_passive n a b"
  shows "writer_passive n a (observe env b)"
    "writer_passive n a (snd (xen_shm_pipe_send_signal env b))"
    "writer_passive n a (snd (xen_shm_pipe_wait_signal env b))"
    "writer_passive n a (snd (xen_shm_pipe_prone_for_epipe env b))"
proof -
  have b: "shared_wf n (shm b)" using assms(2) by (simp add: writer_passive_def)
  show "writer_passive n a (observe env b)"
    "writer_passive n a (snd (xen_shm_pipe_send_signal env b))"
    "writer_passive n a (snd (xen_shm_pipe_wait_signal env b))"
    "writer_passive n a (snd (xen_shm_pipe_prone_for_epipe env b))"
    by (rule writer_passive_trans [OF assms(2) writer_passive_observed [OF assms(1) b]], simp)+
qed

lemma limit_check_passive:
  "env_writer n env \<Longrightarrow> reader_passive n a (wait_st l) \<Longrightarrow>
    reader_passive n a (wait_st (snd (wait_limit_check env l)))"
  "env_reader n env \<Longrightarrow> writer_passive n a (wait_st l) \<Longrightarrow>
    writer_passive n a (wait_st (snd (wait_limit_check env l)))"
  by (simp_all add: wait_limit_check_def Let_def split_beta passive_simps)

lemma reader_sleep_passive:
  "env_writer n env \<Longrightarrow> reader_passive n a (wait_st l) \<Longrightarrow>
    reader_passive n a (wait_st (snd (wait_reader_sleep env l)))"
  by (simp add: wait_reader_sleep_def Let_def split_beta passive_simps)

lemma writer_sleep_passive:
  "env_reader n env \<Longrightarrow> writer_passive n a (wait_st l) \<Longrightarrow>
    writer_passive n a (wait_st (snd (wait_writer_sleep env l)))"
  by (simp add: wait_writer_sleep_def Let_def split_beta passive_simps)

lemma reader_round_passive:
  assumes env: "env_writer n env" and l: "reader_passive n a (wait_st l)"
  shows "reader_passive n a (wait_st (snd (wait_reader_body env p l)))"
proof -
  let ?st1 = "observe env (wait_st l)"
  let ?st2 = "upd_reader_flags (\<lambda>f. set_flag f XSHMP_WAITING) (observe env ?st1)"
  let ?lm = "l\<lparr>loop_count := loop_count l - 1, unset_wait := True, wait_st := observe env ?st2\<rparr>"
  obtain b lc where c: "wait_limit_check env ?lm = (b, lc)" by fastforce
  have p: "reader_passive n a ?st1" "reader_passive n a (observe env ?st2)"
    using env l by (simp_all add: passive_simps)
  then have pc: "reader_passive n a (wait_st lc)"
    using limit_check_passive(1) [OF env, of a ?lm] c by simp
  show ?thesis
    using p pc reader_sleep_passive [OF env pc] env c
    by (simp add: wait_reader_body_def Let_def passive_simps del: observe_simps(5))
qed

lemma writer_round_passive:
  assumes env: "env_reader n env" and l: "writer_passive n a (wait_st l)"
  shows "writer_passive n a (wait_st (snd (wait_writer_body env p l)))"
proof -
  let ?st1 = "observe env (wait_st l)"
  let ?st2 = "upd_writer_flags (\<lambda>f. set_flag f XSHMP_WAITING) (observe env ?st1)"
  let ?lm = "l\<lparr>loop_count := loop_count l - 1, unset_wait := True, wait_st := observe env ?st2\<rparr>"
  obtain b lc where c: "wait_limit_check env ?lm = (b, lc)" by fastforce
  have p: "writer_passive n a ?st1" "writer_passive n a (observe env ?st2)"
    using env l by (simp_all add: passive_simps)
  then have pc: "writer_passive n a (wait_st lc)"
    using limit_check_passive(2) [OF env, of a ?lm] c by simp
  show ?thesis
    using p pc writer_sleep_passive [OF env pc] env c
    by (simp add: wait_writer_body_def Let_def passive_simps del: observe_simps(5))
qed

section \<open>What a waiting loop returns\<close>

lemma wait_signal_errno:
  "fst (xen_shm_pipe_wait_signal env st) = -1 \<Longrightarrow>
    a_ret (answer env (tick st)) = -1 \<and> errno (snd (xen_shm_pipe_wait_signal env st)) = a_errno (answer env (tick st))"
  by (simp add: xen_shm_pipe_wait_signal_def Let_def split_beta sys_call_def)

text \<open>An error return reports a broken pipe, or the error of a call of the device.\<close>

definition errno_reported :: "pipe_env \<Rightarrow> pipe_st \<Rightarrow> bool" where
  "errno_reported env st \<longleftrightarrow> errno st = EPIPE
     \<or> (\<exists>t < tick st. a_ret (answer env t) = -1 \<and> errno st = a_errno (answer env t))"

lemma limit_check_broken:
  "wait_limit_check env l = (True, l') \<Longrightarrow> errno (wait_st l') = EPIPE"
  by (auto simp: wait_limit_check_def Let_def split_beta split: if_splits)

lemma reader_sleep_result:
  assumes "wait_reader_sleep env l = (c, l')"
  shows "c = Wnext \<or> c = Wret (-1) \<and> errno_reported env (wait_st l')"
proof -
  let ?st = "upd_reader_flags (\<lambda>f. set_flag f XSHMP_SLEEPING) (observe env (wait_st l))"
  show ?thesis
    using assms wait_signal_errno [of env ?st]
    by (auto simp: wait_reader_sleep_def Let_def split_beta errno_reported_def split: if_splits
        intro!: exI [of _ "Suc (tick (wait_st l))"])
qed

lemma closed_and_drained:
  assumes "env_writer n env" "shared_wf n s" "flag_set (writer_flags s) XSHMP_CLOSED"
    and "in_transit (interf env t s) = []"
  shows "flag_set (writer_flags (interf env t s)) XSHMP_CLOSED"
  using assms by (simp add: env_writer_def writer_rely_def)

lemma reader_round_result:
  assumes env: "env_writer n env" and l: "reader_passive n a (wait_st l)"
    and body: "wait_reader_body env (sh_read (shm a)) l = (c, l')"
  shows "c = Wnext \<or> c = Wexit \<and> in_transit (shm (wait_st l')) \<noteq> []
    \<or> c = Wret 0 \<and> in_transit (shm (wait_st l')) = []
        \<and> flag_set (writer_flags (shm (wait_st l'))) XSHMP_CLOSED
    \<or> c = Wret (-1) \<and> errno_reported env (wait_st l')"
proof -
  let ?p = "sh_read (shm a)"
  define st1 where "st1 = observe env (wait_st l)"
  define st2 where "st2 = upd_reader_flags (\<lambda>f. set_flag f XSHMP_WAITING) (observe env st1)"
  define st3 where "st3 = observe env st2"
  let ?lm = "l\<lparr>loop_count := loop_count l - 1, unset_wait := True, wait_st := st3\<rparr>"
  obtain b lc where c: "wait_limit_check env ?lm = (b, lc)" by fastforce
  have p: "reader_passive n a st1" "reader_passive n a st2" "reader_passive n a st3"
    using env l by (simp_all add: passive_simps st1_def st2_def st3_def)
  have empty: "in_transit (shm st) = [] \<longleftrightarrow> ?p = sh_write (shm st)" if "reader_passive n a st" for st
    using that in_transit_Nil_iff [of n "shm st"] by (auto simp: reader_passive_def)
  have closed: "flag_set (writer_flags (shm st3)) XSHMP_CLOSED"
    if "flag_set (writer_flags (shm (observe env st1))) XSHMP_CLOSED" "in_transit (shm st3) = []"
    using closed_and_drained [OF env, of "shm st2" "tick st2"] that p(2)
    by (simp add: st2_def st3_def reader_passive_def)
  from body [unfolded wait_reader_body_def Let_def, folded st1_def, folded st2_def, folded st3_def]
  show ?thesis
    using empty [OF p(1)] empty [OF p(3)] closed c limit_check_broken [of env ?lm lc]
      reader_sleep_result [of env lc c l']
    by (auto simp: errno_reported_def split: if_splits)
qed

lemma writer_sleep_result:
  assumes "wait_writer_sleep env l = (c, l')"
  shows "c = Wnext \<or> c = Wret (-1) \<and> errno_reported env (wait_st l')"
proof -
  let ?st = "upd_writer_flags (\<lambda>f. set_flag f XSHMP_SLEEPING) (observe env (wait_st l))"
  show ?thesis
    using assms wait_signal_errno [of env ?st]
    by (auto simp: wait_writer_sleep_def Let_def split_beta errno_reported_def split: if_splits
        intro!: exI [of _ "Suc (tick (wait_st l))"])
qed

text \<open>The position the writer waits for is the one after its own, and it is reached by the reader
  when the buffer is full.\<close>

lemma unat_wait_write_p:
  assumes "pipe_wf n st"
  shows "unat (wait_write_p st) = ring_add n (unat (sh_write (shm st))) 1"
proof -
  let ?w = "sh_write (shm st)"
  have w: "unat ?w + 1 \<le> n" "n \<le> 2 ^ 32" and size: "unat (buffer_size (priv st)) = n"
    using assms by (auto simp: pipe_wf_def shared_wf_def)
  show ?thesis
  proof (cases "unat ?w + 1 = 2 ^ 32")
    case True
    then have "?w + 1 = 0" by (simp add: word_unat_eq_iff unat_word_ariths)
    with True w show ?thesis by (simp add: wait_write_p_def ring_add_def)
  next
    case False
    then have u: "unat (?w + 1) = unat ?w + 1"
      using w by (simp add: unat_word_ariths)
    have "ucast (?w + 1) = buffer_size (priv st) \<longleftrightarrow> unat ?w + 1 = n"
      using size u by (simp add: word_unat_eq_iff [where 'a = 64] unat_ucast_u32)
    then show ?thesis using u by (simp add: wait_write_p_def ring_add_def Let_def)
  qed
qed

lemma full_iff:
  assumes "shared_wf n s"
  shows "ring_add n (unat (sh_write s)) 1 = unat (sh_read s) \<longleftrightarrow> \<not> length (in_transit s) + 1 < n"
  using assms by (auto simp: shared_wf_def length_in_transit ring_count_def ring_add_def)

lemma wait_writer_room:
  assumes "pipe_wf n a" "writer_passive n a st"
  shows "wait_write_p a = sh_read (shm st) \<longleftrightarrow> \<not> length (in_transit (shm st)) + 1 < n"
proof -
  have "shared_wf n (shm st)" "sh_write (shm st) = sh_write (shm a)"
    using assms(2) by (auto simp: writer_passive_def)
  with full_iff [of n "shm st"] unat_wait_write_p [OF assms(1)] show ?thesis
    by (simp add: word_unat_eq_iff)
qed

lemma writer_round_result:
  assumes env: "env_reader n env" and a: "pipe_wf n a" and l: "writer_passive n a (wait_st l)"
    and body: "wait_writer_body env (wait_write_p a) l = (c, l')"
  shows "c = Wnext \<or> c = Wexit \<and> length (in_transit (shm (wait_st l'))) + 1 < n
    \<or> c = Wret (-1) \<and> (errno_reported env (wait_st l')
        \<or> flag_set (reader_flags (shm (wait_st l'))) XSHMP_CLOSED)"
proof -
  define st1 where "st1 = observe env (wait_st l)"
  define st2 where "st2 = upd_writer_flags (\<lambda>f. set_flag f XSHMP_WAITING) (observe env st1)"
  define st3 where "st3 = observe env st2"
  let ?lm = "l\<lparr>loop_count := loop_count l - 1, unset_wait := True, wait_st := st3\<rparr>"
  obtain b lc where c: "wait_limit_check env ?lm = (b, lc)" by fastforce
  have p: "writer_passive n a st1" "writer_passive n a st2" "writer_passive n a st3"
    using env l by (simp_all add: passive_simps st1_def st2_def st3_def)
  have closed: "flag_set (reader_flags (shm st3)) XSHMP_CLOSED"
    if "flag_set (reader_flags (shm (observe env st1))) XSHMP_CLOSED"
    using env that p(2) by (simp add: st2_def st3_def writer_passive_def env_reader_def reader_rely_def)
  from body [unfolded wait_writer_body_def Let_def, folded st1_def, folded st2_def, folded st3_def]
  show ?thesis
    using wait_writer_room [OF a p(1)] wait_writer_room [OF a p(3)] closed c
      limit_check_broken [of env ?lm lc] writer_sleep_result [of env lc c l']
    by (auto simp: errno_reported_def split: if_splits)
qed

section \<open>The waiting functions\<close>

text \<open>What the reader finds when the wait is over.\<close>

definition reader_wait_post :: "nat \<Rightarrow> pipe_env \<Rightarrow> pipe_st \<Rightarrow> int \<Rightarrow> pipe_st \<Rightarrow> bool" where
  "reader_wait_post n env st r st' \<longleftrightarrow> reader_passive n st st'
    \<and> (r = 1 \<and> in_transit (shm st') \<noteq> []
      \<or> r = 0 \<and> in_transit (shm st') = [] \<and> flag_set (writer_flags (shm st')) XSHMP_CLOSED
      \<or> r = -1 \<and> errno_reported env st')"

definition writer_wait_post :: "nat \<Rightarrow> pipe_env \<Rightarrow> pipe_st \<Rightarrow> int \<Rightarrow> pipe_st \<Rightarrow> bool" where
  "writer_wait_post n env st r st' \<longleftrightarrow> writer_passive n st st'
    \<and> (r = 1 \<and> length (in_transit (shm st')) + 1 < n
      \<or> r = -1 \<and> (errno_reported env st' \<or> flag_set (reader_flags (shm st')) XSHMP_CLOSED))"

definition reader_loop_post :: "nat \<Rightarrow> pipe_env \<Rightarrow> pipe_st \<Rightarrow> wait_ctl \<times> wait_loc \<Rightarrow> bool" where
  "reader_loop_post n env a cl \<longleftrightarrow> reader_passive n a (wait_st (snd cl))
    \<and> (fst cl = Wnext \<or> fst cl = Wexit \<and> in_transit (shm (wait_st (snd cl))) \<noteq> []
      \<or> fst cl = Wret 0 \<and> in_transit (shm (wait_st (snd cl))) = []
          \<and> flag_set (writer_flags (shm (wait_st (snd cl)))) XSHMP_CLOSED
      \<or> fst cl = Wret (-1) \<and> errno_reported env (wait_st (snd cl)))"

definition writer_loop_post :: "nat \<Rightarrow> pipe_env \<Rightarrow> pipe_st \<Rightarrow> wait_ctl \<times> wait_loc \<Rightarrow> bool" where
  "writer_loop_post n env a cl \<longleftrightarrow> writer_passive n a (wait_st (snd cl))
    \<and> (fst cl = Wnext \<or> fst cl = Wexit \<and> length (in_transit (shm (wait_st (snd cl)))) + 1 < n
      \<or> fst cl = Wret (-1) \<and> (errno_reported env (wait_st (snd cl))
          \<or> flag_set (reader_flags (shm (wait_st (snd cl)))) XSHMP_CLOSED))"

lemma reader_loop_post_step:
  "env_writer n env \<Longrightarrow> reader_loop_post n env a cl \<Longrightarrow>
    reader_loop_post n env a (wait_reader_body env (sh_read (shm a)) (snd cl))"
  using reader_round_result [of n env a "snd cl"] reader_round_passive [of n env a "snd cl"]
  by (auto simp: reader_loop_post_def)

lemma writer_loop_post_step:
  "env_reader n env \<Longrightarrow> pipe_wf n a \<Longrightarrow> writer_loop_post n env a cl \<Longrightarrow>
    writer_loop_post n env a (wait_writer_body env (wait_write_p a) (snd cl))"
  using writer_round_result [of n env a "snd cl"] writer_round_passive [of n env a "snd cl"]
  by (auto simp: writer_loop_post_def)

lemma wait_reader_partial:
  assumes env: "env_writer n env" and wf: "pipe_wf n st"
    and ret: "xen_shm_pipe_wait_reader env st = Some (r, st')"
  shows "reader_wait_post n env st r st'"
proof -
  obtain c l where loop: "wait_reader_loop env (sh_read (shm st)) (Wnext, wait_start st) = Some (c, l)"
    using ret by (auto simp: xen_shm_pipe_wait_reader_def bind_eq_Some_conv)
  have "reader_loop_post n env st (Wnext, wait_start st)"
    using wf by (simp add: reader_loop_post_def wait_start_def reader_passive_def pipe_wf_def)
  note post = wait_rd.wloop_invariant [OF loop, of "reader_loop_post n env st", OF this
      reader_loop_post_step [OF env]]
  from ret loop have "(case c of Wret r \<Rightarrow> Some (r, wait_st l)
      | _ \<Rightarrow> Some (1, if unset_wait l
          then upd_reader_flags (\<lambda>f. clear_flag f XSHMP_WAITING) (wait_st l) else wait_st l)) = Some (r, st')"
    by (simp add: xen_shm_pipe_wait_reader_def)
  with post show ?thesis
    by (cases c) (auto simp: reader_loop_post_def reader_wait_post_def passive_simps split: if_splits)
qed

lemma wait_writer_partial:
  assumes env: "env_reader n env" and wf: "pipe_wf n st"
    and ret: "xen_shm_pipe_wait_writer env st = Some (r, st')"
  shows "writer_wait_post n env st r st'"
proof -
  define st1 where "st1 = observe env st"
  have p1: "writer_passive n st st1"
    unfolding st1_def by (rule writer_passive_observe [OF env pipe_wf_shared [OF wf]])
  note wf1 = writer_passive_wf [OF p1 wf]
  show ?thesis
  proof (cases "flag_set (reader_flags (shm st1)) XSHMP_CLOSED")
    case True
    with ret p1 show ?thesis
      by (auto simp: xen_shm_pipe_wait_writer_def writer_wait_post_def Let_def simp flip: st1_def)
  next
    case False
    with ret have tail: "Option.bind (wait_writer_loop env (wait_write_p st1) (Wnext, wait_start st1))
      (\<lambda>(c, l). case c of Wret r \<Rightarrow> Some (r, wait_st l)
        | _ \<Rightarrow> Some (1, if unset_wait l
            then upd_writer_flags (\<lambda>f. clear_flag f XSHMP_WAITING) (wait_st l) else wait_st l)) = Some (r, st')"
      by (simp add: xen_shm_pipe_wait_writer_def Let_def flip: st1_def)
    then obtain c l where
      loop: "wait_writer_loop env (wait_write_p st1) (Wnext, wait_start st1) = Some (c, l)"
      by (auto simp: bind_eq_Some_conv)
    have "writer_loop_post n env st1 (Wnext, wait_start st1)"
      using wf1 by (simp add: writer_loop_post_def wait_start_def writer_passive_def pipe_wf_def)
    note wait_wr.wloop_invariant [OF loop, of "writer_loop_post n env st1", OF this
        writer_loop_post_step [OF env wf1]]
    with tail loop writer_passive_trans [OF p1] show ?thesis
      by (cases c) (auto simp: writer_loop_post_def writer_wait_post_def passive_simps split: if_splits)
  qed
qed

section \<open>When the waiting functions return\<close>

text \<open>The peer eventually makes progress, or closes: from the observation \<open>T\<close> on there is a
  byte (there is room for a byte) or the peer has closed.\<close>

definition eventually_readable :: "nat \<Rightarrow> pipe_env \<Rightarrow> bool" where
  "eventually_readable n env \<longleftrightarrow> (\<exists>T. \<forall>t \<ge> T. \<forall>s. shared_wf n s \<longrightarrow>
     in_transit (interf env t s) \<noteq> [] \<or> flag_set (writer_flags (interf env t s)) XSHMP_CLOSED)"

definition eventually_writable :: "nat \<Rightarrow> pipe_env \<Rightarrow> bool" where
  "eventually_writable n env \<longleftrightarrow> (\<exists>T. \<forall>t \<ge> T. \<forall>s. shared_wf n s \<longrightarrow>
     length (in_transit (interf env t s)) + 1 < n \<or> flag_set (reader_flags (interf env t s)) XSHMP_CLOSED)"

text \<open>The device eventually reports that the peer is gone.\<close>

definition eventually_broken :: "pipe_env \<Rightarrow> bool" where
  "eventually_broken env \<longleftrightarrow> (\<exists>T. \<forall>t \<ge> T. epipe_at env t)"

lemma reader_round_ready:
  assumes env: "env_writer n env" and l: "reader_passive n a (wait_st l)"
    and ready: "\<forall>t \<ge> T. \<forall>s. shared_wf n s \<longrightarrow> in_transit (interf env t s) \<noteq> []
      \<or> flag_set (writer_flags (interf env t s)) XSHMP_CLOSED"
    and T: "T \<le> tick (wait_st l)"
  shows "fst (wait_reader_body env (sh_read (shm a)) l) \<noteq> Wnext"
proof -
  let ?p = "sh_read (shm a)"
  define st1 where "st1 = observe env (wait_st l)"
  define st2 where "st2 = observe env st1"
  define st3 where "st3 = observe env (upd_reader_flags (\<lambda>f. set_flag f XSHMP_WAITING) st2)"
  have p: "reader_passive n a st1" "reader_passive n a st2" "reader_passive n a st3"
    using env l by (simp_all add: passive_simps st1_def st2_def st3_def)
  have empty: "in_transit (shm st) = [] \<longleftrightarrow> ?p = sh_write (shm st)" if "reader_passive n a st" for st
    using that in_transit_Nil_iff [of n "shm st"] by (auto simp: reader_passive_def)
  have "shared_wf n (shm st1)" "T \<le> tick st1"
    using p(1) T by (simp_all add: reader_passive_def st1_def)
  then have "in_transit (shm st2) \<noteq> [] \<or> flag_set (writer_flags (shm st2)) XSHMP_CLOSED"
    using ready by (simp add: st2_def)
  moreover have "prefix (in_transit (shm st2)) (in_transit (shm st3))"
    using env_writerD(3) [OF env, of "shm (upd_reader_flags (\<lambda>f. set_flag f XSHMP_WAITING) st2)"] p(2)
    by (simp add: st3_def reader_passive_def)
  ultimately show ?thesis
    using empty [OF p(3)]
    by (auto simp: wait_reader_body_def Let_def simp del: observe_simps(5)
        simp flip: st1_def simp flip: st2_def simp flip: st3_def)
qed

lemma writer_round_ready:
  assumes env: "env_reader n env" and a: "pipe_wf n a" and l: "writer_passive n a (wait_st l)"
    and ready: "\<forall>t \<ge> T. \<forall>s. shared_wf n s \<longrightarrow> length (in_transit (interf env t s)) + 1 < n
      \<or> flag_set (reader_flags (interf env t s)) XSHMP_CLOSED"
    and T: "T \<le> tick (wait_st l)"
  shows "fst (wait_writer_body env (wait_write_p a) l) \<noteq> Wnext"
proof -
  define st1 where "st1 = observe env (wait_st l)"
  define st2 where "st2 = observe env st1"
  define st3 where "st3 = observe env (upd_writer_flags (\<lambda>f. set_flag f XSHMP_WAITING) st2)"
  have p: "writer_passive n a st1" "writer_passive n a st2" "writer_passive n a st3"
    using env l by (simp_all add: passive_simps st1_def st2_def st3_def)
  have "shared_wf n (shm st1)" "T \<le> tick st1"
    using p(1) T by (simp_all add: writer_passive_def st1_def)
  then have "length (in_transit (shm st2)) + 1 < n \<or> flag_set (reader_flags (shm st2)) XSHMP_CLOSED"
    using ready by (simp add: st2_def)
  moreover have "suffix (in_transit (shm st3)) (in_transit (shm st2))"
    using env_readerD(3) [OF env, of "shm (upd_writer_flags (\<lambda>f. set_flag f XSHMP_WAITING) st2)"] p(2)
    by (simp add: st3_def writer_passive_def)
  from suffix_length_le [OF this]
  have "length (in_transit (shm st3)) \<le> length (in_transit (shm st2))" .
  ultimately have "wait_write_p a \<noteq> sh_read (shm st3) \<or> flag_set (reader_flags (shm st2)) XSHMP_CLOSED"
    using wait_writer_room [OF a p(3)] by auto
  then show ?thesis
    by (auto simp: wait_writer_body_def Let_def simp del: observe_simps(5)
        simp flip: st1_def simp flip: st2_def simp flip: st3_def)
qed

lemma wait_start_simps [simp]:
  "wait_st (wait_start st) = st" "unat (loop_count (wait_start st)) = 10000"
  by (simp_all add: wait_start_def)

lemma wait_reader_total:
  assumes env: "env_writer n env" and wf: "pipe_wf n st"
    and progress: "eventually_readable n env \<or> eventually_broken env"
  obtains r st' where "xen_shm_pipe_wait_reader env st = Some (r, st')" "reader_wait_post n env st r st'"
proof -
  let ?J = "\<lambda>l. reader_passive n st (wait_st l)"
  obtain T where "(\<forall>l. T \<le> tick (wait_st l) \<longrightarrow> ?J l \<longrightarrow>
      fst (wait_reader_body env (sh_read (shm st)) l) \<noteq> Wnext) \<or> (\<forall>t \<ge> T. epipe_at env t)"
    using progress reader_round_ready [OF env]
    unfolding eventually_readable_def eventually_broken_def by blast
  moreover have "?J (wait_start st)" using wf by (simp add: reader_passive_def pipe_wf_def)
  ultimately obtain cl where "wait_reader_loop env (sh_read (shm st)) (Wnext, wait_start st) = Some cl"
    using wait_rd.wloop_returns [of T ?J env "sh_read (shm st)" "wait_start st"]
      reader_round_passive [OF env, of st] by (metis snd_conv wait_start_simps(2) le_refl zero_less_numeral)
  then obtain r st' where "xen_shm_pipe_wait_reader env st = Some (r, st')"
    by (cases "fst cl") (auto simp: xen_shm_pipe_wait_reader_def split_beta)
  with wait_reader_partial [OF env wf this] that show ?thesis by blast
qed

lemma wait_writer_total:
  assumes env: "env_reader n env" and wf: "pipe_wf n st"
    and progress: "eventually_writable n env \<or> eventually_broken env"
  obtains r st' where "xen_shm_pipe_wait_writer env st = Some (r, st')" "writer_wait_post n env st r st'"
proof -
  define st1 where "st1 = observe env st"
  have p1: "writer_passive n st st1"
    unfolding st1_def by (rule writer_passive_observe [OF env pipe_wf_shared [OF wf]])
  note wf1 = writer_passive_wf [OF p1 wf]
  let ?J = "\<lambda>l. writer_passive n st1 (wait_st l)"
  obtain T where "(\<forall>l. T \<le> tick (wait_st l) \<longrightarrow> ?J l \<longrightarrow>
      fst (wait_writer_body env (wait_write_p st1) l) \<noteq> Wnext) \<or> (\<forall>t \<ge> T. epipe_at env t)"
    using progress writer_round_ready [OF env wf1]
    unfolding eventually_writable_def eventually_broken_def by blast
  moreover have "?J (wait_start st1)" using wf1 by (simp add: writer_passive_def pipe_wf_def)
  ultimately obtain cl where "wait_writer_loop env (wait_write_p st1) (Wnext, wait_start st1) = Some cl"
    using wait_wr.wloop_returns [of T ?J env "wait_write_p st1" "wait_start st1"]
      writer_round_passive [OF env, of st1] by (metis snd_conv wait_start_simps(2) le_refl zero_less_numeral)
  then have "xen_shm_pipe_wait_writer env st \<noteq> None"
    by (cases "fst cl") (auto simp: xen_shm_pipe_wait_writer_def split_beta Let_def
        simp del: observe_simps(5) simp flip: st1_def)
  then obtain r st' where "xen_shm_pipe_wait_writer env st = Some (r, st')" by auto
  with wait_writer_partial [OF env wf this] that show ?thesis by blast
qed

lemma epipe_answer_broken: "eventually_broken (quiet_env epipe_answer)"
  by (simp add: eventually_broken_def epipe_at_def epipe_answer_def)





end
