(* ===== verification/Pipe_Api.thy ===== *)
theory Pipe_Api
  imports Pipe_Read Pipe_Write Pipe_Wait "HOL-Library.Signed_Division"
begin

text \<open>
  The interface of the pipe library: creation, connection and destruction of one end, and
  reading and writing.  A \<^verbatim>\<open>malloc\<close> is an argument: \<open>None\<close> when it fails and else the block
  it returns, with whatever values its fields hold.  Results written through a pointer are
  returned beside the return code, as an option where an error path does not write them.
\<close>

section \<open>Connection\<close>

definition xen_shm_pipe_map_shared_memory :: "pipe_env \<Rightarrow> u8 \<Rightarrow> pipe_st \<Rightarrow> int \<times> pipe_st" where
  "xen_shm_pipe_map_shared_memory env page_count st =
    (let (a, st) = sys_call env (Sys_mmap (fd (priv st)) (unat (ucast page_count * XEN_SHM_PIPE_PAGE_SIZE))) st
     in if a_ret a = -1 then (-1, st)
        else (0, st\<lparr>priv := (priv st)\<lparr>pshared := Some (a_addr a)\<rparr>\<rparr>))"

definition zero_stats :: xen_shm_pipe_stats where
  "zero_stats = \<lparr>ioctl_count_await = 0, ioctl_count_epipe_prone = 0, ioctl_count_ssig = 0,
     read_count = 0, write_count = 0, waiting = 0\<rparr>"

definition xen_shm_pipe_init ::
  "pipe_env \<Rightarrow> xen_shm_pipe_priv option \<Rightarrow> xen_shm_pipe_mod \<Rightarrow> xen_shm_pipe_conv \<Rightarrow> pipe_st \<Rightarrow> int \<times> pipe_st" where
  "xen_shm_pipe_init env malloc mod0 conv0 st =
    (case malloc of
       None \<Rightarrow> (-1, st\<lparr>errno := ENOMEM\<rparr>)
     | Some p \<Rightarrow>
         let (a, st) = sys_call env Sys_open st
         in if a_ret a < 0 then (-1, st\<lparr>errno := ENODEV\<rparr>)
            else (0, st\<lparr>priv := p\<lparr>fd := a_ret a, pconv := conv0, pmod := mod0, pshared := None,
                      await_op := (await_op p)\<lparr>request_flags := XEN_SHM_IOCTL_AWAIT_LATENT_USER,
                        timeout_ms := 0\<rparr>,
                      saw_epipe := 0, stats := zero_stats\<rparr>\<rparr>))"

definition xen_shm_pipe_getdomid :: "pipe_env \<Rightarrow> pipe_st \<Rightarrow> int \<times> u32 option \<times> pipe_st" where
  "xen_shm_pipe_getdomid env st =
    (if xen_shm_pipe_is_offerer (priv st) then (-1, None, st\<lparr>errno := EMEDIUMTYPE\<rparr>)
     else let (a, st) = sys_call env (Sys_get_domid (fd (priv st))) st
          in if a_ret a \<noteq> 0 then (-1, None, st) else (0, Some (ucast (a_domid a)), st))"

text \<open>The size of the circular buffer and the interval of the checks, which both ends compute
  from the number of pages.\<close>

definition set_buffer_size :: "u8 \<Rightarrow> xen_shm_pipe_priv \<Rightarrow> xen_shm_pipe_priv" where
  "set_buffer_size page_count p =
    (let bs = ucast page_count * XEN_SHM_PIPE_PAGE_SIZE - of_nat sizeof_shared
     in p\<lparr>buffer_size := bs, wait_check_interval := sint bs sdiv XEN_SHM_PIPE_WAIT_CHECK_PER_ROUND\<rparr>)"

definition set_opened :: "pipe_st \<Rightarrow> pipe_st" where
  "set_opened st = st\<lparr>shm := xen_shm_pipe_upd_flags (priv st) True (\<lambda>f. set_flag f XSHMP_OPENED) (shm st)\<rparr>"

definition xen_shm_pipe_offers ::
  "pipe_env \<Rightarrow> u8 \<Rightarrow> u32 \<Rightarrow> pipe_st \<Rightarrow> int \<times> (u32 \<times> u32) option \<times> pipe_st" where
  "xen_shm_pipe_offers env page_count receiver_domid st =
    (if \<not> xen_shm_pipe_is_offerer (priv st) then (-1, None, st\<lparr>errno := EMEDIUMTYPE\<rparr>)
     else
       let (a, st) = sys_call env (Sys_init_offerer (fd (priv st)) page_count (ucast receiver_domid)) st
       in if a_ret a \<noteq> 0 then (-1, None, st)
       else
         let (r, st) = xen_shm_pipe_map_shared_memory env page_count st
         in if r \<noteq> 0 then (-1, None, st)
         else
           let st = st\<lparr>priv := set_buffer_size page_count (priv st)\<rparr>;
               st = st\<lparr>shm := (shm st)\<lparr>reader_flags := 0, writer_flags := 0, sh_read := 0, sh_write := 0\<rparr>\<rparr>
           in (0, Some (ucast (a_domid a), a_grant a), set_opened st))"

definition xen_shm_pipe_connect :: "pipe_env \<Rightarrow> u8 \<Rightarrow> u32 \<Rightarrow> u32 \<Rightarrow> pipe_st \<Rightarrow> int \<times> pipe_st" where
  "xen_shm_pipe_connect env page_count offerer_domid grant_ref st =
    (if xen_shm_pipe_is_offerer (priv st) then (-1, st\<lparr>errno := EMEDIUMTYPE\<rparr>)
     else
       let (a, st) = sys_call env
             (Sys_init_receiver (fd (priv st)) page_count (ucast offerer_domid) grant_ref) st
       in if a_ret a \<noteq> 0 then (-1, st)
       else
         let (r, st) = xen_shm_pipe_map_shared_memory env page_count st
         in if r \<noteq> 0 then (-1, st)
         else (0, set_opened (st\<lparr>priv := set_buffer_size page_count (priv st)\<rparr>)))"

text \<open>\<open>a_remaining\<close> is what the field \<^verbatim>\<open>remaining_ms\<close> of the argument holds after the call.\<close>

definition xen_shm_pipe_wait :: "pipe_env \<Rightarrow> u64 \<Rightarrow> pipe_st \<Rightarrow> int \<times> pipe_st" where
  "xen_shm_pipe_wait env timeout st =
    (if \<not> xen_shm_pipe_is_offerer (priv st) \<or> pshared (priv st) = None
     then (-1, st\<lparr>errno := EMEDIUMTYPE\<rparr>)
     else let (a, st) = sys_call env (Sys_await (fd (priv st)) XEN_SHM_IOCTL_AWAIT_INIT timeout) st
          in if a_ret a \<noteq> 0 then (-1, st)
             else if a_remaining a = 0 then (-1, st\<lparr>errno := ETIME\<rparr>)
             else (0, st))"

text \<open>The private block is released at the end and must not be used again.\<close>

definition xen_shm_pipe_free :: "pipe_env \<Rightarrow> pipe_st \<Rightarrow> pipe_st" where
  "xen_shm_pipe_free env st =
    (let st = (case pshared (priv st) of
         None \<Rightarrow> st
       | Some addr \<Rightarrow>
           let st = st\<lparr>shm := xen_shm_pipe_upd_flags (priv st) True (\<lambda>f. set_flag f XSHMP_CLOSED) (shm st)\<rparr>
           in snd (sys_call env (Sys_munmap addr (unat (buffer_size (priv st) + of_nat sizeof_shared))) st))
     in snd (sys_call env (Sys_close (fd (priv st))) st))"

section \<open>Reading and writing\<close>

definition xen_shm_pipe_read ::
  "pipe_env \<Rightarrow> nat \<Rightarrow> memory \<Rightarrow> nat \<Rightarrow> pipe_st \<Rightarrow> (int \<times> memory \<times> pipe_st) option" where
  "xen_shm_pipe_read env ub buf nbytes st =
    (let st = st\<lparr>priv := (priv st)\<lparr>stats := (stats (priv st))
           \<lparr>read_count := read_count (stats (priv st)) + 1\<rparr>\<rparr>\<rparr>
     in if pmod (priv st) = xen_shm_pipe_mod_write then Some (-1, buf, st\<lparr>errno := EMEDIUMTYPE\<rparr>)
     else if pshared (priv st) = None then Some (-1, buf, st\<lparr>errno := EMEDIUMTYPE\<rparr>)
     else if flag_set (reader_flags (shm st)) XSHMP_CLOSED then Some (0, buf, st)
     else do {
       let st = upd_reader_flags (\<lambda>f. set_flag f XSHMP_ACTIVE) st;
       (wait_ret, st) \<leftarrow> xen_shm_pipe_wait_reader env st;
       (if wait_ret \<le> 0
        then Some (wait_ret, buf, upd_reader_flags (\<lambda>f. clear_flag f XSHMP_ACTIVE) st)
        else do {
          (read_ret, buf, st) \<leftarrow> xen_shm_pipe_read_avail env ub buf nbytes st;
          Some (int read_ret, buf, upd_reader_flags (\<lambda>f. clear_flag f XSHMP_ACTIVE) st)
        })
     })"

definition xen_shm_pipe_write ::
  "pipe_env \<Rightarrow> nat \<Rightarrow> memory \<Rightarrow> nat \<Rightarrow> pipe_st \<Rightarrow> (int \<times> pipe_st) option" where
  "xen_shm_pipe_write env ub buf nbytes st =
    (let st = st\<lparr>priv := (priv st)\<lparr>stats := (stats (priv st))
           \<lparr>write_count := write_count (stats (priv st)) + 1\<rparr>\<rparr>\<rparr>
     in if pmod (priv st) = xen_shm_pipe_mod_read then Some (-1, st\<lparr>errno := EMEDIUMTYPE\<rparr>)
     else if pshared (priv st) = None then Some (-1, st\<lparr>errno := EMEDIUMTYPE\<rparr>)
     else if flag_set (writer_flags (shm st)) XSHMP_CLOSED then Some (-1, st\<lparr>errno := EPIPE\<rparr>)
     else do {
       let st = upd_writer_flags (\<lambda>f. set_flag f XSHMP_ACTIVE) st;
       (wait_ret, st) \<leftarrow> xen_shm_pipe_wait_writer env st;
       (if wait_ret \<le> 0
        then Some (wait_ret, upd_writer_flags (\<lambda>f. clear_flag f XSHMP_ACTIVE) st)
        else do {
          (write_ret, st) \<leftarrow> xen_shm_pipe_write_avail env ub buf nbytes st;
          Some (int write_ret, upd_writer_flags (\<lambda>f. clear_flag f XSHMP_ACTIVE) st)
        })
     })"

subsection \<open>The loops over whole buffers\<close>

text \<open>
  \<^verbatim>\<open>xen_shm_pipe_read_all\<close> and \<^verbatim>\<open>xen_shm_pipe_write_all\<close> have the same loop around the
  function they call: \<open>xf_done\<close> is \<^verbatim>\<open>readd\<close> or \<^verbatim>\<open>written\<close>, and the moving pointer \<^verbatim>\<open>buffer\<close> is
  \<^verbatim>\<open>buf\<close> plus that count; \<open>xf_ret\<close> is set by the \<^verbatim>\<open>return\<close> inside the loop.
\<close>

record xfer_loc =
  xf_done :: nat
  xf_left :: nat
  xf_buf :: memory
  xf_ret :: "int option"
  xf_st :: pipe_st

type_synonym xfer_op = "nat \<Rightarrow> memory \<Rightarrow> nat \<Rightarrow> pipe_st \<Rightarrow> (int \<times> memory \<times> pipe_st) option"

definition xfer_cond :: "xfer_loc \<Rightarrow> bool" where
  "xfer_cond l \<longleftrightarrow> xf_left l \<noteq> 0 \<and> xf_ret l = None"

definition xfer_iter :: "xfer_op \<Rightarrow> nat \<Rightarrow> xfer_loc \<Rightarrow> xfer_loc option" where
  "xfer_iter xop ub l =
    do {
      (retval, b, st) \<leftarrow> xop (ub + xf_done l) (drop (xf_done l) (xf_buf l)) (xf_left l) (xf_st l);
      let l = l\<lparr>xf_buf := take (xf_done l) (xf_buf l) @ b, xf_st := st\<rparr>;
      (if retval \<le> 0
       then Some (l\<lparr>xf_ret := Some (if xf_done l \<noteq> 0 then int (xf_done l) else retval)\<rparr>)
       else Some (l\<lparr>xf_done := xf_done l + nat retval, xf_left := xf_left l - nat retval\<rparr>))
    }"

partial_function (option) xfer_loop :: "xfer_op \<Rightarrow> nat \<Rightarrow> xfer_loc \<Rightarrow> xfer_loc option" where
  "xfer_loop xop ub l =
    (if xfer_cond l then Option.bind (xfer_iter xop ub l) (xfer_loop xop ub) else Some l)"

definition xfer_all :: "xfer_op \<Rightarrow> nat \<Rightarrow> memory \<Rightarrow> nat \<Rightarrow> pipe_st \<Rightarrow> (int \<times> memory \<times> pipe_st) option" where
  "xfer_all xop ub buf nbytes st =
    do {
      l \<leftarrow> xfer_loop xop ub \<lparr>xf_done = 0, xf_left = nbytes, xf_buf = buf, xf_ret = None, xf_st = st\<rparr>;
      Some (case xf_ret l of Some r \<Rightarrow> r | None \<Rightarrow> int (xf_done l), xf_buf l, xf_st l)
    }"

definition xen_shm_pipe_read_all ::
  "pipe_env \<Rightarrow> nat \<Rightarrow> memory \<Rightarrow> nat \<Rightarrow> pipe_st \<Rightarrow> (int \<times> memory \<times> pipe_st) option" where
  "xen_shm_pipe_read_all env = xfer_all (xen_shm_pipe_read env)"

text \<open>A write leaves the user buffer alone.\<close>

definition write_op :: "pipe_env \<Rightarrow> xfer_op" where
  "write_op env ub buf nbytes st = map_option (\<lambda>(r, st). (r, buf, st)) (xen_shm_pipe_write env ub buf nbytes st)"

definition xen_shm_pipe_write_all ::
  "pipe_env \<Rightarrow> nat \<Rightarrow> memory \<Rightarrow> nat \<Rightarrow> pipe_st \<Rightarrow> (int \<times> pipe_st) option" where
  "xen_shm_pipe_write_all env ub buf nbytes st =
    map_option (\<lambda>(r, _, st). (r, st)) (xfer_all (write_op env) ub buf nbytes st)"

subsection \<open>Signals and statistics\<close>

definition xen_shm_pipe_flush :: "pipe_env \<Rightarrow> pipe_st \<Rightarrow> int \<times> pipe_st" where
  "xen_shm_pipe_flush env st =
    (if pshared (priv st) = None then (-1, st\<lparr>errno := EMEDIUMTYPE\<rparr>)
     else
       let st = observe env st
       in if flag_set (xen_shm_pipe_get_flags (priv st) False (shm st)) XSHMP_CLOSED
          then (-1, st\<lparr>errno := EPIPE\<rparr>)
          else xen_shm_pipe_send_signal env st)"

definition xen_shm_pipe_get_stats :: "pipe_st \<Rightarrow> xen_shm_pipe_stats" where
  "xen_shm_pipe_get_stats st = stats (priv st)"

section \<open>One call\<close>

text \<open>Why a reader (a writer) gets less than one byte.\<close>

definition reader_stop :: "pipe_env \<Rightarrow> int \<Rightarrow> pipe_st \<Rightarrow> bool" where
  "reader_stop env r st \<longleftrightarrow>
     r = 0 \<and> in_transit (shm st) = [] \<and> flag_set (writer_flags (shm st)) XSHMP_CLOSED
     \<or> r = -1 \<and> errno_reported env st"

definition writer_stop :: "pipe_env \<Rightarrow> int \<Rightarrow> pipe_st \<Rightarrow> bool" where
  "writer_stop env r st \<longleftrightarrow>
     r = -1 \<and> (errno_reported env st \<or> flag_set (reader_flags (shm st)) XSHMP_CLOSED)"

definition connected_reader :: "nat \<Rightarrow> pipe_st \<Rightarrow> bool" where
  "connected_reader n st \<longleftrightarrow> pipe_wf n st \<and> pmod (priv st) = xen_shm_pipe_mod_read
     \<and> \<not> flag_set (reader_flags (shm st)) XSHMP_CLOSED"

definition connected_writer :: "nat \<Rightarrow> pipe_st \<Rightarrow> bool" where
  "connected_writer n st \<longleftrightarrow> pipe_wf n st \<and> pmod (priv st) = xen_shm_pipe_mod_write"

lemma count_stats_passive:
  assumes "pipe_wf n st"
  shows "reader_passive n st (st\<lparr>priv := (priv st)\<lparr>stats := x\<rparr>\<rparr>)"
    "writer_passive n st (st\<lparr>priv := (priv st)\<lparr>stats := x\<rparr>\<rparr>)"
  using assms by (simp_all add: reader_passive_def writer_passive_def same_pipe_def reader_flow_def
      writer_flow_def pipe_wf_def acts_keep reader_rg.acts_refl writer_rg.acts_refl)

lemma reader_flow_reader_flags [simp]:
  "(\<And>w. flag_set (f w) XSHMP_CLOSED = flag_set w XSHMP_CLOSED) \<Longrightarrow>
    reader_flow xs a (upd_reader_flags f b) = reader_flow xs a b"
  by (simp add: reader_flow_def acts_flags)

lemma writer_flow_writer_flags [simp]:
  "(\<And>w. flag_set (f w) XSHMP_CLOSED = flag_set w XSHMP_CLOSED) \<Longrightarrow>
    writer_flow xs a (upd_writer_flags f b) = writer_flow xs a b"
  by (simp add: writer_flow_def acts_flags)

lemma same_pipe_flags [simp]:
  "same_pipe a (upd_reader_flags f b) = same_pipe a b" "same_pipe a (upd_writer_flags f b) = same_pipe a b"
  by (simp_all add: same_pipe_def)

lemma pipe_wf_flags [simp]:
  "pipe_wf n (upd_reader_flags f b) = pipe_wf n b" "pipe_wf n (upd_writer_flags f b) = pipe_wf n b"
  by (simp_all add: pipe_wf_def)

lemma reader_stop_flags [simp]: "reader_stop env r (upd_reader_flags f st) = reader_stop env r st"
  by (simp add: reader_stop_def errno_reported_def)

lemma writer_stop_flags [simp]: "writer_stop env r (upd_writer_flags f st) = writer_stop env r st"
  by (simp add: writer_stop_def errno_reported_def)

text \<open>What a call of \<^verbatim>\<open>xen_shm_pipe_read\<close> (of \<^verbatim>\<open>xen_shm_pipe_write\<close>) has done when it returns \<open>r\<close>.\<close>

definition read_post :: "nat \<Rightarrow> pipe_env \<Rightarrow> memory \<Rightarrow> nat \<Rightarrow> pipe_st \<Rightarrow> int \<times> memory \<times> pipe_st \<Rightarrow> bool" where
  "read_post n env buf nbytes st = (\<lambda>(r, buf', st').
     connected_reader n st' \<and> same_pipe st st' \<and> reader_flow (take (nat r) buf') st st'
   \<and> r \<le> int nbytes \<and> length buf' = length buf \<and> drop (nat r) buf' = drop (nat r) buf
   \<and> (0 < nbytes \<and> r \<le> 0 \<longrightarrow> reader_stop env r st')
   \<and> (0 < r \<longrightarrow> r = int nbytes \<or> int (length (in_transit (shm st))) \<le> r))"

definition write_post :: "nat \<Rightarrow> pipe_env \<Rightarrow> memory \<Rightarrow> nat \<Rightarrow> pipe_st \<Rightarrow> int \<times> pipe_st \<Rightarrow> bool" where
  "write_post n env buf nbytes st = (\<lambda>(r, st').
     connected_writer n st' \<and> same_pipe st st' \<and> writer_flow (take (nat r) buf) st st'
   \<and> r \<le> int nbytes \<and> (0 < nbytes \<and> r \<le> 0 \<longrightarrow> writer_stop env r st')
   \<and> (0 < r \<longrightarrow> r = int nbytes \<or> int n \<le> 1 + int (length (in_transit (shm st))) + r))"

text \<open>The state in which the call waits.\<close>

definition read_entry :: "pipe_st \<Rightarrow> pipe_st" where
  "read_entry st = upd_reader_flags (\<lambda>f. set_flag f XSHMP_ACTIVE) (st\<lparr>priv := (priv st)\<lparr>stats :=
     (stats (priv st))\<lparr>read_count := read_count (stats (priv st)) + 1\<rparr>\<rparr>\<rparr>)"

definition write_count_up :: "pipe_st \<Rightarrow> pipe_st" where
  "write_count_up st = st\<lparr>priv := (priv st)\<lparr>stats :=
     (stats (priv st))\<lparr>write_count := write_count (stats (priv st)) + 1\<rparr>\<rparr>\<rparr>"

definition write_entry :: "pipe_st \<Rightarrow> pipe_st" where
  "write_entry st = upd_writer_flags (\<lambda>f. set_flag f XSHMP_ACTIVE) (write_count_up st)"

lemma read_entry_passive: "pipe_wf n st \<Longrightarrow> reader_passive n st (read_entry st)"
  using count_stats_passive(1) by (simp add: read_entry_def passive_simps)

lemma write_entry_passive:
  "pipe_wf n st \<Longrightarrow> writer_passive n st (write_count_up st)"
  "pipe_wf n st \<Longrightarrow> writer_passive n st (write_entry st)"
  using count_stats_passive(2) by (simp_all add: write_entry_def write_count_up_def passive_simps)

lemma read_unfold:
  "connected_reader n st \<Longrightarrow> xen_shm_pipe_read env ub buf nbytes st =
    do { (w, st2) \<leftarrow> xen_shm_pipe_wait_reader env (read_entry st);
      (if w \<le> 0 then Some (w, buf, upd_reader_flags (\<lambda>f. clear_flag f XSHMP_ACTIVE) st2)
       else do { (k, buf, st) \<leftarrow> xen_shm_pipe_read_avail env ub buf nbytes st2;
         Some (int k, buf, upd_reader_flags (\<lambda>f. clear_flag f XSHMP_ACTIVE) st) }) }"
  by (auto simp: xen_shm_pipe_read_def connected_reader_def pipe_wf_def read_entry_def Let_def
      split: option.splits)

lemma write_unfold:
  "connected_writer n st \<Longrightarrow> xen_shm_pipe_write env ub buf nbytes st =
    (if flag_set (writer_flags (shm st)) XSHMP_CLOSED then Some (-1, (write_count_up st)\<lparr>errno := EPIPE\<rparr>)
     else do { (w, st2) \<leftarrow> xen_shm_pipe_wait_writer env (write_entry st);
      (if w \<le> 0 then Some (w, upd_writer_flags (\<lambda>f. clear_flag f XSHMP_ACTIVE) st2)
       else do { (k, st) \<leftarrow> xen_shm_pipe_write_avail env ub buf nbytes st2;
         Some (int k, upd_writer_flags (\<lambda>f. clear_flag f XSHMP_ACTIVE) st) }) })"
  by (auto simp: xen_shm_pipe_write_def connected_writer_def pipe_wf_def write_entry_def write_count_up_def
      Let_def split: option.splits)

lemma read_after_wait:
  assumes env: "env_writer n env" and conn: "connected_reader n st" and nb: "nbytes \<le> length buf"
    and wait: "xen_shm_pipe_wait_reader env (read_entry st) = Some (w, st2)"
  shows "\<exists>res. xen_shm_pipe_read env ub buf nbytes st = Some res \<and> read_post n env buf nbytes st res"
proof -
  have wf: "pipe_wf n st" using conn by (simp add: connected_reader_def)
  note p1 = read_entry_passive [OF wf]
  note post = wait_reader_partial [OF env reader_passive_wf [OF p1 wf] wait]
  have p2: "reader_passive n st st2"
    using post reader_passive_trans [OF p1] by (simp add: reader_wait_post_def)
  note wf2 = reader_passive_wf [OF p2 wf]
  let ?fin = "upd_reader_flags (\<lambda>f. clear_flag f XSHMP_ACTIVE)"
  have stay: "connected_reader n (?fin s)" if "pipe_wf n s" "same_pipe st s" "reader_flow xs st s" for s xs
    using that conn by (simp add: connected_reader_def same_pipe_def reader_flow_def)
  show ?thesis
  proof (cases "w \<le> 0")
    case True
    with post have "reader_stop env w st2" by (auto simp: reader_wait_post_def reader_stop_def)
    then have "read_post n env buf nbytes st (w, buf, ?fin st2)"
      using True p2 stay [OF wf2, of "[]"] by (simp add: reader_passive_def read_post_def)
    with True show ?thesis by (simp add: read_unfold [OF conn] wait)
  next
    case False
    with post have ne: "in_transit (shm st2) \<noteq> []" by (auto simp: reader_wait_post_def)
    obtain k buf' st3 where ra: "xen_shm_pipe_read_avail env ub buf nbytes st2 = Some (k, buf', st3)"
      and k: "k \<le> nbytes" "length buf' = length buf" "drop k buf' = drop k buf"
      and fl: "reader_flow (take k buf') st2 st3"
      and full: "k = nbytes \<or> length (in_transit (shm st2)) \<le> k" and wf3: "pipe_wf n st3" "same_pipe st2 st3"
      using read_avail_total [OF env wf2 nb] by metis
    have f: "reader_flow (take k buf') st st3" "same_pipe st st3"
      using p2 fl reader_flow_trans [of "[]" st st2 "take k buf'" st3] wf3(2) same_pipe_trans
      by (auto simp: reader_passive_def)
    have "\<not> (0 < nbytes \<and> k = 0)" using full ne by (cases "in_transit (shm st2)") auto
    moreover have "length (in_transit (shm st)) \<le> length (in_transit (shm st2))"
      using p2 reader_flow_length [of "[]" st st2] by (simp add: reader_passive_def)
    ultimately have "read_post n env buf nbytes st (int k, buf', ?fin st3)"
      using k f stay [OF wf3(1) f(2,1)] full wf3 by (auto simp: read_post_def)
    with False show ?thesis by (simp add: read_unfold [OF conn] wait ra)
  qed
qed

lemma write_after_wait:
  assumes env: "env_reader n env" and conn: "connected_writer n st" and nb: "nbytes \<le> length buf"
    and op: "\<not> flag_set (writer_flags (shm st)) XSHMP_CLOSED"
    and wait: "xen_shm_pipe_wait_writer env (write_entry st) = Some (w, st2)"
  shows "\<exists>res. xen_shm_pipe_write env ub buf nbytes st = Some res \<and> write_post n env buf nbytes st res"
proof -
  have wf: "pipe_wf n st" using conn by (simp add: connected_writer_def)
  note p1 = write_entry_passive(2) [OF wf]
  note post = wait_writer_partial [OF env writer_passive_wf [OF p1 wf] wait]
  have p2: "writer_passive n st st2"
    using post writer_passive_trans [OF p1] by (simp add: writer_wait_post_def)
  note wf2 = writer_passive_wf [OF p2 wf]
  let ?fin = "upd_writer_flags (\<lambda>f. clear_flag f XSHMP_ACTIVE)"
  have mode: "connected_writer n (?fin s)" if "pipe_wf n s" "same_pipe st s" for s
    using that conn by (simp add: connected_writer_def same_pipe_def)
  show ?thesis
  proof (cases "w \<le> 0")
    case True
    with post have "writer_stop env w st2" by (auto simp: writer_wait_post_def writer_stop_def)
    then have "write_post n env buf nbytes st (w, ?fin st2)"
      using True p2 mode [OF wf2] by (simp add: writer_passive_def write_post_def)
    with True op show ?thesis by (simp add: write_unfold [OF conn] wait)
  next
    case False
    with post have ne: "length (in_transit (shm st2)) + 1 < n" by (auto simp: writer_wait_post_def)
    obtain k st3 where wa: "xen_shm_pipe_write_avail env ub buf nbytes st2 = Some (k, st3)"
      and k: "k \<le> nbytes" and fl: "writer_flow (take k buf) st2 st3"
      and full: "k = nbytes \<or> n \<le> 1 + length (in_transit (shm st2)) + k"
      and wf3: "pipe_wf n st3" "same_pipe st2 st3"
      using write_avail_total [OF env wf2 nb] by metis
    have f: "writer_flow (take k buf) st st3" "same_pipe st st3"
      using p2 fl writer_flow_trans [of "[]" st st2 "take k buf" st3] wf3(2) same_pipe_trans
      by (auto simp: writer_passive_def)
    have "\<not> (0 < nbytes \<and> k = 0)" using full ne by auto
    moreover have "length (in_transit (shm st2)) \<le> length (in_transit (shm st))"
      using p2 writer_flow_length [of "[]" st st2] by (simp add: writer_passive_def)
    ultimately have "write_post n env buf nbytes st (int k, ?fin st3)"
      using k f mode [OF wf3(1) f(2)] full wf3 by (auto simp: write_post_def)
    with False op show ?thesis by (simp add: write_unfold [OF conn] wait wa)
  qed
qed

text \<open>Partial correctness, whatever the peer does, and total correctness when it makes progress.\<close>

lemma pipe_read_partial:
  assumes "env_writer n env" "connected_reader n st" "nbytes \<le> length buf"
    and "xen_shm_pipe_read env ub buf nbytes st = Some res"
  shows "read_post n env buf nbytes st res"
proof -
  from assms(4) obtain w st2 where "xen_shm_pipe_wait_reader env (read_entry st) = Some (w, st2)"
    by (auto simp: read_unfold [OF assms(2)] bind_eq_Some_conv)
  from read_after_wait [OF assms(1-3) this, of ub] assms(4) show ?thesis by auto
qed

lemma write_closed_post:
  assumes "connected_writer n st"
  shows "write_post n env buf nbytes st (-1, (write_count_up st)\<lparr>errno := EPIPE\<rparr>)"
proof -
  let ?st = "(write_count_up st)\<lparr>errno := EPIPE\<rparr>"
  have wf: "pipe_wf n st" using assms by (simp add: connected_writer_def)
  have "writer_passive n st ?st" using write_entry_passive(1) [OF wf] by (simp add: passive_simps)
  with assms writer_passive_wf [OF this wf] show ?thesis
    by (simp add: write_post_def writer_stop_def errno_reported_def writer_passive_def connected_writer_def
        same_pipe_def)
qed

lemma pipe_write_partial:
  assumes "env_reader n env" "connected_writer n st" "nbytes \<le> length buf"
    and "xen_shm_pipe_write env ub buf nbytes st = Some res"
  shows "write_post n env buf nbytes st res"
proof (cases "flag_set (writer_flags (shm st)) XSHMP_CLOSED")
  case True
  with assms write_closed_post [OF assms(2)] show ?thesis by (simp add: write_unfold [OF assms(2)])
next
  case False
  with assms(4) obtain w st2 where "xen_shm_pipe_wait_writer env (write_entry st) = Some (w, st2)"
    by (auto simp: write_unfold [OF assms(2)] bind_eq_Some_conv)
  from write_after_wait [OF assms(1-3) False this, of ub] assms(4) show ?thesis by auto
qed

lemma pipe_read_total:
  assumes "env_writer n env" "eventually_readable n env \<or> eventually_broken env"
    and "connected_reader n st" "nbytes \<le> length buf"
  shows "\<exists>res. xen_shm_pipe_read env ub buf nbytes st = Some res \<and> read_post n env buf nbytes st res"
proof -
  have wf: "pipe_wf n st" using assms(3) by (simp add: connected_reader_def)
  show ?thesis
    using wait_reader_total [OF assms(1) reader_passive_wf [OF read_entry_passive [OF wf] wf] assms(2)]
      read_after_wait [OF assms(1,3,4)] by metis
qed

lemma pipe_write_total:
  assumes "env_reader n env" "eventually_writable n env \<or> eventually_broken env"
    and "connected_writer n st" "nbytes \<le> length buf"
  shows "\<exists>res. xen_shm_pipe_write env ub buf nbytes st = Some res \<and> write_post n env buf nbytes st res"
proof (cases "flag_set (writer_flags (shm st)) XSHMP_CLOSED")
  case True
  with write_closed_post [OF assms(3)] show ?thesis by (simp add: write_unfold [OF assms(3)])
next
  case False
  have wf: "pipe_wf n st" using assms(3) by (simp add: connected_writer_def)
  show ?thesis
    using wait_writer_total [OF assms(1) writer_passive_wf [OF write_entry_passive(2) [OF wf] wf] assms(2)]
      write_after_wait [OF assms(1,3,4) False] by metis
qed

text \<open>A flush only looks at the area and signals.\<close>

lemma flush_passive:
  "env_writer n env \<Longrightarrow> pipe_wf n st \<Longrightarrow> reader_passive n st (snd (xen_shm_pipe_flush env st))"
  "env_reader n env \<Longrightarrow> pipe_wf n st \<Longrightarrow> writer_passive n st (snd (xen_shm_pipe_flush env st))"
proof -
  assume wf: "pipe_wf n st"
  then have conn: "pshared (priv st) \<noteq> None" "shared_wf n (shm st)" by (auto simp: pipe_wf_def split: option.splits)
  show "reader_passive n st (snd (xen_shm_pipe_flush env st))" if "env_writer n env"
    using that conn(1) reader_passive_observe [OF that conn(2)]
    by (auto simp: xen_shm_pipe_flush_def Let_def passive_simps simp del: observe_simps(5))
  show "writer_passive n st (snd (xen_shm_pipe_flush env st))" if "env_reader n env"
    using that conn(1) writer_passive_observe [OF that conn(2)]
    by (auto simp: xen_shm_pipe_flush_def Let_def passive_simps simp del: observe_simps(5))
qed

section \<open>Whole buffers\<close>

lemma xfer_loop_induct:
  assumes "xfer_loop xop ub s = Some t" "\<And>s. \<not> xfer_cond s \<Longrightarrow> P s s"
    and "\<And>s u t. xfer_cond s \<Longrightarrow> xfer_iter xop ub s = Some u \<Longrightarrow> P u t \<Longrightarrow> P s t"
  shows "P s t"
proof -
  let ?P = "\<lambda>xop' ub' s t. xop' = xop \<longrightarrow> ub' = ub \<longrightarrow> P s t"
  have "?P xop ub s t"
    by (rule xfer_loop.raw_induct [where P = ?P, OF _ assms(1)])
      (auto intro: assms(2,3) simp: bind_eq_Some_conv split: if_splits)
  then show ?thesis by blast
qed

interpretation xf: option_loop xfer_cond "xfer_iter xop ub" "xfer_loop xop ub" for xop ub
  by unfold_locales (rule xfer_loop.simps, rule xfer_loop_induct)

text \<open>
  The contract of the function that moves some bytes: it returns, keeps the end connected, and
  moves between one and \<open>nbytes\<close> bytes or gives a reason to stop.  Its loop then moves all the
  bytes, or stops for such a reason.
\<close>

locale pipe_transfer =
  fixes xop :: xfer_op
    and conn :: "pipe_st \<Rightarrow> bool"
    and flow :: "byte list \<Rightarrow> pipe_st \<Rightarrow> pipe_st \<Rightarrow> bool"
    and stop :: "int \<Rightarrow> pipe_st \<Rightarrow> bool"
  assumes op_total: "conn st \<Longrightarrow> 0 < nbytes \<Longrightarrow> nbytes \<le> length buf \<Longrightarrow>
      \<exists>r buf' st'. xop ub buf nbytes st = Some (r, buf', st') \<and> conn st' \<and> flow (take (nat r) buf') st st'
        \<and> r \<le> int nbytes \<and> length buf' = length buf \<and> drop (nat r) buf' = drop (nat r) buf
        \<and> (r \<le> 0 \<longrightarrow> stop r st')"
    and flow_refl: "flow [] st st"
    and flow_trans: "flow xs a b \<Longrightarrow> flow ys b c \<Longrightarrow> flow (xs @ ys) a c"
begin

definition xfer_inv :: "memory \<Rightarrow> nat \<Rightarrow> pipe_st \<Rightarrow> xfer_loc \<Rightarrow> bool" where
  "xfer_inv buf nbytes st l \<longleftrightarrow> conn (xf_st l) \<and> xf_done l + xf_left l = nbytes
     \<and> length (xf_buf l) = length buf \<and> drop (xf_done l) (xf_buf l) = drop (xf_done l) buf
     \<and> flow (take (xf_done l) (xf_buf l)) st (xf_st l)
     \<and> (case xf_ret l of None \<Rightarrow> True
         | Some r \<Rightarrow> xf_done l < nbytes \<and> (\<exists>r0 \<le> 0. stop r0 (xf_st l)
             \<and> r = (if xf_done l = 0 then r0 else int (xf_done l))))"

lemma xfer_step:
  assumes inv: "xfer_inv buf nbytes st l" and cond: "xfer_cond l" and nb: "nbytes \<le> length buf"
  shows "\<exists>l'. xfer_iter xop ub l = Some l' \<and> xfer_inv buf nbytes st l'
    \<and> xf_left l' + (if xf_ret l' = None then 1 else 0) < xf_left l + (if xf_ret l = None then 1 else 0)"
proof -
  let ?d = "xf_done l"
  have l: "conn (xf_st l)" "?d + xf_left l = nbytes" "length (xf_buf l) = length buf" "0 < xf_left l"
    "xf_ret l = None" "flow (take ?d (xf_buf l)) st (xf_st l)"
    using inv cond by (auto simp: xfer_inv_def xfer_cond_def)
  with nb have "xf_left l \<le> length (drop ?d (xf_buf l))" by simp
  from op_total [OF l(1,4) this, of "ub + ?d"] obtain r b st' where
    call: "xop (ub + ?d) (drop ?d (xf_buf l)) (xf_left l) (xf_st l) = Some (r, b, st')"
    and post: "conn st'" "flow (take (nat r) b) (xf_st l) st'" "r \<le> int (xf_left l)"
      "length b = length (drop ?d (xf_buf l))" "drop (nat r) b = drop (nat r) (drop ?d (xf_buf l))"
      "r \<le> 0 \<longrightarrow> stop r st'" by blast
  have d: "?d \<le> length (xf_buf l)" using l nb by simp
  have "drop (nat r) b = drop (?d + nat r) buf"
    using post(5) inv by (simp add: xfer_inv_def) (metis add.commute drop_drop)
  note rest = this flow_trans [OF l(6) post(2)]
  let ?l = "l\<lparr>xf_buf := take ?d (xf_buf l) @ b, xf_st := st'\<rparr>"
  show ?thesis
  proof (cases "r \<le> 0")
    case True
    then show ?thesis
      using post l d call rest
      by (intro exI [of _ "?l\<lparr>xf_ret := Some (if ?d \<noteq> 0 then int ?d else r)\<rparr>"])
        (auto simp: xfer_iter_def xfer_inv_def)
  next
    case False
    then show ?thesis
      using post l d call rest
      by (intro exI [of _ "?l\<lparr>xf_done := ?d + nat r, xf_left := xf_left l - nat r\<rparr>"])
        (auto simp: xfer_iter_def xfer_inv_def)
  qed
qed

lemma xfer_total:
  assumes conn: "conn st" and nb: "nbytes \<le> length buf"
  obtains r k buf' st' where "xfer_all xop ub buf nbytes st = Some (r, buf', st')" "conn st'"
    and "k \<le> nbytes" "flow (take k buf') st st'" "length buf' = length buf" "drop k buf' = drop k buf"
    and "k = nbytes \<and> r = int nbytes
      \<or> k < nbytes \<and> (\<exists>r0 \<le> 0. stop r0 st' \<and> r = (if k = 0 then r0 else int k))"
proof -
  let ?l = "\<lparr>xf_done = 0, xf_left = nbytes, xf_buf = buf, xf_ret = None, xf_st = st\<rparr>"
  have init: "xfer_inv buf nbytes st ?l" using conn flow_refl by (simp add: xfer_inv_def)
  obtain l where loop: "xfer_loop xop ub ?l = Some l" and inv: "xfer_inv buf nbytes st l"
    and fin: "\<not> xfer_cond l"
    using xf.loop_total [where I = "xfer_inv buf nbytes st"
        and m = "\<lambda>l. xf_left l + (if xf_ret l = None then 1 else 0)", OF xfer_step [OF _ _ nb] init]
    by blast
  define r where "r = (case xf_ret l of Some r \<Rightarrow> r | None \<Rightarrow> int (xf_done l))"
  have "xfer_all xop ub buf nbytes st = Some (r, xf_buf l, xf_st l)"
    using loop by (simp add: xfer_all_def r_def)
  moreover have "xf_done l = nbytes \<and> r = int nbytes
      \<or> xf_done l < nbytes \<and> (\<exists>r0 \<le> 0. stop r0 (xf_st l) \<and> r = (if xf_done l = 0 then r0 else int (xf_done l)))"
    using inv fin unfolding xfer_inv_def xfer_cond_def r_def by (cases "xf_ret l") auto
  ultimately show ?thesis
    using that [of r "xf_buf l" "xf_st l" "xf_done l"] inv by (simp add: xfer_inv_def)
qed

end

text \<open>An end that is connected, with a peer that respects the protocol and makes progress.\<close>

definition reader_ready :: "nat \<Rightarrow> pipe_env \<Rightarrow> pipe_st \<Rightarrow> bool" where
  "reader_ready n env st \<longleftrightarrow> connected_reader n st \<and> env_writer n env
     \<and> (eventually_readable n env \<or> eventually_broken env)"

definition writer_ready :: "nat \<Rightarrow> pipe_env \<Rightarrow> pipe_st \<Rightarrow> bool" where
  "writer_ready n env st \<longleftrightarrow> connected_writer n st \<and> env_reader n env
     \<and> (eventually_writable n env \<or> eventually_broken env)"

interpretation read_tr: pipe_transfer "xen_shm_pipe_read env" "reader_ready n env" reader_flow "reader_stop env"
  for n env
proof
  fix st ub nbytes and buf :: memory
  assume "reader_ready n env st" "0 < nbytes" "nbytes \<le> length buf"
  with pipe_read_total [of n env st nbytes buf ub] obtain r buf' st' where
    "xen_shm_pipe_read env ub buf nbytes st = Some (r, buf', st')" "reader_ready n env st'"
    "read_post n env buf nbytes st (r, buf', st')"
    by (auto simp: reader_ready_def read_post_def)
  with \<open>0 < nbytes\<close>
  show "\<exists>r buf' st'. xen_shm_pipe_read env ub buf nbytes st = Some (r, buf', st') \<and> reader_ready n env st'
    \<and> reader_flow (take (nat r) buf') st st' \<and> r \<le> int nbytes \<and> length buf' = length buf
    \<and> drop (nat r) buf' = drop (nat r) buf \<and> (r \<le> 0 \<longrightarrow> reader_stop env r st')"
    by (auto simp: read_post_def)
qed (auto intro: reader_flow_trans)

interpretation write_tr: pipe_transfer "write_op env" "writer_ready n env" writer_flow "writer_stop env"
  for n env
proof
  fix st ub nbytes and buf :: memory
  assume "writer_ready n env st" "0 < nbytes" "nbytes \<le> length buf"
  with pipe_write_total [of n env st nbytes buf ub] obtain r st' where
    "xen_shm_pipe_write env ub buf nbytes st = Some (r, st')" "writer_ready n env st'"
    "write_post n env buf nbytes st (r, st')"
    by (auto simp: writer_ready_def write_post_def)
  with \<open>0 < nbytes\<close> show "\<exists>r buf' st'. write_op env ub buf nbytes st = Some (r, buf', st') \<and> writer_ready n env st'
    \<and> writer_flow (take (nat r) buf') st st' \<and> r \<le> int nbytes \<and> length buf' = length buf
    \<and> drop (nat r) buf' = drop (nat r) buf \<and> (r \<le> 0 \<longrightarrow> writer_stop env r st')"
    by (simp add: write_op_def write_post_def)
qed (auto intro: writer_flow_trans)

lemma write_all_keeps_buffer:
  assumes "xfer_all (write_op env) ub buf nbytes st = Some (r, buf', st')"
  shows "buf' = buf"
proof -
  obtain l where loop: "xfer_loop (write_op env) ub
      \<lparr>xf_done = 0, xf_left = nbytes, xf_buf = buf, xf_ret = None, xf_st = st\<rparr> = Some l" "buf' = xf_buf l"
    using assms by (auto simp: xfer_all_def bind_eq_Some_conv)
  have "xf_buf l = buf \<and> \<not> xfer_cond l"
    by (rule xf.loop_partial [OF loop(1)])
      (auto simp: xfer_iter_def write_op_def bind_eq_Some_conv Let_def split: if_splits)
  with loop(2) show ?thesis by simp
qed

section \<open>Connection\<close>

lemma int_sdiv: "int k sdiv 4 = int (k div 4)"
  by (cases k) (simp_all add: signed_divide_int_def zdiv_int)

text \<open>The buffer holds what the pages leave after the header, and is never empty.\<close>

lemma set_buffer_size_bounds:
  assumes "page_count \<noteq> 0"
  shows "unat (buffer_size (set_buffer_size page_count p)) = unat page_count * 4096 - 16"
    "wait_check_interval (set_buffer_size page_count p) = int ((unat page_count * 4096 - 16) div 4)"
proof -
  let ?b = "ucast page_count * 4096 - 16 :: u64"
  have u: "1 \<le> unat page_count" "unat page_count < 256"
    using assms unsigned_less [of page_count] by (simp_all add: unat_gt_0 Suc_le_eq)
  have c: "unat (ucast page_count :: u64) = unat page_count"
    using u by (simp add: unsigned_ucast_eq take_bit_eq_mod)
  have m: "unat (ucast page_count * 4096 :: u64) = unat page_count * 4096"
    using u c by (simp add: unat_word_ariths)
  then have "16 \<le> (ucast page_count * 4096 :: u64)"
    using u by (simp add: word_le_nat_alt)
  then have b: "unat ?b = unat page_count * 4096 - 16" using m by (simp add: unat_sub)
  then show "unat (buffer_size (set_buffer_size page_count p)) = unat page_count * 4096 - 16"
    by (simp add: set_buffer_size_def Let_def)
  have "sint ?b = int (unat ?b)" by (rule sint_small_u64, rule less_trans [of _ 1048576]) (use b u in auto)
  then have "sint ?b sdiv 4 = int ((unat page_count * 4096 - 16) div 4)"
    unfolding b by (simp only: int_sdiv)
  then show "wait_check_interval (set_buffer_size page_count p) = int ((unat page_count * 4096 - 16) div 4)"
    by (simp only: set_buffer_size_def Let_def of_nat_numeral) simp
qed

lemma map_bytes: "unat (ucast n * XEN_SHM_PIPE_PAGE_SIZE) = unat (n :: u8) * 4096"
proof -
  have "unat n < 256" using unsigned_less [of n] by simp
  then show ?thesis by (simp add: unat_word_ariths unsigned_ucast_eq take_bit_eq_mod)
qed

text \<open>What a successful connection has asked of the device, and what it has set up from the answers.\<close>

lemma offers_calls:
  assumes "xen_shm_pipe_offers env n d st = (0, out, st')"
  shows "out = Some (ucast (a_domid (answer env (tick st))), a_grant (answer env (tick st)))"
    "calls st' = calls st @ [Sys_init_offerer (fd (priv st)) n (ucast d), Sys_mmap (fd (priv st)) (unat n * 4096)]"
    "a_ret (answer env (tick st)) = 0" "a_ret (answer env (Suc (tick st))) \<noteq> -1"
    "priv st' = set_buffer_size n ((priv st)\<lparr>pshared := Some (a_addr (answer env (Suc (tick st))))\<rparr>)"
  using assms
  by (auto simp: xen_shm_pipe_offers_def xen_shm_pipe_map_shared_memory_def Let_def split_beta set_opened_def map_bytes
      simp del: xen_shm_pipe_is_offerer.simps split: if_splits)

lemma connect_calls:
  assumes "xen_shm_pipe_connect env n d g st = (0, st')"
  shows "calls st' = calls st @ [Sys_init_receiver (fd (priv st)) n (ucast d) g, Sys_mmap (fd (priv st)) (unat n * 4096)]"
    "a_ret (answer env (tick st)) = 0" "a_ret (answer env (Suc (tick st))) \<noteq> -1"
    "priv st' = set_buffer_size n ((priv st)\<lparr>pshared := Some (a_addr (answer env (Suc (tick st))))\<rparr>)"
  using assms
  by (auto simp: xen_shm_pipe_connect_def xen_shm_pipe_map_shared_memory_def Let_def split_beta set_opened_def map_bytes
      simp del: xen_shm_pipe_is_offerer.simps split: if_splits)

lemma is_offerer_priv [simp]:
  "xen_shm_pipe_is_offerer (p\<lparr>pshared := a\<rparr>) = xen_shm_pipe_is_offerer p"
  by simp

text \<open>The two calls a connection makes of the device, both successful, and the mapped memory.\<close>

definition device_connects :: "nat \<Rightarrow> pipe_env \<Rightarrow> pipe_st \<Rightarrow> bool" where
  "device_connects n env st \<longleftrightarrow> a_ret (answer env (tick st)) = 0 \<and> a_ret (answer env (Suc (tick st))) \<noteq> -1
     \<and> 4096 dvd a_addr (answer env (Suc (tick st)))
     \<and> length (buffer (interf env (Suc (tick st)) (interf env (tick st) (shm st)))) = n"

lemma offers_connected:
  assumes off: "xen_shm_pipe_is_offerer (priv st)" and pages: "page_count \<noteq> 0"
    and n: "n = unat page_count * 4096 - 16" and dev: "device_connects n env st"
  obtains st' where "xen_shm_pipe_offers env page_count receiver_domid st =
      (0, Some (ucast (a_domid (answer env (tick st))), a_grant (answer env (tick st))), st')"
    and "pipe_wf n st'" "in_transit (shm st') = []"
    and "xen_shm_pipe_get_flags (priv st') True (shm st') = XSHMP_OPENED"
    and "xen_shm_pipe_get_flags (priv st') False (shm st') = 0"
    and "pmod (priv st') = pmod (priv st)" "pshared (priv st') = Some (a_addr (answer env (Suc (tick st))))"
proof -
  note sizes = set_buffer_size_bounds [OF pages]
  have pc: "1 \<le> unat page_count" "unat page_count < 256"
    using pages unsigned_less [of page_count] by (simp_all add: unat_gt_0 Suc_le_eq)
  have al: "8 dvd a_addr (answer env (Suc (tick st)))"
    using dev dvd_trans [of "8 :: nat" 4096] by (simp add: device_connects_def)
  obtain st' where call: "xen_shm_pipe_offers env page_count receiver_domid st =
      (0, Some (ucast (a_domid (answer env (tick st))), a_grant (answer env (tick st))), st')"
    and p: "priv st' = set_buffer_size page_count ((priv st)\<lparr>pshared := Some (a_addr (answer env (Suc (tick st))))\<rparr>)"
    and s: "shm st' = xen_shm_pipe_upd_flags (priv st') True (\<lambda>f. set_flag f XSHMP_OPENED)
      ((interf env (Suc (tick st)) (interf env (tick st) (shm st)))
        \<lparr>reader_flags := 0, writer_flags := 0, sh_read := 0, sh_write := 0\<rparr>)"
    using off dev by (simp add: xen_shm_pipe_offers_def device_connects_def Let_def split_beta
        xen_shm_pipe_map_shared_memory_def set_opened_def)
  have sw: "shared_wf n (shm st')"
    using dev n pc s by (auto simp: shared_wf_def device_connects_def xen_shm_pipe_upd_flags_def)
  have "pipe_wf n st'"
    using sw sizes n pc al p by (auto simp: pipe_wf_def set_buffer_size_def Let_def)
  moreover have "in_transit (shm st') = []"
    using in_transit_Nil_iff [OF sw] s by (simp add: xen_shm_pipe_upd_flags_def)
  ultimately show ?thesis
    using that [OF call] s p
    by (auto simp: xen_shm_pipe_get_flags_def xen_shm_pipe_upd_flags_def set_flag_def set_buffer_size_def Let_def)
qed

lemma connect_connected:
  assumes off: "\<not> xen_shm_pipe_is_offerer (priv st)" and pages: "page_count \<noteq> 0"
    and n: "n = unat page_count * 4096 - 16" and dev: "device_connects n env st"
  defines "s \<equiv> interf env (Suc (tick st)) (interf env (tick st) (shm st))"
  assumes s: "shared_wf n s"
  obtains st' where "xen_shm_pipe_connect env page_count offerer_domid grant st = (0, st')"
    and "pipe_wf n st'" "in_transit (shm st') = in_transit s"
    and "flag_set (xen_shm_pipe_get_flags (priv st') True (shm st')) XSHMP_OPENED"
    and "pmod (priv st') = pmod (priv st)"
proof -
  note sizes = set_buffer_size_bounds [OF pages]
  have pc: "1 \<le> unat page_count" "unat page_count < 256"
    using pages unsigned_less [of page_count] by (simp_all add: unat_gt_0 Suc_le_eq)
  have al: "8 dvd a_addr (answer env (Suc (tick st)))"
    using dev dvd_trans [of "8 :: nat" 4096] by (simp add: device_connects_def)
  obtain st' where call: "xen_shm_pipe_connect env page_count offerer_domid grant st = (0, st')"
    and p: "priv st' = set_buffer_size page_count ((priv st)\<lparr>pshared := Some (a_addr (answer env (Suc (tick st))))\<rparr>)"
    and sh: "shm st' = xen_shm_pipe_upd_flags (priv st') True (\<lambda>f. set_flag f XSHMP_OPENED) s"
    using off dev by (simp add: xen_shm_pipe_connect_def device_connects_def Let_def split_beta
        xen_shm_pipe_map_shared_memory_def set_opened_def s_def)
  have "pipe_wf n st'"
    using s sh sizes n pc al p by (auto simp: pipe_wf_def set_buffer_size_def Let_def xen_shm_pipe_upd_flags_def)
  then show ?thesis
    using that [OF call] sh p flag_set_set [of XSHMP_OPENED]
    by (auto simp: xen_shm_pipe_get_flags_def xen_shm_pipe_upd_flags_def set_buffer_size_def Let_def)
qed

section \<open>Properties\<close>

lemma small_end_connected:
  "connected_reader 8 (small_end xen_shm_pipe_mod_read small_area)"
  "connected_writer 8 (small_end xen_shm_pipe_mod_write small_area)"
  by (simp_all add: connected_reader_def connected_writer_def small_end_wf small_area_wf)
    (simp add: small_area_def flag_set_def)

lemma small_end_ready:
  "reader_ready 8 (quiet_env epipe_answer) (small_end xen_shm_pipe_mod_read small_area)"
  "writer_ready 8 (quiet_env epipe_answer) (small_end xen_shm_pipe_mod_write small_area)"
  by (simp_all add: reader_ready_def writer_ready_def small_end_connected epipe_answer_broken)







text \<open>\<^verbatim>\<open>xen_shm_pipe_write_all\<close> terminates; it appends the first \<open>k\<close> bytes of the user buffer to the
  stream, and either \<open>k\<close> is all that was asked for, and is returned, or a write failed: then \<open>k\<close> is
  returned, or -1 if \<open>k\<close> is 0.\<close>

theorem pipe_write_all_correct:
  assumes "writer_ready n env st" "nbytes \<le> length buf"
  shows "\<exists>r k st'. xen_shm_pipe_write_all env ub buf nbytes st = Some (r, st')
    \<and> writer_flow (take k buf) st st'
    \<and> (k = nbytes \<and> r = int nbytes
      \<or> k < nbytes \<and> (\<exists>r0 \<le> 0. writer_stop env r0 st' \<and> r = (if k = 0 then r0 else int k)))"
proof -
  obtain r k buf' st' where "xfer_all (write_op env) ub buf nbytes st = Some (r, buf', st')"
    and "writer_flow (take k buf') st st'"
    and "k = nbytes \<and> r = int nbytes
      \<or> k < nbytes \<and> (\<exists>r0 \<le> 0. writer_stop env r0 st' \<and> r = (if k = 0 then r0 else int k))"
    by (rule write_tr.xfer_total [OF assms, of ub])
  then show ?thesis
    using write_all_keeps_buffer [of env ub buf nbytes st r buf' st']
    by (intro exI [of _ r] exI [of _ k] exI [of _ st']) (simp add: xen_shm_pipe_write_all_def)
qed

theorem pipe_write_all_correct_witness:
  "\<exists>r k st'. xen_shm_pipe_write_all (quiet_env epipe_answer) 0 [1, 2, 3, 4, 5, 6] 6
        (small_end xen_shm_pipe_mod_write small_area) = Some (r, st')
    \<and> writer_flow (take k [1, 2, 3, 4, 5, 6]) (small_end xen_shm_pipe_mod_write small_area) st'
    \<and> (k = 6 \<and> r = int 6
      \<or> k < 6 \<and> (\<exists>r0 \<le> 0. writer_stop (quiet_env epipe_answer) r0 st' \<and> r = (if k = 0 then r0 else int k)))"
  by (rule pipe_write_all_correct [where n = 8]) (simp_all add: small_end_ready)

text \<open>An offerer whose device calls succeed is connected: \<^verbatim>\<open>xen_shm_pipe_offers\<close> returns 0 with
  the domain and the grant reference of the device, the buffer is what the pages leave after the
  header, with an interval of at least 1020 bytes between checks, the pipe is empty, and only
  the offerer's own flags say that it is open.\<close>

theorem offers_establishes_pipe:
  assumes "xen_shm_pipe_is_offerer (priv st)" "page_count \<noteq> 0"
    and "n = unat page_count * 4096 - 16" "device_connects n env st"
  shows "\<exists>st'. xen_shm_pipe_offers env page_count receiver_domid st =
      (0, Some (ucast (a_domid (answer env (tick st))), a_grant (answer env (tick st))), st')
    \<and> pipe_wf n st' \<and> 4080 \<le> n \<and> in_transit (shm st') = []
    \<and> xen_shm_pipe_get_flags (priv st') True (shm st') = XSHMP_OPENED
    \<and> xen_shm_pipe_get_flags (priv st') False (shm st') = 0"
proof -
  have "1 \<le> unat page_count" using assms(2) by (simp add: unat_gt_0 Suc_le_eq)
  then have "4080 \<le> n" using assms(3) by simp
  then show ?thesis by (rule_tac offers_connected [OF assms]) blast
qed

text \<open>Memory of one page behind an answer of the device.\<close>

definition one_page_env :: pipe_env where
  "one_page_env = \<lparr>interf = \<lambda>_ s. s\<lparr>buffer := replicate 4080 0, sh_read := 0, sh_write := 0\<rparr>,
     answer = \<lambda>t. \<lparr>a_ret = 0, a_errno = 0, a_addr = 4096, a_domid = 7, a_grant = 9, a_remaining = 1\<rparr>\<rparr>"

theorem offers_establishes_pipe_witness:
  "\<exists>st'. xen_shm_pipe_offers one_page_env 1 5 (small_end xen_shm_pipe_mod_write small_area) =
      (0, Some (ucast (a_domid (answer one_page_env (tick (small_end xen_shm_pipe_mod_write small_area)))),
        a_grant (answer one_page_env (tick (small_end xen_shm_pipe_mod_write small_area)))), st')
    \<and> pipe_wf 4080 st' \<and> (4080 :: nat) \<le> 4080 \<and> in_transit (shm st') = []
    \<and> xen_shm_pipe_get_flags (priv st') True (shm st') = XSHMP_OPENED
    \<and> xen_shm_pipe_get_flags (priv st') False (shm st') = 0"
  by (rule offers_establishes_pipe)
    (simp_all add: device_connects_def one_page_env_def small_end_def)

text \<open>An end that is not the offerer and whose device calls succeed is connected by
  \<^verbatim>\<open>xen_shm_pipe_connect\<close> to the bytes in transit in the area it maps, and marks itself open.\<close>

theorem connect_joins_pipe:
  assumes "\<not> xen_shm_pipe_is_offerer (priv st)" "page_count \<noteq> 0"
    and "n = unat page_count * 4096 - 16" "device_connects n env st"
    and "shared_wf n (interf env (Suc (tick st)) (interf env (tick st) (shm st)))"
  shows "\<exists>st'. xen_shm_pipe_connect env page_count offerer_domid grant st = (0, st') \<and> pipe_wf n st'
    \<and> in_transit (shm st') = in_transit (interf env (Suc (tick st)) (interf env (tick st) (shm st)))
    \<and> flag_set (xen_shm_pipe_get_flags (priv st') True (shm st')) XSHMP_OPENED"
  by (rule connect_connected [OF assms]) blast

theorem connect_joins_pipe_witness:
  "\<exists>st'. xen_shm_pipe_connect one_page_env 1 5 9 (small_end xen_shm_pipe_mod_read small_area) = (0, st')
    \<and> pipe_wf 4080 st'
    \<and> in_transit (shm st') = in_transit (interf one_page_env
        (Suc (tick (small_end xen_shm_pipe_mod_read small_area)))
        (interf one_page_env (tick (small_end xen_shm_pipe_mod_read small_area))
          (shm (small_end xen_shm_pipe_mod_read small_area))))
    \<and> flag_set (xen_shm_pipe_get_flags (priv st') True (shm st')) XSHMP_OPENED"
  by (rule connect_joins_pipe)
    (simp_all add: device_connects_def one_page_env_def small_end_def shared_wf_def)

text \<open>An error return that did nothing.\<close>

definition refused :: "pipe_st \<Rightarrow> int \<Rightarrow> pipe_st \<Rightarrow> bool" where
  "refused st r st' \<longleftrightarrow> r = -1 \<and> errno st' = EMEDIUMTYPE \<and> calls st' = calls st \<and> shm st' = shm st"

text \<open>A call that does not fit the end is refused with \<^verbatim>\<open>EMEDIUMTYPE\<close>, makes no system call and
  leaves the shared area alone: reading on a writer or on an end that is not connected, writing
  on a reader or on such an end, flushing such an end, offering without being the
  offerer, connecting and asking for the domain as the offerer, and waiting for a peer without being
  a connected offerer.\<close>

theorem misuse_is_refused:
  "(pmod (priv st) = xen_shm_pipe_mod_write \<or> pshared (priv st) = None \<longrightarrow>
      (\<exists>st'. xen_shm_pipe_read env ub buf nbytes st = Some (-1, buf, st') \<and> refused st (-1) st'))
   \<and> (pmod (priv st) = xen_shm_pipe_mod_read \<or> pshared (priv st) = None \<longrightarrow>
      (\<exists>st'. xen_shm_pipe_write env ub buf nbytes st = Some (-1, st') \<and> refused st (-1) st'))
   \<and> (pshared (priv st) = None \<longrightarrow>
      (\<exists>st'. xen_shm_pipe_flush env st = (-1, st') \<and> refused st (-1) st'))
   \<and> (\<not> xen_shm_pipe_is_offerer (priv st) \<longrightarrow>
      (\<exists>st'. xen_shm_pipe_offers env pages domid st = (-1, None, st') \<and> refused st (-1) st'))
   \<and> (xen_shm_pipe_is_offerer (priv st) \<longrightarrow>
      (\<exists>st'. xen_shm_pipe_connect env pages domid grant st = (-1, st') \<and> refused st (-1) st')
      \<and> (\<exists>st'. xen_shm_pipe_getdomid env st = (-1, None, st') \<and> refused st (-1) st'))
   \<and> (\<not> xen_shm_pipe_is_offerer (priv st) \<or> pshared (priv st) = None \<longrightarrow>
      (\<exists>st'. xen_shm_pipe_wait env timeout st = (-1, st') \<and> refused st (-1) st'))"
  by (simp add: refused_def xen_shm_pipe_read_def xen_shm_pipe_write_def xen_shm_pipe_flush_def
      xen_shm_pipe_offers_def xen_shm_pipe_connect_def xen_shm_pipe_getdomid_def xen_shm_pipe_wait_def
      Let_def del: xen_shm_pipe_is_offerer.simps)

theorem misuse_is_refused_witness:
  "\<exists>st'. xen_shm_pipe_read (quiet_env epipe_answer) 0 [0] 1 (small_end xen_shm_pipe_mod_write small_area)
      = Some (-1, [0], st') \<and> refused (small_end xen_shm_pipe_mod_write small_area) (-1) st'"
  using misuse_is_refused [of "small_end xen_shm_pipe_mod_write small_area" "quiet_env epipe_answer" 0 "[0]" 1]
  by simp

lemma mapped_size:
  assumes "page_count \<noteq> 0"
  shows "unat (buffer_size (set_buffer_size page_count p) + of_nat sizeof_shared) = unat page_count * 4096"
proof -
  have u: "1 \<le> unat page_count" "unat page_count < 256"
    using assms unsigned_less [of page_count] by (simp_all add: unat_gt_0 Suc_le_eq)
  show ?thesis
    using set_buffer_size_bounds(1) [OF assms, of p] u by (simp add: unat_word_ariths)
qed

text \<open>\<^verbatim>\<open>xen_shm_pipe_free\<close> on an end whose sizes come from its connection sets the closed flag of
  this end, unmaps exactly the pages that were mapped, and closes the device; before a
  connection it only closes the device.\<close>

theorem free_closes_and_unmaps:
  assumes "page_count \<noteq> 0"
  shows "calls (xen_shm_pipe_free env (st\<lparr>priv := set_buffer_size page_count ((priv st)\<lparr>pshared := Some a\<rparr>)\<rparr>))
      = calls st @ [Sys_munmap a (unat page_count * 4096), Sys_close (fd (priv st))]
    \<and> (let st' = xen_shm_pipe_free (quiet_env ans) (st\<lparr>priv := (priv st)\<lparr>pshared := Some a\<rparr>\<rparr>)
       in flag_set (xen_shm_pipe_get_flags (priv st) True (shm st')) XSHMP_CLOSED
        \<and> in_transit (shm st') = in_transit (shm st))
    \<and> calls (xen_shm_pipe_free env (st\<lparr>priv := (priv st)\<lparr>pshared := None\<rparr>\<rparr>))
      = calls st @ [Sys_close (fd (priv st))]"
proof -
  let ?p = "set_buffer_size page_count ((priv st)\<lparr>pshared := Some a\<rparr>)"
  have "pshared ?p = Some a" "fd ?p = fd (priv st)" by (simp_all add: set_buffer_size_def Let_def)
  then show ?thesis
    using mapped_size [OF assms, of "(priv st)\<lparr>pshared := Some a\<rparr>"] flag_set_set [of XSHMP_CLOSED]
    by (simp add: xen_shm_pipe_free_def Let_def xen_shm_pipe_get_flags_def xen_shm_pipe_upd_flags_def)
qed

theorem free_closes_and_unmaps_witness:
  "calls (xen_shm_pipe_free one_page_env ((small_end xen_shm_pipe_mod_read small_area)\<lparr>priv :=
      set_buffer_size 2 ((priv (small_end xen_shm_pipe_mod_read small_area))\<lparr>pshared := Some 8192\<rparr>)\<rparr>))
    = [Sys_munmap 8192 8192, Sys_close 3]"
  using free_closes_and_unmaps [where page_count = 2 and env = one_page_env
      and st = "small_end xen_shm_pipe_mod_read small_area" and a = 8192]
  by (simp add: small_end_def)

end
