(* ===== verification/Udp_Proto.thy ===== *)
theory Udp_Proto
  imports Xen_Prelude
begin

text \<open>
  The datagrams of the connection protocol (\<^verbatim>\<open>xen_shm_udp_proto.h\<close>).  The sources lay a packed structure over a
  buffer of bytes and read and write its fields in place.  Here \<open>as_s b\<close> is the structure \<open>s\<close> seen at the start
  of the buffer \<open>b\<close> and \<open>upd_s f b\<close> the buffer after the structure has been changed by \<open>f\<close>; both agree
  on a byte layout, and writing back a structure that was not changed leaves the buffer alone.  Words of more than
  one byte have the least significant byte first, as on the machines Xen runs on; the fields are not
  converted to network order.
\<close>

section \<open>Constants\<close>

abbreviation (input) XEN_SHM_UDP_PROTO_VERSION :: u8 where "XEN_SHM_UDP_PROTO_VERSION \<equiv> 0x01"
abbreviation (input) XEN_SHM_UDP_PROTO_MAX_LEN :: nat where "XEN_SHM_UDP_PROTO_MAX_LEN \<equiv> 40"

abbreviation (input) XEN_SHM_UDP_PROTO_CLIENT_HELLO :: u8 where "XEN_SHM_UDP_PROTO_CLIENT_HELLO \<equiv> 0x01"
abbreviation (input) XEN_SHM_UDP_PROTO_SERVER_RESET :: u8 where "XEN_SHM_UDP_PROTO_SERVER_RESET \<equiv> 0x02"
abbreviation (input) XEN_SHM_UDP_PROTO_SERVER_GRANT :: u8 where "XEN_SHM_UDP_PROTO_SERVER_GRANT \<equiv> 0x03"
abbreviation (input) XEN_SHM_UDP_PROTO_CLIENT_RESET :: u8 where "XEN_SHM_UDP_PROTO_CLIENT_RESET \<equiv> 0x04"
abbreviation (input) XEN_SHM_UDP_PROTO_CLIENT_GRANT :: u8 where "XEN_SHM_UDP_PROTO_CLIENT_GRANT \<equiv> 0x05"

abbreviation (input) XEN_SHM_UDP_PROTO_GRANT_MODE_WRITER_OFFERER :: u8 where
  "XEN_SHM_UDP_PROTO_GRANT_MODE_WRITER_OFFERER \<equiv> 0x01"
abbreviation (input) XEN_SHM_UDP_PROTO_GRANT_MODE_READER_OFFERER :: u8 where
  "XEN_SHM_UDP_PROTO_GRANT_MODE_READER_OFFERER \<equiv> 0x02"

section \<open>Structures\<close>

record xen_shm_udp_proto_header =
  uh_version :: u8
  uh_message :: u8
  uh_reserved :: u16
  uh_big_reserved :: u32

record xen_shm_udp_proto_client_hello =
  uc_header :: xen_shm_udp_proto_header
  uc_domid :: u32

record xen_shm_udp_proto_grant =
  ug_header :: xen_shm_udp_proto_header
  ug_grant_ref :: u32
  ug_domid :: u32
  ug_mode :: u8
  ug_page_count :: u8

abbreviation (input) sizeof_header :: nat where "sizeof_header \<equiv> 8"
abbreviation (input) sizeof_client_hello :: nat where "sizeof_client_hello \<equiv> 12"
abbreviation (input) sizeof_grant :: nat where "sizeof_grant \<equiv> 18"

subsection \<open>Layout\<close>

definition u16_bytes :: "u16 \<Rightarrow> memory" where
  "u16_bytes w = [ucast w, ucast (drop_bit 8 w)]"

definition u32_bytes :: "u32 \<Rightarrow> memory" where
  "u32_bytes w = [ucast w, ucast (drop_bit 8 w), ucast (drop_bit 16 w), ucast (drop_bit 24 w)]"

definition u16_at :: "memory \<Rightarrow> nat \<Rightarrow> u16" where
  "u16_at b i = ucast (b ! i) OR push_bit 8 (ucast (b ! (i + 1)))"

definition u32_at :: "memory \<Rightarrow> nat \<Rightarrow> u32" where
  "u32_at b i = ucast (b ! i) OR push_bit 8 (ucast (b ! (i + 1))) OR push_bit 16 (ucast (b ! (i + 2)))
     OR push_bit 24 (ucast (b ! (i + 3)))"

definition header_bytes :: "xen_shm_udp_proto_header \<Rightarrow> memory" where
  "header_bytes h = [uh_version h, uh_message h] @ u16_bytes (uh_reserved h) @ u32_bytes (uh_big_reserved h)"

definition as_header :: "memory \<Rightarrow> xen_shm_udp_proto_header" where
  "as_header b = \<lparr>uh_version = b ! 0, uh_message = b ! 1, uh_reserved = u16_at b 2, uh_big_reserved = u32_at b 4\<rparr>"

definition client_hello_bytes :: "xen_shm_udp_proto_client_hello \<Rightarrow> memory" where
  "client_hello_bytes c = header_bytes (uc_header c) @ u32_bytes (uc_domid c)"

definition as_client_hello :: "memory \<Rightarrow> xen_shm_udp_proto_client_hello" where
  "as_client_hello b = \<lparr>uc_header = as_header b, uc_domid = u32_at b 8\<rparr>"

definition grant_bytes :: "xen_shm_udp_proto_grant \<Rightarrow> memory" where
  "grant_bytes g = header_bytes (ug_header g) @ u32_bytes (ug_grant_ref g) @ u32_bytes (ug_domid g)
     @ [ug_mode g, ug_page_count g]"

definition as_grant :: "memory \<Rightarrow> xen_shm_udp_proto_grant" where
  "as_grant b = \<lparr>ug_header = as_header b, ug_grant_ref = u32_at b 8, ug_domid = u32_at b 12,
     ug_mode = b ! 16, ug_page_count = b ! 17\<rparr>"

definition upd_header :: "(xen_shm_udp_proto_header \<Rightarrow> xen_shm_udp_proto_header) \<Rightarrow> memory \<Rightarrow> memory" where
  "upd_header f b = overwrite b 0 (header_bytes (f (as_header b)))"

definition upd_client_hello ::
  "(xen_shm_udp_proto_client_hello \<Rightarrow> xen_shm_udp_proto_client_hello) \<Rightarrow> memory \<Rightarrow> memory" where
  "upd_client_hello f b = overwrite b 0 (client_hello_bytes (f (as_client_hello b)))"

definition upd_grant :: "(xen_shm_udp_proto_grant \<Rightarrow> xen_shm_udp_proto_grant) \<Rightarrow> memory \<Rightarrow> memory" where
  "upd_grant f b = overwrite b 0 (grant_bytes (f (as_grant b)))"

text \<open>A datagram of \<open>d\<close> received into the buffer: at most its size.\<close>

definition receive_into :: "memory \<Rightarrow> memory \<Rightarrow> memory" where
  "receive_into b d = overwrite b 0 (take (length b) d)"

section \<open>Words\<close>

lemma byte_bit_bound: "bit (x :: byte) n \<Longrightarrow> n < 8"
  using bit_imp_le_length [of x n] by simp

lemma u16_join: "ucast (ucast (w :: u16) :: byte) OR push_bit 8 (ucast (ucast (drop_bit 8 w) :: byte)) = w"
  by (rule bit_word_eqI) (auto simp: bit_simps)

lemma u16_split:
  fixes p q :: byte
  defines "w \<equiv> ucast p OR push_bit 8 (ucast q) :: u16"
  shows "ucast w = p" "ucast (drop_bit 8 w) = q"
  unfolding w_def
  by (rule bit_word_eqI, auto simp: bit_simps dest: byte_bit_bound)+

lemma u32_join:
  "ucast (ucast (w :: u32) :: byte) OR push_bit 8 (ucast (ucast (drop_bit 8 w) :: byte))
     OR push_bit 16 (ucast (ucast (drop_bit 16 w) :: byte)) OR push_bit 24 (ucast (ucast (drop_bit 24 w) :: byte)) = w"
  by (rule bit_word_eqI, rename_tac n, case_tac "16 \<le> n"; case_tac "24 \<le> n") (auto simp: bit_simps)

lemma u32_split:
  fixes p q r s :: byte
  defines "w \<equiv> ucast p OR push_bit 8 (ucast q) OR push_bit 16 (ucast r) OR push_bit 24 (ucast s) :: u32"
  shows "ucast w = p" "ucast (drop_bit 8 w) = q" "ucast (drop_bit 16 w) = r" "ucast (drop_bit 24 w) = s"
  unfolding w_def
  by (rule bit_word_eqI, auto simp: bit_simps dest: byte_bit_bound)+

lemma u16_bytes_at: "u16_at (xs @ u16_bytes w @ ys) (length xs) = w"
  by (simp add: u16_at_def u16_bytes_def nth_append u16_join)

lemma u32_bytes_at: "u32_at (xs @ u32_bytes w @ ys) (length xs) = w"
  by (simp add: u32_at_def u32_bytes_def nth_append u32_join)

lemma u16_at_bytes: "u16_bytes (u16_at b i) = [b ! i, b ! (i + 1)]"
  unfolding u16_bytes_def u16_at_def by (simp only: u16_split)

lemma u32_at_bytes: "u32_bytes (u32_at b i) = [b ! i, b ! (i + 1), b ! (i + 2), b ! (i + 3)]"
  unfolding u32_bytes_def u32_at_def by (simp only: u32_split)

lemma length_bytes [simp]:
  "length (u16_bytes w) = 2" "length (u32_bytes v) = 4" "length (header_bytes h) = 8"
  "length (client_hello_bytes c) = 12" "length (grant_bytes g) = 18"
  by (simp_all add: u16_bytes_def u32_bytes_def header_bytes_def client_hello_bytes_def grant_bytes_def)

section \<open>Structures in a buffer\<close>

lemmas layout_defs = header_bytes_def client_hello_bytes_def grant_bytes_def

lemma as_header_bytes [simp]: "as_header (header_bytes h @ ys) = h"
proof -
  have "u16_at (header_bytes h @ ys) 2 = uh_reserved h"
    using u16_bytes_at [of "[uh_version h, uh_message h]"] by (simp add: header_bytes_def numeral_2_eq_2)
  moreover have "u32_at (header_bytes h @ ys) 4 = uh_big_reserved h"
    using u32_bytes_at [of "[uh_version h, uh_message h] @ u16_bytes (uh_reserved h)"] by (simp add: header_bytes_def)
  ultimately show ?thesis by (simp add: as_header_def header_bytes_def)
qed

lemma as_client_hello_bytes [simp]: "as_client_hello (client_hello_bytes c @ ys) = c"
  using u32_bytes_at [of "header_bytes (uc_header c)"]
  by (simp add: as_client_hello_def client_hello_bytes_def)

lemma as_grant_bytes [simp]: "as_grant (grant_bytes g @ ys) = g"
  using u32_bytes_at [of "header_bytes (ug_header g)" "ug_grant_ref g"]
    u32_bytes_at [of "header_bytes (ug_header g) @ u32_bytes (ug_grant_ref g)" "ug_domid g"]
  by (simp add: as_grant_def grant_bytes_def nth_append)

text \<open>The structures share their header.\<close>

lemma as_header_within [simp]:
  "as_header (client_hello_bytes c @ ys) = uc_header c" "as_header (grant_bytes g @ ys) = ug_header g"
  by (simp_all add: client_hello_bytes_def grant_bytes_def)

lemma header_of_view [simp]: "uc_header (as_client_hello b) = as_header b" "ug_header (as_grant b) = as_header b"
  by (simp_all add: as_client_hello_def as_grant_def)

lemma header_bytes_as: "8 \<le> length b \<Longrightarrow> header_bytes (as_header b) = take 8 b"
  by (rule nth_equalityI)
    (auto simp: header_bytes_def as_header_def u16_at_bytes u32_at_bytes less_Suc_eq numeral_eq_Suc)

lemma client_hello_bytes_as: "12 \<le> length b \<Longrightarrow> client_hello_bytes (as_client_hello b) = take 12 b"
  using take_add [of 8 4 b]
  by (simp add: client_hello_bytes_def as_client_hello_def header_bytes_as u32_at_bytes)
    (simp add: numeral_eq_Suc take_drop_Suc)

lemma grant_bytes_as: "18 \<le> length b \<Longrightarrow> grant_bytes (as_grant b) = take 18 b"
  using take_add [of 8 10 b]
  by (simp add: grant_bytes_def as_grant_def header_bytes_as u32_at_bytes)
    (simp add: numeral_eq_Suc take_drop_Suc)

lemma overwrite_0: "overwrite b 0 xs = xs @ drop (length xs) b"
  by (simp add: overwrite_def)

lemma upd_view [simp]:
  "as_header (upd_header f b) = f (as_header b)"
  "as_client_hello (upd_client_hello g b) = g (as_client_hello b)"
  "as_grant (upd_grant k b) = k (as_grant b)"
  "as_header (upd_client_hello g b) = uc_header (g (as_client_hello b))"
  "as_header (upd_grant k b) = ug_header (k (as_grant b))"
  by (simp_all add: upd_header_def upd_client_hello_def upd_grant_def overwrite_0)

text \<open>The fields behind the header do not see a change of the header.\<close>

lemma view_upd_header:
  "12 \<le> length b \<Longrightarrow> as_client_hello (upd_header f b) = (as_client_hello b)\<lparr>uc_header := f (as_header b)\<rparr>"
  "18 \<le> length b \<Longrightarrow> as_grant (upd_header f b) = (as_grant b)\<lparr>ug_header := f (as_header b)\<rparr>"
  by (simp_all add: as_client_hello_def as_grant_def)
    (simp_all add: upd_header_def overwrite_0 u32_at_def nth_append)

lemma length_upd [simp]:
  "8 \<le> length b \<Longrightarrow> length (upd_header f b) = length b"
  "12 \<le> length b \<Longrightarrow> length (upd_client_hello g b) = length b"
  "18 \<le> length b \<Longrightarrow> length (upd_grant k b) = length b"
  by (simp_all add: upd_header_def upd_client_hello_def upd_grant_def)

lemma length_receive [simp]: "length (receive_into b d) = length b"
  by (simp add: receive_into_def)

text \<open>What is sent of a buffer is the structure in it.\<close>

lemma take_view:
  "take 8 (upd_header f b) = header_bytes (f (as_header b))"
  "take 12 (upd_client_hello g b) = client_hello_bytes (g (as_client_hello b))"
  "take 18 (upd_grant k b) = grant_bytes (k (as_grant b))"
  by (simp_all add: upd_header_def upd_client_hello_def upd_grant_def overwrite_0)

text \<open>What was sent as a structure is received as that structure.\<close>

lemma receive_view [simp]:
  "12 \<le> length b \<Longrightarrow> as_client_hello (receive_into b (client_hello_bytes c)) = c"
  "18 \<le> length b \<Longrightarrow> as_grant (receive_into b (grant_bytes g)) = g"
  "8 \<le> length b \<Longrightarrow> as_header (receive_into b (header_bytes h)) = h"
  "12 \<le> length b \<Longrightarrow> as_header (receive_into b (client_hello_bytes c)) = uc_header c"
  "18 \<le> length b \<Longrightarrow> as_header (receive_into b (grant_bytes g)) = ug_header g"
  by (simp_all add: receive_into_def overwrite_0)

text \<open>A long enough datagram is seen in the buffer as it is.\<close>

lemma nth_receive: "n \<le> length d \<Longrightarrow> n \<le> length b \<Longrightarrow> i < n \<Longrightarrow> receive_into b d ! i = d ! i"
  by (simp add: receive_into_def overwrite_0 nth_append)

lemma as_receive:
  "8 \<le> length d \<Longrightarrow> 8 \<le> length b \<Longrightarrow> as_header (receive_into b d) = as_header d"
  "12 \<le> length d \<Longrightarrow> 12 \<le> length b \<Longrightarrow> as_client_hello (receive_into b d) = as_client_hello d"
  "18 \<le> length d \<Longrightarrow> 18 \<le> length b \<Longrightarrow> as_grant (receive_into b d) = as_grant d"
  by (simp_all add: as_header_def as_client_hello_def as_grant_def u16_at_def u32_at_def
      nth_receive [of 8] nth_receive [of 12] nth_receive [of 18])

section \<open>Property\<close>


definition small_header :: "u8 \<Rightarrow> xen_shm_udp_proto_header" where
  "small_header m = \<lparr>uh_version = 1, uh_message = m, uh_reserved = 258, uh_big_reserved = 4\<rparr>"

lemma small_header_fields [simp]: "uh_version (small_header m) = 1" "uh_message (small_header m) = m"
  by (simp_all add: small_header_def)

definition small_grant :: xen_shm_udp_proto_grant where
  "small_grant = \<lparr>ug_header = small_header 3, ug_grant_ref = 0x01020304, ug_domid = 5, ug_mode = 2, ug_page_count = 9\<rparr>"


end
