(* ===== verification/Conn_Process.thy ===== *)
theory Conn_Process
  imports Pipe_Api Udp_Proto
begin

text \<open>
  A process that uses several pipes and a UDP socket: what \<^verbatim>\<open>server_lib.c\<close> and \<^verbatim>\<open>client_lib.c\<close> share.

  A \<^verbatim>\<open>xen_shm_pipe_p\<close> is \<open>None\<close> for \<^verbatim>\<open>NULL\<close>, or the number of the call of \<^verbatim>\<open>xen_shm_pipe_init\<close> that made the
  pipe; \<open>pipes\<close> holds the pipes that are not freed, so that the use of a freed or of a null pipe has no result
  (\<open>None\<close>), and \<open>gone\<close> keeps the last state of those that are.  Blocks of \<^verbatim>\<open>calloc\<close> are numbered in the same way, and no number is used twice: every use
  after a free is visible.  Each pipe has its own device and peer, the parameters \<open>penv\<close>, and its own answer of
  \<^verbatim>\<open>malloc\<close> and initial memory.  Calls of the socket, thread, event and memory functions are appended to a trace; their
  answers are a parameter that may depend on the whole trace.
\<close>

section \<open>The process and its environment\<close>

record sockaddr_in =
  sin_port :: u16
  sin_addr :: u32

text \<open>The two bytes of a port change places.\<close>

definition htons :: "u16 \<Rightarrow> u16" where
  "htons w = push_bit 8 w OR drop_bit 8 w"

text \<open>\<^verbatim>\<open>struct xen_shm_handler_data\<close> of \<^verbatim>\<open>handler_lib.h\<close>; the private data is an address.\<close>

record xen_shm_handler_data =
  hd_receive_fd :: "nat option"
  hd_send_fd :: "nat option"
  hd_stop :: int
  hd_private_data :: nat

datatype net_call =
    N_socket
  | N_bind u16
  | N_sendto sockaddr_in memory
  | N_recv
  | N_shutdown
  | N_calloc
  | N_free nat
  | N_pipe_free nat
  | N_pthread_create nat xen_shm_handler_data
  | N_pthread_join nat
  | N_ev_timer_start
  | N_exit int

text \<open>\<open>n_dgram\<close> is the datagram that a receiving call finds, \<open>None\<close> for an error, \<open>n_from\<close> its source and
  \<open>n_addrlen\<close> the length of the address that the call reports.\<close>

record net_ans =
  n_ret :: int
  n_thread :: nat
  n_dgram :: "memory option"
  n_from :: sockaddr_in
  n_addrlen :: nat

record proc_env =
  penv :: "nat \<Rightarrow> pipe_env"
  pmalloc :: "nat \<Rightarrow> xen_shm_pipe_priv option"
  pstart :: "nat \<Rightarrow> pipe_st"
  nanswer :: "net_call list \<Rightarrow> net_call \<Rightarrow> net_ans"
  stack_buffer :: memory

record proc =
  pipes :: "nat \<rightharpoonup> pipe_st"
  made :: nat
  gone :: "nat \<rightharpoonup> pipe_st"
  blocks :: nat
  ntrace :: "net_call list"

definition ndo :: "proc_env \<Rightarrow> net_call \<Rightarrow> 'a proc_scheme \<Rightarrow> net_ans \<times> 'a proc_scheme" where
  "ndo env c P = (nanswer env (ntrace P) c, P\<lparr>ntrace := ntrace P @ [c]\<rparr>)"

text \<open>A call of \<^verbatim>\<open>recv\<close> or \<^verbatim>\<open>recvfrom\<close> on a buffer of the size of \<open>b\<close>: the length it returns and the buffer.
  A longer datagram is cut off.\<close>

definition received :: "net_ans \<Rightarrow> memory \<Rightarrow> int \<times> memory" where
  "received a b = (case n_dgram a of None \<Rightarrow> (-1, b) | Some d \<Rightarrow> (int (min (length b) (length d)), receive_into b d))"

text \<open>The result of \<^verbatim>\<open>calloc\<close> is a new block.\<close>

definition ncalloc :: "proc_env \<Rightarrow> 'a proc_scheme \<Rightarrow> nat option \<times> 'a proc_scheme" where
  "ncalloc env P =
    (let (a, P) = ndo env N_calloc P
     in if n_ret a = 0 then (None, P) else (Some (blocks P), P\<lparr>blocks := Suc (blocks P)\<rparr>))"

section \<open>The pipe library in the process\<close>

definition pr_init ::
  "proc_env \<Rightarrow> xen_shm_pipe_mod \<Rightarrow> xen_shm_pipe_conv \<Rightarrow> 'a proc_scheme \<Rightarrow> int \<times> nat option \<times> 'a proc_scheme" where
  "pr_init env m c P =
    (let k = made P; (r, st) = xen_shm_pipe_init (penv env k) (pmalloc env k) m c (pstart env k)
     in if r = 0 then (r, Some k, P\<lparr>made := Suc k, pipes := (pipes P)(k \<mapsto> st)\<rparr>)
        else (r, None, P\<lparr>made := Suc k\<rparr>))"

definition pr_getdomid :: "proc_env \<Rightarrow> nat option \<Rightarrow> 'a proc_scheme \<Rightarrow> (int \<times> u32 option \<times> 'a proc_scheme) option" where
  "pr_getdomid env p P =
    do {
      k \<leftarrow> p;
      st \<leftarrow> pipes P k;
      let (r, d, st) = xen_shm_pipe_getdomid (penv env k) st;
      Some (r, d, P\<lparr>pipes := (pipes P)(k \<mapsto> st)\<rparr>)
    }"

definition pr_offers ::
  "proc_env \<Rightarrow> nat option \<Rightarrow> u8 \<Rightarrow> u32 \<Rightarrow> 'a proc_scheme \<Rightarrow> (int \<times> (u32 \<times> u32) option \<times> 'a proc_scheme) option" where
  "pr_offers env p page_count receiver_domid P =
    do {
      k \<leftarrow> p;
      st \<leftarrow> pipes P k;
      let (r, out, st) = xen_shm_pipe_offers (penv env k) page_count receiver_domid st;
      Some (r, out, P\<lparr>pipes := (pipes P)(k \<mapsto> st)\<rparr>)
    }"

definition pr_connect ::
  "proc_env \<Rightarrow> nat option \<Rightarrow> u8 \<Rightarrow> u32 \<Rightarrow> u32 \<Rightarrow> 'a proc_scheme \<Rightarrow> (int \<times> 'a proc_scheme) option" where
  "pr_connect env p page_count offerer_domid grant P =
    do {
      k \<leftarrow> p;
      st \<leftarrow> pipes P k;
      let (r, st) = xen_shm_pipe_connect (penv env k) page_count offerer_domid grant st;
      Some (r, P\<lparr>pipes := (pipes P)(k \<mapsto> st)\<rparr>)
    }"

definition pr_free :: "proc_env \<Rightarrow> nat option \<Rightarrow> 'a proc_scheme \<Rightarrow> 'a proc_scheme option" where
  "pr_free env p P =
    do {
      k \<leftarrow> p;
      st \<leftarrow> pipes P k;
      Some (P\<lparr>pipes := (pipes P)(k := None),
        gone := (gone P)(k \<mapsto> xen_shm_pipe_free (penv env k) st), ntrace := ntrace P @ [N_pipe_free k]\<rparr>)
    }"

section \<open>Facts\<close>

text \<open>The pipes that are not freed have been made.\<close>

definition proc_wf :: "'a proc_scheme \<Rightarrow> bool" where
  "proc_wf P \<longleftrightarrow> (\<forall>k. pipes P k \<noteq> None \<longrightarrow> k < made P)"

lemma ndo_simps [simp]:
  "fst (ndo env c P) = nanswer env (ntrace P) c" "ntrace (snd (ndo env c P)) = ntrace P @ [c]"
  "pipes (snd (ndo env c P)) = pipes P" "made (snd (ndo env c P)) = made P"
  "blocks (snd (ndo env c P)) = blocks P" "gone (snd (ndo env c P)) = gone P"
  "proc.more (snd (ndo env c P)) = proc.more P"
  by (simp_all add: ndo_def)

lemma init_result:
  "fst (xen_shm_pipe_init env mal m c st) = 0 \<or> fst (xen_shm_pipe_init env mal m c st) = -1"
  by (auto simp: xen_shm_pipe_init_def split: option.splits prod.splits)

text \<open>A pipe that has been made is of the mode and convention asked for, open and not connected.\<close>

lemma init_made:
  assumes "xen_shm_pipe_init env mal m c st = (0, st')"
  shows "pmod (priv st') = m" "pconv (priv st') = c" "pshared (priv st') = None"
    "calls st' = calls st @ [Sys_open]" "tick st' = Suc (tick st)"
  using assms by (auto simp: xen_shm_pipe_init_def sys_call_def Let_def
      split: option.splits prod.splits if_splits)

lemma offers_fails:
  "xen_shm_pipe_offers env pc d st = (r, out, st') \<Longrightarrow> r \<noteq> 0 \<Longrightarrow> out = None"
  by (auto simp: xen_shm_pipe_offers_def Let_def split: if_splits prod.splits)

lemma getdomid_calls:
  assumes "xen_shm_pipe_getdomid env st = (r, d, st')"
  shows "r = 0 \<Longrightarrow> d = Some (ucast (a_domid (answer env (tick st))))" "r = 0 \<or> r = -1"
    "r = 0 \<Longrightarrow> calls st' = calls st @ [Sys_get_domid (fd (priv st))]" "priv st' = priv st"
    "r = 0 \<Longrightarrow> tick st' = Suc (tick st)" "r = 0 \<Longrightarrow> a_ret (answer env (tick st)) = 0"
  using assms by (auto simp: xen_shm_pipe_getdomid_def sys_call_def Let_def split: if_splits)

text \<open>The last thing a freed pipe did was to close the device.\<close>

lemma free_closes: "last (calls (xen_shm_pipe_free env st)) = Sys_close (fd (priv st))"
  by (simp add: xen_shm_pipe_free_def split_beta sys_call_def Let_def split: option.splits)

text \<open>A pipe of the process that has been made, by the \<open>k\<close>-th call, and has called the device for \<open>cs\<close> since, with success.\<close>

definition fresh_pipe :: "proc_env \<Rightarrow> nat \<Rightarrow> xen_shm_pipe_mod \<Rightarrow> syscall list \<Rightarrow> pipe_st \<Rightarrow> bool" where
  "fresh_pipe env k m cs st \<longleftrightarrow> pmod (priv st) = m \<and> calls st = calls (pstart env k) @ Sys_open # cs
     \<and> tick st = tick (pstart env k) + Suc (length cs)
     \<and> (\<forall>i < length cs. a_ret (answer (penv env k) (tick (pstart env k) + Suc i)) = 0)"

text \<open>The answer of the device to the first call after it has been opened.\<close>

definition second_answer :: "proc_env \<Rightarrow> nat \<Rightarrow> sys_answer" where
  "second_answer env k = answer (penv env k) (Suc (tick (pstart env k)))"

lemma fresh_answer: "fresh_pipe env k m [] st \<Longrightarrow> answer (penv env k) (tick st) = second_answer env k"
  by (simp add: fresh_pipe_def second_answer_def)

text \<open>A pipe of the process that is connected, after it has called the device for \<open>pre\<close>, by the request \<open>c\<close> for \<open>n\<close> pages and
  the mapping of as many.\<close>

definition pipe_connected :: "proc_env \<Rightarrow> nat \<Rightarrow> xen_shm_pipe_mod \<Rightarrow> syscall list \<Rightarrow> (int \<Rightarrow> syscall) \<Rightarrow> u8 \<Rightarrow> pipe_st \<Rightarrow> bool" where
  "pipe_connected env k m pre c n st \<longleftrightarrow>
    (let f = fd (priv st); t = tick (pstart env k) + Suc (length pre)
     in pmod (priv st) = m
      \<and> calls st = calls (pstart env k) @ Sys_open # pre @ [c f, Sys_mmap f (unat n * 4096)]
      \<and> (\<forall>i < length pre. a_ret (answer (penv env k) (tick (pstart env k) + Suc i)) = 0)
      \<and> a_ret (answer (penv env k) t) = 0 \<and> a_ret (answer (penv env k) (Suc t)) \<noteq> -1
      \<and> pshared (priv st) = Some (a_addr (answer (penv env k) (Suc t)))
      \<and> buffer_size (priv st) = ucast n * XEN_SHM_PIPE_PAGE_SIZE - of_nat sizeof_shared)"

lemma pipe_connected_offers:
  assumes "fresh_pipe env k m pre st" "xen_shm_pipe_offers (penv env k) n d st = (0, out, st')"
  shows "pipe_connected env k m pre (\<lambda>f. Sys_init_offerer f n (ucast d)) n st'" "fd (priv st') = fd (priv st)"
  using offers_calls [OF assms(2)] assms(1)
  by (simp_all add: pipe_connected_def fresh_pipe_def set_buffer_size_def Let_def)

lemma pipe_connected_connect:
  assumes "fresh_pipe env k m pre st" "xen_shm_pipe_connect (penv env k) n d g st = (0, st')"
  shows "pipe_connected env k m pre (\<lambda>f. Sys_init_receiver f n (ucast d) g) n st'" "fd (priv st') = fd (priv st)"
  using connect_calls [OF assms(2)] assms(1)
  by (simp_all add: pipe_connected_def fresh_pipe_def set_buffer_size_def Let_def)

lemma pr_init_cases:
  obtains (fail) "pr_init env m c P = (-1, None, P\<lparr>made := Suc (made P)\<rparr>)"
  | (ok) st where "pr_init env m c P = (0, Some (made P), P\<lparr>made := Suc (made P), pipes := (pipes P)(made P \<mapsto> st)\<rparr>)"
      "fresh_pipe env (made P) m [] st" "pconv (priv st) = c"
proof -
  obtain r st where r: "xen_shm_pipe_init (penv env (made P)) (pmalloc env (made P)) m c (pstart env (made P)) = (r, st)"
    by fastforce
  show ?thesis
  proof (cases "r = 0")
    case True
    with r init_made [of "penv env (made P)" "pmalloc env (made P)" m c "pstart env (made P)" st] show ?thesis
      by (intro ok [of st]) (auto simp: pr_init_def fresh_pipe_def Let_def)
  next
    case False
    with init_result [of "penv env (made P)" "pmalloc env (made P)" m c "pstart env (made P)"] r show ?thesis
      by (intro fail) (auto simp: pr_init_def Let_def)
  qed
qed

text \<open>A process in the domain \<open>dm\<close> in which every call succeeds; \<open>net\<close> says what is received after which calls.\<close>

definition small_answer :: "u16 \<Rightarrow> nat \<Rightarrow> nat \<Rightarrow> sys_answer" where
  "small_answer dm k t = \<lparr>a_ret = 0, a_errno = 0, a_addr = 4096, a_domid = dm, a_grant = of_nat (20 + k), a_remaining = 1\<rparr>"

definition small_proc_env :: "u16 \<Rightarrow> (net_call list \<Rightarrow> memory option) \<Rightarrow> proc_env" where
  "small_proc_env dm net = \<lparr>penv = \<lambda>k. quiet_env (small_answer dm k),
     pmalloc = \<lambda>_. Some (priv (small_end xen_shm_pipe_mod_read small_area)),
     pstart = \<lambda>_. small_end xen_shm_pipe_mod_read small_area,
     nanswer = \<lambda>tr c. \<lparr>n_ret = (case c of N_sendto _ d \<Rightarrow> int (length d) | N_pthread_create _ _ \<Rightarrow> 0 | _ \<Rightarrow> 1), n_thread = length tr,
       n_dgram = net tr, n_from = \<lparr>sin_port = 5000, sin_addr = 1\<rparr>, n_addrlen = 16\<rparr>,
     stack_buffer = replicate XEN_SHM_UDP_PROTO_MAX_LEN 0\<rparr>"

definition small_proc :: proc where
  "small_proc = \<lparr>pipes = Map.empty, made = 0, gone = Map.empty, blocks = 0, ntrace = []\<rparr>"

lemma small_proc_wf: "proc_wf small_proc"
  by (simp add: proc_wf_def small_proc_def)

text \<open>There every call of the pipe library succeeds.\<close>

lemma quiet_sys_call: "sys_call (quiet_env (small_answer d k)) c st = 
  (small_answer d k (tick st), (observe (quiet_env (small_answer d k)) st)\<lparr>calls := calls st @ [c]\<rparr>)"
  by (simp add: sys_call_def small_answer_def)

lemma small_init:
  "\<exists>st. pr_init (small_proc_env d net) m c P = (0, Some (made P), P\<lparr>made := Suc (made P), pipes := (pipes P)(made P \<mapsto> st)\<rparr>)
    \<and> pmod (priv st) = m \<and> pconv (priv st) = c"
proof (cases rule: pr_init_cases [of "small_proc_env d net" m c P])
  case fail
  moreover have "fst (pr_init (small_proc_env d net) m c P) = 0"
    by (simp add: pr_init_def xen_shm_pipe_init_def quiet_sys_call small_proc_env_def Let_def) (simp add: small_answer_def)
  ultimately show ?thesis by simp
next
  case (ok st)
  then show ?thesis by (auto simp: fresh_pipe_def)
qed

lemma small_offers: "xen_shm_pipe_is_offerer (priv st) \<Longrightarrow> \<exists>st'. xen_shm_pipe_offers (penv (small_proc_env d net) k) pc r st
   = (0, Some (ucast d, of_nat (20 + k)), st')"
  by (simp add: xen_shm_pipe_offers_def xen_shm_pipe_map_shared_memory_def quiet_sys_call small_proc_env_def Let_def)
   (simp add: small_answer_def)

lemma small_connect: "\<not> xen_shm_pipe_is_offerer (priv st) \<Longrightarrow> \<exists>st'. xen_shm_pipe_connect (penv (small_proc_env d net) k) pc r g st
   = (0, st')"
  by (simp add: xen_shm_pipe_connect_def xen_shm_pipe_map_shared_memory_def quiet_sys_call small_proc_env_def Let_def)
   (simp add: small_answer_def)

lemma small_getdomid: "\<not> xen_shm_pipe_is_offerer (priv st) \<Longrightarrow> \<exists>st'. xen_shm_pipe_getdomid (penv (small_proc_env d net) k) st
   = (0, Some (ucast d), st') \<and> priv st' = priv st"
  by (simp add: xen_shm_pipe_getdomid_def quiet_sys_call small_proc_env_def Let_def)
   (simp add: small_answer_def)

lemma small_net_answer:
  "n_ret (nanswer (small_proc_env d net) tr c) = (case c of N_sendto _ x \<Rightarrow> int (length x) | N_pthread_create _ _ \<Rightarrow> 0 | _ \<Rightarrow> 1)"
  "n_dgram (nanswer (small_proc_env d net) tr c) = net tr"
  by (simp_all add: small_proc_env_def)

end
