(* ===== verification/Client_Lib.thy ===== *)
theory Client_Lib
  imports Conn_Process
begin

text \<open>
  The client of the connection protocol (\<^verbatim>\<open>client_lib.c\<close>): it makes both pipes, says hello with its domain, connects
  its sending pipe to the memory the server granted, offers memory for its receiving pipe and tells the server
  which.  The labels at the end of \<^verbatim>\<open>init_pipe\<close>, which fall through, are functions that call the next one.
\<close>

section \<open>Definitions\<close>

text \<open>The first \<open>n\<close> bytes of the buffer are sent; the result is the return value of \<^verbatim>\<open>sendto\<close>.\<close>

definition send_buffer ::
  "proc_env \<Rightarrow> sockaddr_in \<Rightarrow> nat \<Rightarrow> memory \<Rightarrow> 'a proc_scheme \<Rightarrow> int \<times> 'a proc_scheme" where
  "send_buffer env addr n b P = (let (a, P) = ndo env (N_sendto addr (take n b)) P in (n_ret a, P))"

text \<open>The result of \<^verbatim>\<open>init_pipe\<close> is its return value, \<^verbatim>\<open>*receive_fd\<close>, \<^verbatim>\<open>*send_fd\<close> and the process.\<close>

type_synonym 'a conn_result = "(int \<times> nat option \<times> nat option \<times> 'a proc_scheme) option"

definition shutdown_socket :: "proc_env \<Rightarrow> nat option \<Rightarrow> nat option \<Rightarrow> 'a proc_scheme \<Rightarrow> 'a conn_result" where
  "shutdown_socket env rfd sfd P = Some (-1, rfd, sfd, snd (ndo env N_shutdown P))"

definition clean_receive_fd :: "proc_env \<Rightarrow> nat option \<Rightarrow> nat option \<Rightarrow> 'a proc_scheme \<Rightarrow> 'a conn_result" where
  "clean_receive_fd env rfd sfd P = do { P \<leftarrow> pr_free env rfd P; shutdown_socket env rfd sfd P }"

definition clean_send_fd :: "proc_env \<Rightarrow> nat option \<Rightarrow> nat option \<Rightarrow> 'a proc_scheme \<Rightarrow> 'a conn_result" where
  "clean_send_fd env rfd sfd P = do { P \<leftarrow> pr_free env sfd P; clean_receive_fd env rfd sfd P }"

definition cancel_server ::
  "proc_env \<Rightarrow> sockaddr_in \<Rightarrow> memory \<Rightarrow> nat option \<Rightarrow> nat option \<Rightarrow> 'a proc_scheme \<Rightarrow> 'a conn_result" where
  "cancel_server env addr b rfd sfd P =
    (let b = upd_header (\<lambda>h. h\<lparr>uh_message := XEN_SHM_UDP_PROTO_CLIENT_RESET\<rparr>) b;
         (_, P) = send_buffer env addr sizeof_header b P
     in clean_send_fd env rfd sfd P)"

text \<open>From the connection of the sending pipe to the end; \<open>b\<close> holds a grant of the server.\<close>

definition accept_grant ::
  "proc_env \<Rightarrow> sockaddr_in \<Rightarrow> u8 \<Rightarrow> memory \<Rightarrow> nat option \<Rightarrow> nat option \<Rightarrow> 'a proc_scheme \<Rightarrow> 'a conn_result" where
  "accept_grant env addr pages b rfd sfd P =
    do {
      let grant = as_grant b;
      (ret, P) \<leftarrow> pr_connect env sfd (ug_page_count grant) (ug_domid grant) (ug_grant_ref grant) P;
      (if ret \<noteq> 0 then cancel_server env addr b rfd sfd P
       else do {
         (ret, out, P) \<leftarrow> pr_offers env rfd pages (ug_domid grant) P;
         let b = (case out of None \<Rightarrow> b | Some (d, g) \<Rightarrow> upd_grant (\<lambda>x. x\<lparr>ug_domid := d, ug_grant_ref := g\<rparr>) b);
         (if ret \<noteq> 0 then cancel_server env addr b rfd sfd P
          else
            let b = upd_header (\<lambda>h. h\<lparr>uh_message := XEN_SHM_UDP_PROTO_CLIENT_GRANT\<rparr>) b;
                b = upd_grant (\<lambda>x. x\<lparr>ug_page_count := pages\<rparr>) b;
                (len, P) = send_buffer env addr sizeof_grant b P
            in if len < 0 then cancel_server env addr b rfd sfd P
               else if nat len \<noteq> sizeof_grant then cancel_server env addr b rfd sfd P
               else Some (0, rfd, sfd, snd (ndo env N_shutdown P)))
       })
    }"

text \<open>From the first message to the checks of the answer.\<close>

definition say_hello ::
  "proc_env \<Rightarrow> sockaddr_in \<Rightarrow> u8 \<Rightarrow> memory \<Rightarrow> nat option \<Rightarrow> nat option \<Rightarrow> 'a proc_scheme \<Rightarrow> 'a conn_result" where
  "say_hello env addr pages b rfd sfd P =
    (let (len, P) = send_buffer env addr sizeof_client_hello b P
     in if len < 0 then cancel_server env addr b rfd sfd P
     else if nat len \<noteq> sizeof_client_hello then cancel_server env addr b rfd sfd P
     else let (a, P) = ndo env N_recv P; (len, b) = received a b
     in if len \<le> 0 then cancel_server env addr b rfd sfd P
     else if uh_message (as_header b) = XEN_SHM_UDP_PROTO_SERVER_RESET then cancel_server env addr b rfd sfd P
     else if uh_message (as_header b) \<noteq> XEN_SHM_UDP_PROTO_SERVER_GRANT then cancel_server env addr b rfd sfd P
     else if nat len < sizeof_grant then cancel_server env addr b rfd sfd P
     else if ug_mode (as_grant b) = XEN_SHM_UDP_PROTO_GRANT_MODE_WRITER_OFFERER
       then cancel_server env addr b rfd sfd P
     else if ug_mode (as_grant b) = XEN_SHM_UDP_PROTO_GRANT_MODE_READER_OFFERER
       then accept_grant env addr pages b rfd sfd P
     else cancel_server env addr b rfd sfd P)"

text \<open>The buffer is filled in: zeros, then the header and the local domain, which the device tells.\<close>

definition greet ::
  "proc_env \<Rightarrow> sockaddr_in \<Rightarrow> u8 \<Rightarrow> nat option \<Rightarrow> nat option \<Rightarrow> 'a proc_scheme \<Rightarrow> 'a conn_result" where
  "greet env addr pages rfd sfd P =
    do {
      let b = replicate XEN_SHM_UDP_PROTO_MAX_LEN 0;
      let b = upd_header (\<lambda>h. h\<lparr>uh_version := XEN_SHM_UDP_PROTO_VERSION,
                uh_message := XEN_SHM_UDP_PROTO_CLIENT_HELLO\<rparr>) b;
      (ret, d, P) \<leftarrow> pr_getdomid env sfd P;
      let b = (case d of None \<Rightarrow> b | Some d \<Rightarrow> upd_client_hello (\<lambda>c. c\<lparr>uc_domid := d\<rparr>) b);
      (if ret \<noteq> 0 then clean_send_fd env rfd sfd P
       else say_hello env addr pages b rfd sfd P)
    }"

definition init_pipe ::
  "proc_env \<Rightarrow> u16 \<Rightarrow> u32 \<Rightarrow> nat option \<Rightarrow> nat option \<Rightarrow> u8 \<Rightarrow> 'a proc_scheme \<Rightarrow> 'a conn_result" where
  "init_pipe env distant_port distant_addr rfd sfd pages P =
    (let (a, P) = ndo env N_socket P
     in if n_ret a < 0 then Some (-1, rfd, sfd, P)
     else
       let addr = \<lparr>sin_port = htons distant_port, sin_addr = distant_addr\<rparr>;
           (ret, p, P) = pr_init env xen_shm_pipe_mod_read xen_shm_pipe_conv_reader_offers P
       in if ret \<noteq> 0 then shutdown_socket env rfd sfd P
       else
         let rfd = p; (ret, p, P) = pr_init env xen_shm_pipe_mod_write xen_shm_pipe_conv_reader_offers P
         in if ret \<noteq> 0 then clean_receive_fd env rfd sfd P
         else greet env addr pages rfd p P)"

text \<open>A handler is a parameter: it gets the connection and the process and returns a value and the process.
  Starting it in a thread returns the number of the thread.\<close>

type_synonym 'a handler_run = "xen_shm_handler_data \<Rightarrow> 'a proc_scheme \<Rightarrow> (nat \<times> 'a proc_scheme) option"

definition run_client_thread ::
  "proc_env \<Rightarrow> u16 \<Rightarrow> u32 \<Rightarrow> u8 \<Rightarrow> nat \<Rightarrow> xen_shm_handler_data \<Rightarrow> 'a proc_scheme
    \<Rightarrow> (int \<times> nat option \<times> xen_shm_handler_data \<times> 'a proc_scheme) option" where
  "run_client_thread env port addr pages handler_fct hdlr_data P =
    do {
      let h = hdlr_data\<lparr>hd_stop := 0\<rparr>;
      (ret, rfd, sfd, P) \<leftarrow> init_pipe env port addr (hd_receive_fd h) (hd_send_fd h) pages P;
      let h = h\<lparr>hd_receive_fd := rfd, hd_send_fd := sfd\<rparr>;
      (if ret \<noteq> 0 then Some (ret, None, h, P)
       else
         let (a, P) = ndo env (N_pthread_create handler_fct h) P
         in if n_ret a \<noteq> 0
            then do {
              P \<leftarrow> pr_free env (hd_receive_fd h) P;
              P \<leftarrow> pr_free env (hd_send_fd h) P;
              Some (n_ret a, None, h, P)
            }
            else Some (0, Some (n_thread a), h, P))
    }"

definition run_client ::
  "proc_env \<Rightarrow> u16 \<Rightarrow> u32 \<Rightarrow> u8 \<Rightarrow> 'a handler_run \<Rightarrow> xen_shm_handler_data \<Rightarrow> 'a proc_scheme
    \<Rightarrow> (int \<times> nat option \<times> xen_shm_handler_data \<times> 'a proc_scheme) option" where
  "run_client env port addr pages handler_fct hdlr_data P =
    do {
      let h = hdlr_data\<lparr>hd_stop := 0\<rparr>;
      (ret, rfd, sfd, P) \<leftarrow> init_pipe env port addr (hd_receive_fd h) (hd_send_fd h) pages P;
      let h = h\<lparr>hd_receive_fd := rfd, hd_send_fd := sfd\<rparr>;
      (if ret \<noteq> 0 then Some (ret, None, h, P)
       else do {
         (v, P) \<leftarrow> handler_fct h P;
         Some (0, Some v, h, P)
       })
    }"

section \<open>The way out\<close>

text \<open>The messages among the calls.\<close>

definition sent :: "net_call list \<Rightarrow> memory list" where
  "sent tr = [d. N_sendto _ d \<leftarrow> tr]"

lemma sent_simps [simp]:
  "sent [] = []" "sent (N_sendto a d # tr) = d # sent tr" "sent (xs @ ys) = sent xs @ sent ys"
  "sent (N_socket # tr) = sent tr" "sent (N_recv # tr) = sent tr" "sent (N_shutdown # tr) = sent tr"
  "sent (N_pipe_free k # tr) = sent tr"
  by (simp_all add: sent_def)

text \<open>What a failed attempt leaves: the pipes are the ones from before, and whenever a message was sent, the last one
  is the reset.\<close>

definition conn_failed :: "'a proc_scheme \<Rightarrow> 'a proc_scheme \<Rightarrow> bool" where
  "conn_failed P P' \<longleftrightarrow> pipes P' = pipes P \<and> made P \<le> made P' \<and> (\<exists>tr. ntrace P' = ntrace P @ tr
     \<and> (sent tr = [] \<or> (\<exists>h. last (sent tr) = header_bytes h \<and> uh_message h = XEN_SHM_UDP_PROTO_CLIENT_RESET)))"

text \<open>Two pipes, made after \<open>P\<close>, that the attempt still has to free.\<close>

definition two_pipes :: "nat \<Rightarrow> 'a proc_scheme \<Rightarrow> 'a proc_scheme \<Rightarrow> bool" where
  "two_pipes k P P' \<longleftrightarrow> (\<exists>x y. pipes P' = (pipes P)(k \<mapsto> x, Suc k \<mapsto> y)) \<and> pipes P k = None \<and> pipes P (Suc k) = None
     \<and> made P \<le> made P' \<and> (\<exists>tr. ntrace P' = ntrace P @ tr)"

lemma two_pipes_send:
  "two_pipes k P P' \<Longrightarrow> two_pipes k P (snd (send_buffer env a n b P'))"
  "two_pipes k P P' \<Longrightarrow> two_pipes k P (snd (ndo env c P'))"
  by (auto simp: two_pipes_def send_buffer_def Let_def split_beta)

lemma two_pipes_upd:
  "two_pipes k P P' \<Longrightarrow> two_pipes k P (P'\<lparr>pipes := (pipes P')(Suc k \<mapsto> z)\<rparr>)"
  "two_pipes k P P' \<Longrightarrow> two_pipes k P (P'\<lparr>pipes := (pipes P')(k \<mapsto> z)\<rparr>)"
  by (fastforce simp: two_pipes_def)+

lemma clean_send_run:
  assumes "two_pipes k P P'"
  obtains P'' where "clean_send_fd env (Some k) (Some (Suc k)) P' = Some (-1, Some k, Some (Suc k), P'')"
    and "pipes P'' = pipes P" "made P'' = made P'"
    and "ntrace P'' = ntrace P' @ [N_pipe_free (Suc k), N_pipe_free k, N_shutdown]"
proof -
  from assms obtain x y where "pipes P' = (pipes P)(k \<mapsto> x, Suc k \<mapsto> y)" "pipes P k = None" "pipes P (Suc k) = None"
    by (auto simp: two_pipes_def)
  then show ?thesis
    by (intro that [of "snd (ndo env N_shutdown (P'\<lparr>pipes := pipes P,
          gone := (gone P')(k \<mapsto> xen_shm_pipe_free (penv env k) x, Suc k \<mapsto> xen_shm_pipe_free (penv env (Suc k)) y),
          ntrace := ntrace P' @ [N_pipe_free (Suc k), N_pipe_free k]\<rparr>))"])
      (simp_all add: clean_send_fd_def clean_receive_fd_def shutdown_socket_def pr_free_def fun_upd_idem
        fun_upd_twist)
qed

text \<open>Every exit behind the first message frees both pipes and tells the server.\<close>

lemma cancel_run:
  assumes "two_pipes k P P'"
  shows "\<exists>P''. cancel_server env addr b (Some k) (Some (Suc k)) P' = Some (-1, Some k, Some (Suc k), P'')
    \<and> conn_failed P P''"
proof -
  let ?b = "upd_header (\<lambda>h. h\<lparr>uh_message := XEN_SHM_UDP_PROTO_CLIENT_RESET\<rparr>) b"
  let ?P = "snd (send_buffer env addr sizeof_header ?b P')"
  from clean_send_run [OF two_pipes_send(1) [OF assms]] obtain P'' where
    run: "clean_send_fd env (Some k) (Some (Suc k)) ?P = Some (-1, Some k, Some (Suc k), P'')"
    and P'': "pipes P'' = pipes P" "made P'' = made ?P"
      "ntrace P'' = ntrace ?P @ [N_pipe_free (Suc k), N_pipe_free k, N_shutdown]" by blast
  have "made ?P = made P'" "ntrace ?P = ntrace P' @ [N_sendto addr (take sizeof_header ?b)]"
    by (simp_all add: send_buffer_def Let_def split_beta)
  with P'' assms have "conn_failed P P''"
    by (auto simp: conn_failed_def two_pipes_def take_view(1) intro!: exI [of _ "(as_header b)\<lparr>uh_message := 4\<rparr>"])
  with run show ?thesis by (simp add: cancel_server_def Let_def split_beta)
qed

section \<open>Connecting\<close>

text \<open>The attempt has one of two outcomes: the pipes satisfy \<open>Q\<close>, or the attempt has failed.\<close>

definition conn_outcome ::
  "'a proc_scheme \<Rightarrow> nat \<Rightarrow> ('a proc_scheme \<Rightarrow> bool) \<Rightarrow> 'a conn_result \<Rightarrow> bool" where
  "conn_outcome P k Q res \<longleftrightarrow> (\<exists>r P'. res = Some (r, Some k, Some (Suc k), P')
     \<and> (r = 0 \<and> Q P' \<or> r = -1 \<and> conn_failed P P'))"

lemma cancel_outcome: "two_pipes k P P' \<Longrightarrow> conn_outcome P k Q (cancel_server env addr b (Some k) (Some (Suc k)) P')"
  using cancel_run [of k P P' env addr b] by (auto simp: conn_outcome_def)

text \<open>The message of the client that answers the grant \<open>g\<close>, when the device answered its offer with \<open>a\<close>.\<close>

definition grant_reply :: "sys_answer \<Rightarrow> u8 \<Rightarrow> xen_shm_udp_proto_grant \<Rightarrow> xen_shm_udp_proto_grant" where
  "grant_reply a pages g = g\<lparr>ug_domid := ucast (a_domid a), ug_grant_ref := a_grant a,
     ug_header := (ug_header g)\<lparr>uh_message := XEN_SHM_UDP_PROTO_CLIENT_GRANT\<rparr>, ug_page_count := pages\<rparr>"

text \<open>The state of a connected client whose sending pipe joined the memory \<open>g\<close> of the server, and whose
  receiving pipe is offered to the domain of \<open>g\<close>.\<close>

definition client_pipes ::
  "proc_env \<Rightarrow> nat \<Rightarrow> u8 \<Rightarrow> xen_shm_udp_proto_grant \<Rightarrow> 'a proc_scheme \<Rightarrow> 'a proc_scheme \<Rightarrow> bool" where
  "client_pipes env k pages g P P' \<longleftrightarrow> (\<exists>str sts. pipes P' = (pipes P)(k \<mapsto> str, Suc k \<mapsto> sts)
     \<and> pipe_connected env k xen_shm_pipe_mod_read [] (\<lambda>f. Sys_init_offerer f pages (ucast (ug_domid g))) pages str
     \<and> pipe_connected env (Suc k) xen_shm_pipe_mod_write [Sys_get_domid (fd (priv sts))]
         (\<lambda>f. Sys_init_receiver f (ug_page_count g) (ucast (ug_domid g)) (ug_grant_ref g)) (ug_page_count g) sts)"

lemma grant_in_reply:
  assumes "length b = XEN_SHM_UDP_PROTO_MAX_LEN"
  shows "take sizeof_grant (upd_grant (\<lambda>x. x\<lparr>ug_page_count := pages\<rparr>)
      (upd_header (\<lambda>h. h\<lparr>uh_message := XEN_SHM_UDP_PROTO_CLIENT_GRANT\<rparr>)
        (upd_grant (\<lambda>x. x\<lparr>ug_domid := ucast (a_domid a), ug_grant_ref := a_grant a\<rparr>) b)))
    = grant_bytes (grant_reply a pages (as_grant b))"
  using assms by (simp add: take_view(3) view_upd_header grant_reply_def)

text \<open>Both pipes are set up, and the grant of the client is sent.\<close>

lemma accept_sends:
  fixes P P' :: "'a proc_scheme"
  assumes two: "two_pipes k P P'" and len: "length b = XEN_SHM_UDP_PROTO_MAX_LEN"
    and str: "pipes P' k = Some str" "fresh_pipe env k xen_shm_pipe_mod_read [] str"
    and sts: "pipes P' (Suc k) = Some sts" "fresh_pipe env (Suc k) xen_shm_pipe_mod_write [Sys_get_domid (fd (priv sts))] sts"
    and c: "xen_shm_pipe_connect (penv env (Suc k)) (ug_page_count (as_grant b)) (ug_domid (as_grant b))
      (ug_grant_ref (as_grant b)) sts = (0, sts')"
    and o: "xen_shm_pipe_offers (penv env k) pages (ug_domid (as_grant b)) str = (0, out, str')"
  shows "conn_outcome P k (\<lambda>Q. client_pipes env k pages (as_grant b) P Q \<and> made Q = made P'
      \<and> ntrace Q = ntrace P' @ [N_sendto addr (grant_bytes (grant_reply (second_answer env k) pages (as_grant b))), N_shutdown])
    (accept_grant env addr pages b (Some k) (Some (Suc k)) P')"
proof -
  let ?g = "as_grant b" and ?a = "second_answer env k"
  note oc = offers_calls [OF o] and po = pipe_connected_offers [OF str(2) o] and pc = pipe_connected_connect [OF sts(2) c]
  let ?b = "upd_grant (\<lambda>x. x\<lparr>ug_page_count := pages\<rparr>)
    (upd_header (\<lambda>h. h\<lparr>uh_message := XEN_SHM_UDP_PROTO_CLIENT_GRANT\<rparr>)
      (upd_grant (\<lambda>x. x\<lparr>ug_domid := ucast (a_domid ?a), ug_grant_ref := a_grant ?a\<rparr>) b))"
  let ?Q = "P'\<lparr>pipes := (pipes P')(Suc k \<mapsto> sts', k \<mapsto> str')\<rparr>"
  let ?R = "snd (send_buffer env addr sizeof_grant ?b ?Q)"
  have t2: "two_pipes k P ?Q" using two_pipes_upd(2) [OF two_pipes_upd(1) [OF two, of sts'], of str'] by simp
  have a: "answer (penv env k) (tick str) = ?a" using str(2) by (simp add: fresh_pipe_def second_answer_def)
  have R: "pipes ?R = (pipes P')(Suc k \<mapsto> sts', k \<mapsto> str')" "made ?R = made P'"
    "ntrace ?R = ntrace P' @ [N_sendto addr (grant_bytes (grant_reply ?a pages ?g))]"
    by (simp_all add: send_buffer_def Let_def split_beta grant_in_reply [OF len])
  have ps: "pipes ?R = (pipes P)(k \<mapsto> str', Suc k \<mapsto> sts')"
    using two unfolding R(1) by (auto simp: two_pipes_def fun_upd_twist)
  have "client_pipes env k pages ?g P ?R"
    using po pc unfolding client_pipes_def ps by (intro exI [of _ str'] exI [of _ sts']) simp
  moreover have "accept_grant env addr pages b (Some k) (Some (Suc k)) P' =
    (let len = fst (send_buffer env addr sizeof_grant ?b ?Q)
     in if len < 0 \<or> nat len \<noteq> sizeof_grant then cancel_server env addr ?b (Some k) (Some (Suc k)) ?R
        else Some (0, Some k, Some (Suc k), snd (ndo env N_shutdown ?R)))"
    using c sts(1) o str(1) oc(1) by (simp add: accept_grant_def pr_connect_def pr_offers_def Let_def split_beta a)
  ultimately show ?thesis
    using cancel_outcome [OF two_pipes_send(1) [OF t2]] R by (auto simp: conn_outcome_def Let_def client_pipes_def)
qed

lemma accept_outcome:
  fixes P P' :: "'a proc_scheme"
  assumes two: "two_pipes k P P'" and len: "length b = XEN_SHM_UDP_PROTO_MAX_LEN"
    and str: "pipes P' k = Some str" "fresh_pipe env k xen_shm_pipe_mod_read [] str"
    and sts: "pipes P' (Suc k) = Some sts" "fresh_pipe env (Suc k) xen_shm_pipe_mod_write [Sys_get_domid (fd (priv sts))] sts"
  shows "conn_outcome P k (\<lambda>Q. client_pipes env k pages (as_grant b) P Q \<and> made Q = made P'
      \<and> ntrace Q = ntrace P' @ [N_sendto addr (grant_bytes (grant_reply (second_answer env k) pages (as_grant b))), N_shutdown])
    (accept_grant env addr pages b (Some k) (Some (Suc k)) P')"
proof -
  let ?g = "as_grant b"
  obtain r1 sts' where c: "xen_shm_pipe_connect (penv env (Suc k)) (ug_page_count ?g) (ug_domid ?g) (ug_grant_ref ?g) sts
      = (r1, sts')" by fastforce
  note t1 = two_pipes_upd(1) [OF two, of sts']
  show ?thesis
  proof (cases "r1 = 0")
    case False
    with c sts(1) show ?thesis by (simp add: accept_grant_def pr_connect_def cancel_outcome [OF t1])
  next
    case True
    obtain r2 out str' where o: "xen_shm_pipe_offers (penv env k) pages (ug_domid ?g) str = (r2, out, str')"
      by (cases "xen_shm_pipe_offers (penv env k) pages (ug_domid ?g) str")
    have t2: "two_pipes k P (P'\<lparr>pipes := (pipes P')(Suc k \<mapsto> sts', k \<mapsto> str')\<rparr>)"
      using two_pipes_upd(2) [OF t1, of str'] by simp
    show ?thesis
    proof (cases "r2 = 0")
      case False
      with c sts(1) o str(1) True show ?thesis
        by (simp add: accept_grant_def pr_connect_def pr_offers_def Let_def cancel_outcome [OF t2])
    next
      case r2: True
      show ?thesis by (rule accept_sends [OF assms c [unfolded True] o [unfolded r2]])
    qed
  qed
qed

text \<open>The answer of the server that lets the client go on.\<close>

definition server_granted :: "memory \<Rightarrow> bool" where
  "server_granted reply \<longleftrightarrow> sizeof_grant \<le> length reply
     \<and> uh_message (as_header reply) = XEN_SHM_UDP_PROTO_SERVER_GRANT
     \<and> ug_mode (as_grant reply) = XEN_SHM_UDP_PROTO_GRANT_MODE_READER_OFFERER"

lemma received_Some: "n_dgram a = Some d \<Longrightarrow> received a b = (int (min (length b) (length d)), receive_into b d)"
  by (simp add: received_def)

lemma say_hello_outcome:
  fixes P P' :: "'a proc_scheme"
  assumes two: "two_pipes k P P'" and len: "length b = XEN_SHM_UDP_PROTO_MAX_LEN"
    and str: "pipes P' k = Some str" "fresh_pipe env k xen_shm_pipe_mod_read [] str"
    and sts: "pipes P' (Suc k) = Some sts" "fresh_pipe env (Suc k) xen_shm_pipe_mod_write [Sys_get_domid (fd (priv sts))] sts"
  shows "conn_outcome P k (\<lambda>Q. \<exists>reply. n_dgram (nanswer env (ntrace P' @ [N_sendto addr (take 12 b)]) N_recv) = Some reply
      \<and> server_granted reply \<and> client_pipes env k pages (as_grant reply) P Q \<and> made Q = made P'
      \<and> ntrace Q = ntrace P' @ [N_sendto addr (take 12 b), N_recv,
          N_sendto addr (grant_bytes (grant_reply (second_answer env k) pages (as_grant reply))), N_shutdown])
    (say_hello env addr pages b (Some k) (Some (Suc k)) P')"
    (is "conn_outcome P k ?Q ?res")
proof -
  let ?P1 = "snd (send_buffer env addr sizeof_client_hello b P')"
  let ?a = "nanswer env (ntrace ?P1) N_recv"
  let ?P2 = "snd (ndo env N_recv ?P1)"
  have tr: "ntrace ?P1 = ntrace P' @ [N_sendto addr (take 12 b)]" "pipes ?P1 = pipes P'" "made ?P1 = made P'"
    by (simp_all add: send_buffer_def Let_def split_beta)
  have t1: "two_pipes k P ?P1" by (rule two_pipes_send(1) [OF two])
  have t2: "two_pipes k P ?P2" by (rule two_pipes_send(2) [OF t1])
  note cancel = cancel_outcome [OF t2, where Q = ?Q] cancel_outcome [OF t1, where Q = ?Q]
  obtain len' b' where rc: "received ?a b = (len', b')" by fastforce
  define ok where "ok \<longleftrightarrow> 0 < len' \<and> uh_message (as_header b') = XEN_SHM_UDP_PROTO_SERVER_GRANT
    \<and> sizeof_grant \<le> nat len' \<and> ug_mode (as_grant b') = XEN_SHM_UDP_PROTO_GRANT_MODE_READER_OFFERER"
  define bad where "bad \<longleftrightarrow> fst (send_buffer env addr sizeof_client_hello b P') < 0
    \<or> nat (fst (send_buffer env addr sizeof_client_hello b P')) \<noteq> sizeof_client_hello"
  have unf: "?res = (if bad then cancel_server env addr b (Some k) (Some (Suc k)) ?P1
     else if ok then accept_grant env addr pages b' (Some k) (Some (Suc k)) ?P2
     else cancel_server env addr b' (Some k) (Some (Suc k)) ?P2)"
    unfolding ok_def bad_def by (simp add: say_hello_def split_beta ndo_def rc [unfolded ndo_def] Let_def)
  show ?thesis
  proof (cases "ok \<and> \<not> bad")
    case True
    then obtain reply where reply: "n_dgram ?a = Some reply" "len' = int (min (length b) (length reply))"
        "b' = receive_into b reply"
      using rc by (cases "n_dgram ?a") (auto simp: received_def ok_def)
    with True len have long: "sizeof_grant \<le> length reply" by (simp add: ok_def)
    have same: "as_grant b' = as_grant reply" "as_header b' = as_header reply" "length b' = 40"
      using long len by (simp_all add: reply(3) as_receive)
    have "conn_outcome P k ?Q (accept_grant env addr pages b' (Some k) (Some (Suc k)) ?P2)"
      using accept_outcome [OF t2 same(3) _ str(2) _ sts(2), where pages = pages and addr = addr]
        str(1) sts(1) reply(1) long same True
      by (auto simp: conn_outcome_def tr server_granted_def ok_def)
    with True show ?thesis by (simp add: unf)
  next
    case False
    with cancel show ?thesis by (auto simp: unf)
  qed
qed

text \<open>The first message of the client, whose sending pipe has the number \<open>k\<close>.\<close>

definition hello_message :: "proc_env \<Rightarrow> nat \<Rightarrow> xen_shm_udp_proto_client_hello" where
  "hello_message env k = \<lparr>uc_header = \<lparr>uh_version = XEN_SHM_UDP_PROTO_VERSION,
       uh_message = XEN_SHM_UDP_PROTO_CLIENT_HELLO, uh_reserved = 0, uh_big_reserved = 0\<rparr>,
     uc_domid = ucast (a_domid (second_answer env k))\<rparr>"

text \<open>The state of a client that went through the whole exchange with the server at \<open>addr\<close>: the messages
  and the pipes.\<close>

definition client_connected :: "proc_env \<Rightarrow> sockaddr_in \<Rightarrow> u8 \<Rightarrow> 'a proc_scheme \<Rightarrow> 'a proc_scheme \<Rightarrow> bool" where
  "client_connected env addr pages P P' \<longleftrightarrow>
    (let k = made P; hello = N_sendto addr (client_hello_bytes (hello_message env (Suc k)))
     in \<exists>reply. n_dgram (nanswer env (ntrace P @ [N_socket, hello]) N_recv) = Some reply
      \<and> server_granted reply \<and> client_pipes env k pages (as_grant reply) P P'
      \<and> ntrace P' = ntrace P @ [N_socket, hello, N_recv,
          N_sendto addr (grant_bytes (grant_reply (second_answer env k) pages (as_grant reply))), N_shutdown])"

lemma zero_header: "as_header (replicate 40 0) = \<lparr>uh_version = 0, uh_message = 0, uh_reserved = 0, uh_big_reserved = 0\<rparr>"
  by (simp add: as_header_def u16_at_def u32_at_def)

lemma conn_failed_quiet:
  "pipes P' = pipes P \<Longrightarrow> made P \<le> made P' \<Longrightarrow> ntrace P' = ntrace P @ tr \<Longrightarrow> sent tr = [] \<Longrightarrow> conn_failed P P'"
  by (auto simp: conn_failed_def)

lemma greet_outcome:
  fixes P P' :: "'a proc_scheme" and addr :: sockaddr_in
  assumes two: "two_pipes k P P'" and P': "pipes P' = (pipes P)(k \<mapsto> str, Suc k \<mapsto> sts)" "made P' = Suc (Suc k)"
    "ntrace P' = ntrace P @ [N_socket]"
    and fresh: "fresh_pipe env k xen_shm_pipe_mod_read [] str" "fresh_pipe env (Suc k) xen_shm_pipe_mod_write [] sts"
  defines "hello \<equiv> N_sendto addr (client_hello_bytes (hello_message env (Suc k)))"
  shows "conn_outcome P k (\<lambda>Q. made Q = Suc (Suc k)
      \<and> (\<exists>reply. n_dgram (nanswer env (ntrace P @ [N_socket, hello]) N_recv) = Some reply
      \<and> server_granted reply \<and> client_pipes env k pages (as_grant reply) P Q
      \<and> ntrace Q = ntrace P @ [N_socket, hello, N_recv,
          N_sendto addr (grant_bytes (grant_reply (second_answer env k) pages (as_grant reply))), N_shutdown]))
    (greet env addr pages (Some k) (Some (Suc k)) P')"
proof -
  obtain r d sts' where g: "xen_shm_pipe_getdomid (penv env (Suc k)) sts = (r, d, sts')"
    by (cases "xen_shm_pipe_getdomid (penv env (Suc k)) sts")
  note gc = getdomid_calls [OF g]
  let ?P1 = "P'\<lparr>pipes := (pipes P')(Suc k \<mapsto> sts')\<rparr>"
  have t1: "two_pipes k P ?P1" by (rule two_pipes_upd(1) [OF two])
  show ?thesis
  proof (cases "r = 0")
    case True
    let ?h = "upd_header (\<lambda>h. h\<lparr>uh_version := XEN_SHM_UDP_PROTO_VERSION,
       uh_message := XEN_SHM_UDP_PROTO_CLIENT_HELLO\<rparr>) (replicate XEN_SHM_UDP_PROTO_MAX_LEN 0)"
    let ?b = "upd_client_hello (\<lambda>c. c\<lparr>uc_domid := ucast (a_domid (second_answer env (Suc k)))\<rparr>) ?h"
    have fr: "fresh_pipe env (Suc k) xen_shm_pipe_mod_write [Sys_get_domid (fd (priv sts'))] sts'"
      using gc True fresh(2) by (simp add: fresh_pipe_def)
    have bytes: "take 12 ?b = client_hello_bytes (hello_message env (Suc k))"
      by (simp add: take_view(2) view_upd_header zero_header hello_message_def as_client_hello_def)
    have "greet env addr pages (Some k) (Some (Suc k)) P' = say_hello env addr pages ?b (Some k) (Some (Suc k)) ?P1"
      using True g gc(1) by (simp add: greet_def pr_getdomid_def P' fresh_answer [OF fresh(2)])
    then show ?thesis
      using say_hello_outcome [OF t1 _ _ fresh(1) _ fr, of ?b addr pages]
      by (auto simp: P' bytes hello_def conn_outcome_def)
  next
    case False
    from clean_send_run [OF t1, of env] obtain P'' where
      clean: "clean_send_fd env (Some k) (Some (Suc k)) ?P1 = Some (-1, Some k, Some (Suc k), P'')"
      and P'': "pipes P'' = pipes P" "made P'' = made ?P1"
        "ntrace P'' = ntrace ?P1 @ [N_pipe_free (Suc k), N_pipe_free k, N_shutdown]" by blast
    from P'' two have "conn_failed P P''" by (intro conn_failed_quiet) (auto simp: P' two_pipes_def)
    moreover have "greet env addr pages (Some k) (Some (Suc k)) P' = Some (-1, Some k, Some (Suc k), P'')"
      using clean False g by (simp add: greet_def pr_getdomid_def P')
    ultimately show ?thesis by (auto simp: conn_outcome_def)
  qed
qed

lemma init_pipe_run:
  fixes P :: "'a proc_scheme" and distant_port :: u16 and distant_addr :: u32
  assumes wf: "proc_wf P"
  defines "addr \<equiv> \<lparr>sin_port = htons distant_port, sin_addr = distant_addr\<rparr>" and "k \<equiv> made P"
  shows "\<exists>r rfd' sfd' P'. init_pipe env distant_port distant_addr rfd sfd pages P = Some (r, rfd', sfd', P')
    \<and> (r = -1 \<and> conn_failed P P' \<or> r = 0 \<and> rfd' = Some k \<and> sfd' = Some (Suc k) \<and> made P' = Suc (Suc k)
        \<and> client_connected env addr pages P P')"
proof -
  define P0 where "P0 = snd (ndo env N_socket P)"
  have P0: "pipes P0 = pipes P" "made P0 = k" "ntrace P0 = ntrace P @ [N_socket]"
    "ndo env N_socket P = (nanswer env (ntrace P) N_socket, P0)"
    by (simp_all add: P0_def k_def ndo_def)
  have none: "pipes P k = None" "pipes P (Suc k) = None" using wf by (force simp: proc_wf_def k_def)+
  show ?thesis
  proof (cases "n_ret (nanswer env (ntrace P) N_socket) < 0")
    case True
    then show ?thesis
      using P0 by (auto simp: init_pipe_def k_def intro: conn_failed_quiet)
  next
    case sock: False
    show ?thesis
    proof (cases rule: pr_init_cases [of env xen_shm_pipe_mod_read xen_shm_pipe_conv_reader_offers P0])
      case fail
      with sock P0 show ?thesis
        by (auto simp: init_pipe_def k_def shutdown_socket_def intro!: conn_failed_quiet)
    next
      case (ok str)
      define P1 where "P1 = P0\<lparr>made := Suc k, pipes := (pipes P0)(k \<mapsto> str)\<rparr>"
      have P1: "made P1 = Suc k" "pipes P1 = (pipes P)(k \<mapsto> str)" "ntrace P1 = ntrace P @ [N_socket]"
        by (simp_all add: P1_def P0)
      have i1: "pr_init env xen_shm_pipe_mod_read xen_shm_pipe_conv_reader_offers P0 = (0, Some k, P1)"
        using ok P0 by (simp add: P1_def)
      show ?thesis
      proof (cases rule: pr_init_cases [of env xen_shm_pipe_mod_write xen_shm_pipe_conv_reader_offers P1])
        case fail
        with sock P0 i1 P1 none show ?thesis
          by (auto simp: init_pipe_def k_def clean_receive_fd_def pr_free_def shutdown_socket_def fun_upd_idem
              intro!: conn_failed_quiet)
      next
        case ok2: (ok sts)
        define P2 where "P2 = P1\<lparr>made := Suc (Suc k), pipes := (pipes P1)(Suc k \<mapsto> sts)\<rparr>"
        have i2: "pr_init env xen_shm_pipe_mod_write xen_shm_pipe_conv_reader_offers P1 = (0, Some (Suc k), P2)"
          using ok2 P1 by (simp add: P2_def)
        have P2: "pipes P2 = (pipes P)(k \<mapsto> str, Suc k \<mapsto> sts)" "made P2 = Suc (Suc k)"
          "ntrace P2 = ntrace P @ [N_socket]" by (simp_all add: P2_def P1)
        have two: "two_pipes k P P2" using none P2 by (auto simp: two_pipes_def k_def)
        have fresh: "fresh_pipe env k xen_shm_pipe_mod_read [] str"
          "fresh_pipe env (Suc k) xen_shm_pipe_mod_write [] sts"
          using ok ok2 P0 P1 by simp_all
        have res: "init_pipe env distant_port distant_addr rfd sfd pages P =
            greet env addr pages (Some k) (Some (Suc k)) P2"
          using sock P0 i1 i2 by (simp add: init_pipe_def greet_def addr_def Let_def)
        show ?thesis
          using greet_outcome [OF two P2 fresh, where pages = pages and addr = addr]
          by (auto simp: res conn_outcome_def client_connected_def k_def)
      qed
    qed
  qed
qed

section \<open>Properties\<close>

lemma conn_failed_wf: "proc_wf P \<Longrightarrow> conn_failed P P' \<Longrightarrow> proc_wf P'"
  by (fastforce simp: proc_wf_def conn_failed_def)

lemma connected_wf: "proc_wf P \<Longrightarrow> client_connected env a pages P P' \<Longrightarrow> made P' = Suc (Suc (made P)) \<Longrightarrow> proc_wf P'"
  by (fastforce simp: proc_wf_def client_connected_def client_pipes_def Let_def split: if_splits)

text \<open>What is left of a client that was to run its handler in a thread: the thread runs over the two connected pipes, or no
  new pipe is left.\<close>

definition thread_outcome ::
  "proc_env \<Rightarrow> sockaddr_in \<Rightarrow> u8 \<Rightarrow> nat \<Rightarrow> 'a proc_scheme
    \<Rightarrow> int \<times> nat option \<times> xen_shm_handler_data \<times> 'a proc_scheme \<Rightarrow> bool" where
  "thread_outcome env addr pages handler_fct P = (\<lambda>(r, t, h, P').
     r \<noteq> 0 \<and> t = None \<and> pipes P' = pipes P
   \<or> r = 0 \<and> t \<noteq> None \<and> hd_stop h = 0 \<and> hd_receive_fd h = Some (made P) \<and> hd_send_fd h = Some (Suc (made P))
     \<and> (\<exists>P1. client_connected env addr pages P P1 \<and> P' = snd (ndo env (N_pthread_create handler_fct h) P1)))"

lemma client_connected_pipes:
  assumes "client_connected env a pages P P'" "proc_wf P"
  shows "\<exists>x y. pipes P' = (pipes P)(made P \<mapsto> x, Suc (made P) \<mapsto> y)"
    "pipes P (made P) = None" "pipes P (Suc (made P)) = None"
proof -
  show "\<exists>x y. pipes P' = (pipes P)(made P \<mapsto> x, Suc (made P) \<mapsto> y)"
    using assms(1) by (auto simp: client_connected_def client_pipes_def Let_def)
  show "pipes P (made P) = None" "pipes P (Suc (made P)) = None" using assms(2) by (force simp: proc_wf_def)+
qed

lemma run_client_thread_run:
  fixes P :: "'a proc_scheme" and port :: u16 and ip :: u32
  assumes wf: "proc_wf P"
  defines "addr \<equiv> \<lparr>sin_port = htons port, sin_addr = ip\<rparr>"
  shows "\<exists>res. run_client_thread env port ip pages handler_fct hdlr_data P = Some res
    \<and> thread_outcome env addr pages handler_fct P res"
proof -
  let ?h = "hdlr_data\<lparr>hd_stop := 0\<rparr>"
  from init_pipe_run [OF wf] obtain r rfd sfd P1 where
    i: "init_pipe env port ip (hd_receive_fd ?h) (hd_send_fd ?h) pages P = Some (r, rfd, sfd, P1)"
    and r: "r = -1 \<and> conn_failed P P1 \<or> r = 0 \<and> rfd = Some (made P) \<and> sfd = Some (Suc (made P))
        \<and> client_connected env addr pages P P1" unfolding addr_def by blast
  show ?thesis
  proof (cases "r = 0")
    case False
    with i r show ?thesis by (auto simp: run_client_thread_def thread_outcome_def conn_failed_def)
  next
    case True
    with r have c: "client_connected env addr pages P P1" "rfd = Some (made P)" "sfd = Some (Suc (made P))" by auto
    note p = client_connected_pipes [OF c(1) wf]
    then obtain x y where p1: "pipes P1 = (pipes P)(made P \<mapsto> x, Suc (made P) \<mapsto> y)" by blast
    with p have "(pipes P1)(made P := None, Suc (made P) := None) = pipes P" by auto
    then show ?thesis
      using i c True p1 by (auto simp: run_client_thread_def thread_outcome_def ndo_def pr_free_def Let_def)
  qed
qed

text \<open>C19.  The client's handshake is all or nothing.  \<^verbatim>\<open>init_pipe\<close> always returns, and never uses a pipe that was not
  made or is freed.  It returns 0 after exactly one hello message with the local domain, one answer that
  grants memory, and one grant message that names the domain and the reference the device gave for its own offer;
  then the sending pipe has joined the memory the server named and the receiving pipe is offered to the server's
  domain.  It returns -1 on every other way; then every pipe it made is freed, and if anything was sent, the last
  message is a reset.  \<^verbatim>\<open>run_client_thread\<close> in turn leaves a thread over both pipes, or no new pipe.\<close>

theorem init_pipe_outcome:
  assumes "proc_wf P"
  shows "(\<exists>r rfd' sfd' P'. init_pipe env port ip rfd sfd pages P = Some (r, rfd', sfd', P') \<and> proc_wf P'
      \<and> (r = -1 \<and> conn_failed P P'
        \<or> r = 0 \<and> rfd' = Some (made P) \<and> sfd' = Some (Suc (made P))
          \<and> client_connected env \<lparr>sin_port = htons port, sin_addr = ip\<rparr> pages P P'))
    \<and> (\<exists>res. run_client_thread env port ip pages handler_fct hdlr_data P = Some res
      \<and> thread_outcome env \<lparr>sin_port = htons port, sin_addr = ip\<rparr> pages handler_fct P res)"
  using init_pipe_run [OF assms, of env port ip rfd sfd pages] run_client_thread_run [OF assms]
    conn_failed_wf [OF assms] connected_wf [OF assms] by blast

definition small_handler_data :: xen_shm_handler_data where
  "small_handler_data = \<lparr>hd_receive_fd = None, hd_send_fd = None, hd_stop = 0, hd_private_data = 0\<rparr>"

theorem init_pipe_outcome_witness:
  "\<exists>r rfd' sfd' P'. init_pipe (small_proc_env 7 (\<lambda>_. Some (grant_bytes small_grant))) 80 1 None None 2 small_proc
       = Some (r, rfd', sfd', P') \<and> proc_wf P'
      \<and> (r = -1 \<and> conn_failed small_proc P'
        \<or> r = 0 \<and> rfd' = Some (made small_proc) \<and> sfd' = Some (Suc (made small_proc))
          \<and> client_connected (small_proc_env 7 (\<lambda>_. Some (grant_bytes small_grant)))
              \<lparr>sin_port = htons 80, sin_addr = 1\<rparr> 2 small_proc P')"
  using init_pipe_outcome [OF small_proc_wf, of "small_proc_env 7 (\<lambda>_. Some (grant_bytes small_grant))" 80 1 None None 2
      0 small_handler_data] by blast

end
