(* ===== verification/Server_Lib.thy ===== *)
theory Server_Lib
  imports Conn_Process
begin

text \<open>
  The server of the connection protocol (\<^verbatim>\<open>server_lib.c\<close>): the callback for the UDP socket, the list of half-opened
  connections and the list of the threads that serve the opened ones.

  Both lists are linked lists of blocks of \<^verbatim>\<open>calloc\<close>: \<open>openings\<close> and \<open>children\<close> map the blocks that are not freed.
  Access to a freed block has no result (\<open>None\<close>).  The labels at the end of the callback, which fall through, are
  functions that call the next one.  The messages of \<^verbatim>\<open>printf\<close> and \<^verbatim>\<open>perror\<close> are left out.
\<close>

section \<open>Structures\<close>

record pthread_list =
  c_child :: nat
  c_next :: "nat option"
  c_child_data :: xen_shm_handler_data

record opening_list =
  o_distant_port :: u16
  o_distant_addr :: u32
  o_receive_fd :: "nat option"
  o_next :: "nat option"

record internal_data =
  proposed_page_page_count :: u8
  id_private_data :: nat
  initializer :: nat
  childs :: "nat option"
  current :: "nat option"

text \<open>The server process: the blocks of the two lists and the internal data.\<close>

record server = proc +
  openings :: "nat \<rightharpoonup> opening_list"
  children :: "nat \<rightharpoonup> pthread_list"
  idata :: internal_data

definition zero_opening :: opening_list where
  "zero_opening = \<lparr>o_distant_port = 0, o_distant_addr = 0, o_receive_fd = None, o_next = None\<rparr>"

definition zero_child :: pthread_list where
  "zero_child = \<lparr>c_child = 0, c_next = None,
     c_child_data = \<lparr>hd_receive_fd = None, hd_send_fd = None, hd_stop = 0, hd_private_data = 0\<rparr>\<rparr>"

section \<open>The list of openings\<close>

partial_function (option) find_from ::
  "(nat \<rightharpoonup> opening_list) \<Rightarrow> sockaddr_in \<Rightarrow> nat option \<Rightarrow> nat option option" where
  "find_from h source temp =
    (case temp of
       None \<Rightarrow> Some None
     | Some x \<Rightarrow> do {
         n \<leftarrow> h x;
         (if o_distant_port n = sin_port source \<and> sin_addr source = o_distant_addr n then Some (Some x)
          else find_from h source (o_next n))
       })"

definition find_opening :: "server \<Rightarrow> sockaddr_in \<Rightarrow> nat option option" where
  "find_opening S source = find_from (openings S) source (current (idata S))"

text \<open>The loop that unlinks the block \<open>x\<close>, from the block \<open>temp\<close> on.\<close>

partial_function (option) unlink_from ::
  "nat \<Rightarrow> (nat \<rightharpoonup> opening_list) \<Rightarrow> nat \<Rightarrow> (nat \<rightharpoonup> opening_list) option" where
  "unlink_from x h temp =
    do {
      t \<leftarrow> h temp;
      (case o_next t of
         None \<Rightarrow> Some h
       | Some y \<Rightarrow>
           if y = x then do {
             n \<leftarrow> h x;
             Some (h(temp \<mapsto> t\<lparr>o_next := o_next n\<rparr>))
           }
           else unlink_from x h y)
    }"

definition free_opening :: "nat \<Rightarrow> server \<Rightarrow> server option" where
  "free_opening x S =
    (case current (idata S) of
       None \<Rightarrow> Some S
     | Some temp \<Rightarrow> do {
         h \<leftarrow> unlink_from x (openings S) temp;
         _ \<leftarrow> h x;
         Some (S\<lparr>ntrace := ntrace S @ [N_free x], openings := h(x := None)\<rparr>)
       })"

section \<open>The callback\<close>

definition server_clean :: "proc_env \<Rightarrow> server \<Rightarrow> server" where
  "server_clean env S = snd (ndo env N_ev_timer_start S)"

definition send_reply :: "proc_env \<Rightarrow> sockaddr_in \<Rightarrow> nat \<Rightarrow> memory \<Rightarrow> server \<Rightarrow> server option" where
  "send_reply env source send_len b S = Some (snd (ndo env (N_sendto source (take send_len b)) S))"

definition server_reset :: "proc_env \<Rightarrow> sockaddr_in \<Rightarrow> memory \<Rightarrow> server \<Rightarrow> server option" where
  "server_reset env source b S =
     send_reply env source sizeof_header (upd_header (\<lambda>h. h\<lparr>uh_message := XEN_SHM_UDP_PROTO_SERVER_RESET\<rparr>) b) S"

definition free_o_new :: "proc_env \<Rightarrow> sockaddr_in \<Rightarrow> memory \<Rightarrow> nat \<Rightarrow> server \<Rightarrow> server option" where
  "free_o_new env source b o_new S =
    do {
      n \<leftarrow> openings S o_new;
      S \<leftarrow> pr_free env (o_receive_fd n) S;
      S \<leftarrow> free_opening o_new S;
      server_reset env source b S
    }"

text \<open>\<^verbatim>\<open>free(NULL)\<close> does nothing.\<close>

definition free_child :: "nat option \<Rightarrow> server \<Rightarrow> server option" where
  "free_child c S =
    (case c of
       None \<Rightarrow> Some S
     | Some x \<Rightarrow> do {
         _ \<leftarrow> children S x;
         Some (S\<lparr>ntrace := ntrace S @ [N_free x], children := (children S)(x := None)\<rparr>)
       })"

definition free_data ::
  "proc_env \<Rightarrow> sockaddr_in \<Rightarrow> memory \<Rightarrow> nat option \<Rightarrow> nat \<Rightarrow> server \<Rightarrow> server option" where
  "free_data env source b c_new o_new S = do { S \<leftarrow> free_child c_new S; free_o_new env source b o_new S }"

definition cb_client_hello :: "proc_env \<Rightarrow> sockaddr_in \<Rightarrow> nat \<Rightarrow> memory \<Rightarrow> server \<Rightarrow> server option" where
  "cb_client_hello env source len b S =
    (if len < sizeof_client_hello then Some S
     else
       let (o_new, S) = ncalloc env S
       in case o_new of
         None \<Rightarrow> Some S
       | Some x \<Rightarrow>
           let S = S\<lparr>openings := (openings S)(x \<mapsto> zero_opening)\<rparr>;
               (ret, p, S) = pr_init env xen_shm_pipe_mod_read xen_shm_pipe_conv_reader_offers S
           in if ret \<noteq> 0 then server_reset env source b S
           else do {
             let n = zero_opening\<lparr>o_receive_fd := p\<rparr>;
             let pages = proposed_page_page_count (idata S);
             (ret, out, S) \<leftarrow> pr_offers env p pages (uc_domid (as_client_hello b)) S;
             let b = (case out of None \<Rightarrow> b
                      | Some (d, g) \<Rightarrow> upd_grant (\<lambda>x. x\<lparr>ug_domid := d, ug_grant_ref := g\<rparr>) b);
             (if ret \<noteq> 0
              then do {
                S \<leftarrow> pr_free env p S;
                server_reset env source b (S\<lparr>openings := (openings S)(x \<mapsto> n)\<rparr>)
              }
              else
                let n = n\<lparr>o_distant_port := sin_port source, o_distant_addr := sin_addr source\<rparr>;
                    b = upd_header (\<lambda>h. h\<lparr>uh_message := XEN_SHM_UDP_PROTO_SERVER_GRANT\<rparr>) b;
                    b = upd_grant (\<lambda>x. x\<lparr>ug_mode := XEN_SHM_UDP_PROTO_GRANT_MODE_READER_OFFERER, ug_page_count := pages\<rparr>) b;
                    n = n\<lparr>o_next := current (idata S)\<rparr>;
                    S = S\<lparr>openings := (openings S)(x \<mapsto> n), idata := (idata S)\<lparr>current := Some x\<rparr>\<rparr>
                in send_reply env source sizeof_grant b S)
           })"

definition cb_client_reset :: "proc_env \<Rightarrow> sockaddr_in \<Rightarrow> memory \<Rightarrow> server \<Rightarrow> server option" where
  "cb_client_reset env source b S =
    do {
      found \<leftarrow> find_opening S source;
      (case found of None \<Rightarrow> Some S | Some o_new \<Rightarrow> free_o_new env source b o_new S)
    }"

text \<open>The end of the branch for a grant of the client: both pipes are there and the thread is started.\<close>

definition start_child :: "proc_env \<Rightarrow> nat \<Rightarrow> nat \<Rightarrow> nat option \<Rightarrow> server \<Rightarrow> server option" where
  "start_child env c o_new sfd S =
    do {
      n \<leftarrow> openings S o_new;
      let cd = \<lparr>hd_receive_fd = o_receive_fd n, hd_send_fd = sfd, hd_stop = 0, hd_private_data = id_private_data (idata S)\<rparr>;
      let (a, S) = ndo env (N_pthread_create (initializer (idata S)) cd) S;
      (if n_ret a \<noteq> 0
       then do {
         S \<leftarrow> pr_free env (hd_receive_fd cd) S;
         S \<leftarrow> pr_free env (hd_send_fd cd) S;
         S \<leftarrow> free_opening o_new S;
         free_child (Some c) S
       }
       else Some (S\<lparr>children := (children S)(c \<mapsto> \<lparr>c_child = n_thread a, c_next = childs (idata S), c_child_data = cd\<rparr>),
              idata := (idata S)\<lparr>childs := Some c\<rparr>\<rparr>))
    }"

text \<open>The part of that branch in which the block for the thread is there.\<close>

definition serve_grant :: "proc_env \<Rightarrow> sockaddr_in \<Rightarrow> memory \<Rightarrow> nat \<Rightarrow> nat \<Rightarrow> server \<Rightarrow> server option" where
  "serve_grant env source b o_new c S =
    (let grant = as_grant b
     in if ug_mode grant \<noteq> XEN_SHM_UDP_PROTO_GRANT_MODE_READER_OFFERER then free_data env source b (Some c) o_new S
     else
       let (ret, p, S) = pr_init env xen_shm_pipe_mod_write xen_shm_pipe_conv_reader_offers S
       in if ret \<noteq> 0 then free_data env source b (Some c) o_new S
       else do {
         (ret, S) \<leftarrow> pr_connect env p (ug_page_count grant) (ug_domid grant) (ug_grant_ref grant) S;
         (if ret \<noteq> 0
          then do {
            S \<leftarrow> pr_free env p S;
            free_data env source b (Some c) o_new S
          }
          else start_child env c o_new p S)
       })"

definition cb_client_grant :: "proc_env \<Rightarrow> sockaddr_in \<Rightarrow> nat \<Rightarrow> memory \<Rightarrow> server \<Rightarrow> server option" where
  "cb_client_grant env source len b S =
    do {
      found \<leftarrow> find_opening S source;
      (case found of
         None \<Rightarrow> server_reset env source b S
       | Some o_new \<Rightarrow>
           if len < sizeof_grant then free_o_new env source b o_new S
           else
             let (c_new, S) = ncalloc env S
             in case c_new of
               None \<Rightarrow> free_data env source b None o_new S
             | Some c \<Rightarrow> serve_grant env source b o_new c (S\<lparr>children := (children S)(c \<mapsto> zero_child)\<rparr>))
    }"

abbreviation (input) EV_READ :: u32 where "EV_READ \<equiv> 0x01"
abbreviation (input) EV_ERROR :: u32 where "EV_ERROR \<equiv> 0x80000000"
abbreviation (input) sizeof_sockaddr_in :: nat where "sizeof_sockaddr_in \<equiv> 16"

definition udp_readable_cb :: "proc_env \<Rightarrow> u32 \<Rightarrow> server \<Rightarrow> server option" where
  "udp_readable_cb env revents S =
    (if flag_set revents EV_ERROR then Some (server_clean env S)
     else if flag_set revents EV_READ then
       let (a, S) = ndo env N_recv S; (len, b) = received a (stack_buffer env); source = n_from a
       in if len < 0 then Some S
       else if n_addrlen a \<noteq> sizeof_sockaddr_in then Some (snd (ndo env (N_exit 1) S))
       else if nat len < sizeof_header then Some S
       else if uh_version (as_header b) \<noteq> XEN_SHM_UDP_PROTO_VERSION then Some S
       else let message = uh_message (as_header b)
       in if message = XEN_SHM_UDP_PROTO_CLIENT_HELLO then cb_client_hello env source (nat len) b S
       else if message = XEN_SHM_UDP_PROTO_SERVER_RESET \<or> message = XEN_SHM_UDP_PROTO_SERVER_GRANT then Some S
       else if message = XEN_SHM_UDP_PROTO_CLIENT_RESET then cb_client_reset env source b S
       else if message = XEN_SHM_UDP_PROTO_CLIENT_GRANT then cb_client_grant env source (nat len) b S
       else Some S
     else Some S)"

section \<open>The lists\<close>

definition opening_pipe :: "server \<Rightarrow> nat \<Rightarrow> nat option" where
  "opening_pipe S x = Option.bind (openings S x) o_receive_fd"

text \<open>The half-opened connections are \<open>xs\<close>, newest first, each with a pipe of its own that is not freed, and the
  threads are \<open>ys\<close>.\<close>

definition server_wf :: "server \<Rightarrow> nat list \<Rightarrow> nat list \<Rightarrow> bool" where
  "server_wf S xs ys \<longleftrightarrow> proc_wf S
     \<and> lseg o_next (openings S) (current (idata S)) xs None \<and> distinct xs
     \<and> lseg c_next (children S) (childs (idata S)) ys None \<and> distinct ys
     \<and> (\<forall>x. openings S x \<noteq> None \<or> children S x \<noteq> None \<longrightarrow> x < blocks S)
     \<and> (\<forall>x \<in> set xs. \<exists>k. opening_pipe S x = Some k \<and> pipes S k \<noteq> None)
     \<and> distinct (map (opening_pipe S) xs)"

lemma opening_pipe_cong: "openings S' = openings S \<Longrightarrow> opening_pipe S' = opening_pipe S"
  by (rule ext) (simp add: opening_pipe_def)

text \<open>Changes that concern neither list.\<close>

lemma server_wf_frame:
  assumes "server_wf S xs ys" "openings S' = openings S" "children S' = children S" "idata S' = idata S"
    and "blocks S \<le> blocks S'" "proc_wf S'" "\<And>k. k \<in> Some -` opening_pipe S ` set xs \<Longrightarrow> pipes S k \<noteq> None \<Longrightarrow> pipes S' k \<noteq> None"
  shows "server_wf S' xs ys"
proof -
  have "opening_pipe S' = opening_pipe S" using assms(2) by (rule opening_pipe_cong)
  moreover have "\<exists>k. opening_pipe S x = Some k \<and> pipes S' k \<noteq> None" if "x \<in> set xs" for x
  proof -
    from assms(1) that obtain k where k: "opening_pipe S x = Some k" "pipes S k \<noteq> None" by (auto simp: server_wf_def)
    then have "k \<in> Some -` opening_pipe S ` set xs" using that by (metis image_eqI vimageI)
    with k assms(7) show ?thesis by blast
  qed
  ultimately show ?thesis using assms(1-6) by (fastforce simp: server_wf_def)
qed

lemma server_wf_ndo [simp]: "server_wf (snd (ndo env c S)) xs ys = server_wf S xs ys"
proof -
  have "opening_pipe (snd (ndo env c S)) = opening_pipe S" by (rule opening_pipe_cong) (simp add: ndo_def)
  then show ?thesis by (simp add: server_wf_def proc_wf_def) (simp add: ndo_def)
qed

text \<open>A block of a thread that is not in the list yet, or not any more.\<close>

lemma server_wf_child:
  assumes "server_wf S xs ys" "c \<notin> set ys" "v \<noteq> None \<longrightarrow> c < blocks S"
  shows "server_wf (S\<lparr>children := (children S)(c := v)\<rparr>) xs ys"
proof -
  have "opening_pipe (S\<lparr>children := (children S)(c := v)\<rparr>) = opening_pipe S" by (rule opening_pipe_cong) simp
  with assms show ?thesis by (auto simp: server_wf_def proc_wf_def)
qed

lemma server_wf_lists:
  assumes "server_wf S xs ys"
  shows "lseg o_next (openings S) (current (idata S)) xs None" "distinct xs"
    "lseg c_next (children S) (childs (idata S)) ys None" "distinct ys" "proc_wf S"
    "x \<in> set xs \<Longrightarrow> \<exists>n k. openings S x = Some n \<and> o_receive_fd n = Some k \<and> pipes S k \<noteq> None"
    "x \<in> set xs \<Longrightarrow> x < blocks S" "y \<in> set ys \<Longrightarrow> y < blocks S"
proof -
  show "lseg o_next (openings S) (current (idata S)) xs None" "distinct xs"
    "lseg c_next (children S) (childs (idata S)) ys None" "distinct ys" "proc_wf S"
    using assms by (simp_all add: server_wf_def)
  show "\<exists>n k. openings S x = Some n \<and> o_receive_fd n = Some k \<and> pipes S k \<noteq> None" if "x \<in> set xs"
    using assms that by (auto simp: server_wf_def opening_pipe_def bind_eq_Some_conv)
  show "x < blocks S" if "x \<in> set xs"
    using assms that lseg_in_heap [of o_next "openings S" "current (idata S)" xs None x] by (auto simp: server_wf_def)
  show "y < blocks S" if "y \<in> set ys"
    using assms that lseg_in_heap [of c_next "children S" "childs (idata S)" ys None y] by (auto simp: server_wf_def)
qed

section \<open>Finding and removing\<close>

definition opening_from :: "(nat \<rightharpoonup> opening_list) \<Rightarrow> sockaddr_in \<Rightarrow> nat \<Rightarrow> bool" where
  "opening_from h source x \<longleftrightarrow> (case h x of None \<Rightarrow> False
     | Some n \<Rightarrow> o_distant_port n = sin_port source \<and> sin_addr source = o_distant_addr n)"

lemma find_from_run:
  "lseg o_next h q xs None \<Longrightarrow> find_from h source q = Some (find (opening_from h source) xs)"
  by (induction xs arbitrary: q) (auto simp: find_from.simps opening_from_def)

lemma find_opening_run:
  "server_wf S xs ys \<Longrightarrow> find_opening S source = Some (find (opening_from (openings S) source) xs)"
  by (simp add: find_opening_def server_wf_def find_from_run)

text \<open>The heap without the links.\<close>

abbreviation (input) unlinked_openings :: "(nat \<rightharpoonup> opening_list) \<Rightarrow> nat \<Rightarrow> opening_list option" where
  "unlinked_openings h \<equiv> \<lambda>y. map_option (\<lambda>n. n\<lparr>o_next := None\<rparr>) (h y)"

lemma unlink_head: "lseg o_next h (Some t) (t # zs) None \<Longrightarrow> x \<notin> set zs \<Longrightarrow> unlink_from x h t = Some h"
proof (induction zs arbitrary: t)
  case (Cons z zs)
  then have "unlink_from x h z = Some h" by auto
  with Cons.prems show ?case by (auto simp: unlink_from.simps [of x h t])
qed (auto simp: unlink_from.simps)

lemma unlink_inner:
  assumes "lseg o_next h (Some t) (t # zs) None" "distinct (t # zs)" "x \<in> set zs"
  shows "\<exists>h'. unlink_from x h t = Some h' \<and> lseg o_next h' (Some t) (remove1 x (t # zs)) None
    \<and> unlinked_openings h' = unlinked_openings h \<and> (\<forall>y. y \<notin> set (t # zs) \<longrightarrow> h' y = h y)"
  using assms
proof (induction zs arbitrary: t)
  case (Cons z zs)
  then obtain tn zn where n: "h t = Some tn" "o_next tn = Some z" "h z = Some zn" "lseg o_next h (o_next zn) zs None"
    by auto
  show ?case
  proof (cases "z = x")
    case True
    define h' where "h' = h(t \<mapsto> tn\<lparr>o_next := o_next zn\<rparr>)"
    have "lseg o_next h' (Some t) (t # zs) None" using n(4) Cons.prems(2) by (simp add: h'_def)
    moreover have "unlinked_openings h' = unlinked_openings h" using n(1) by (simp add: fun_eq_iff h'_def)
    moreover have "unlink_from x h t = Some h'" using n True by (simp add: unlink_from.simps h'_def)
    moreover have "h' y = h y" if "y \<noteq> t" for y using that by (simp add: h'_def)
    ultimately show ?thesis using True Cons.prems(2) by (intro exI [of _ h']) simp
  next
    case False
    with Cons.prems have "lseg o_next h (Some z) (z # zs) None" "distinct (z # zs)" "x \<in> set zs" by auto
    from Cons.IH [OF this] obtain h' where h': "unlink_from x h z = Some h'"
      "lseg o_next h' (Some z) (remove1 x (z # zs)) None" "unlinked_openings h' = unlinked_openings h"
      "\<forall>y. y \<notin> set (z # zs) \<longrightarrow> h' y = h y" by blast
    with Cons.prems n False have "h' t = Some tn" by auto
    with h' n False Cons.prems show ?thesis
      by (intro exI [of _ h']) (auto simp: unlink_from.simps [of x h t])
  qed
qed simp

lemma free_opening_run:
  assumes chain: "lseg o_next (openings S) (current (idata S)) xs None" "distinct xs" and x: "x \<in> set xs"
  obtains h where "free_opening x S = Some (S\<lparr>ntrace := ntrace S @ [N_free x], openings := h\<rparr>)" "h x = None"
    and "x \<noteq> hd xs \<Longrightarrow> lseg o_next h (current (idata S)) (remove1 x xs) None"
    and "\<And>y. y \<noteq> x \<Longrightarrow> unlinked_openings h y = unlinked_openings (openings S) y"
proof -
  from x obtain t zs where xs: "xs = t # zs" by (cases xs) auto
  then have cur: "current (idata S) = Some t" and seg: "lseg o_next (openings S) (Some t) (t # zs) None"
    using chain by auto
  show ?thesis
  proof (cases "x = t")
    case True
    then have "x \<notin> set zs" using chain xs by simp
    then have "unlink_from x (openings S) t = Some (openings S)" using unlink_head [OF seg] by simp
    with True cur seg xs show ?thesis by (intro that [of "(openings S)(x := None)"]) (auto simp: free_opening_def)
  next
    case False
    with x xs have "x \<in> set zs" by simp
    from unlink_inner [OF seg _ this] chain xs obtain h' where h': "unlink_from x (openings S) t = Some h'"
      "lseg o_next h' (Some t) (remove1 x xs) None" "unlinked_openings h' = unlinked_openings (openings S)" by auto
    from fun_cong [OF h'(3), of x] lseg_in_heap [OF chain(1) x] obtain n where "h' x = Some n" by auto
    moreover have "x \<notin> set (remove1 x xs)" using chain(2) by simp
    ultimately show ?thesis
      using h' cur fun_cong [OF h'(3)] by (intro that [of "h'(x := None)"]) (simp_all add: free_opening_def)
  qed
qed

text \<open>The opening \<open>x\<close> has been dropped.  All is well if it was not the newest one, which stays linked although its block is
  freed.\<close>

definition opening_dropped :: "nat \<Rightarrow> nat list \<Rightarrow> nat list \<Rightarrow> server \<Rightarrow> bool" where
  "opening_dropped x xs ys S' \<longleftrightarrow> openings S' x = None
     \<and> (if x = hd xs then current (idata S') = Some x else server_wf S' (remove1 x xs) ys)"

lemma opening_dropped_ndo [simp]: "opening_dropped x xs ys (snd (ndo env c S)) = opening_dropped x xs ys S"
  by (simp add: opening_dropped_def) (simp add: ndo_def)

lemma server_ndo [simp]:
  "openings (snd (ndo env c S)) = openings S" "children (snd (ndo env c S)) = children S" "idata (snd (ndo env c S)) = idata S"
  by (simp_all add: ndo_def)

lemma unlinked_pipe:
  "unlinked_openings h y = unlinked_openings (openings S) y \<Longrightarrow> Option.bind (h y) o_receive_fd = opening_pipe S y"
  by (cases "h y"; cases "openings S y") (auto simp: opening_pipe_def dest: arg_cong [where f = o_receive_fd])

text \<open>The pipe of the opening is freed first, and then its block.\<close>

lemma drop_run:
  assumes wf: "server_wf S xs ys" and x: "x \<in> set xs" and k: "opening_pipe S x = Some k"
    and S1: "S1 = S\<lparr>pipes := (pipes S)(k := None), gone := g, ntrace := tr\<rparr>"
  shows "\<exists>S'. free_opening x S1 = Some S' \<and> opening_dropped x xs ys S'
    \<and> children S' = children S \<and> blocks S' = blocks S \<and> pipes S' = (pipes S)(k := None) \<and> made S' = made S \<and> idata S' = idata S"
proof -
  note l = server_wf_lists [OF wf]
  have "lseg o_next (openings S1) (current (idata S1)) xs None" using l(1) by (simp add: S1)
  from free_opening_run [OF this l(2) x] obtain h where
    run: "free_opening x S1 = Some (S1\<lparr>ntrace := ntrace S1 @ [N_free x], openings := h\<rparr>)" and hx: "h x = None"
    and seg: "x \<noteq> hd xs \<Longrightarrow> lseg o_next h (current (idata S)) (remove1 x xs) None"
    and same: "\<And>y. y \<noteq> x \<Longrightarrow> unlinked_openings h y = unlinked_openings (openings S) y"
    by (auto simp: S1)
  let ?S = "S1\<lparr>ntrace := ntrace S1 @ [N_free x], openings := h\<rparr>"
  have head: "current (idata S) = Some (hd xs)" using l(1) x by (cases xs) auto
  have pipe: "opening_pipe ?S y = opening_pipe S y" if "y \<noteq> x" for y
    using unlinked_pipe [of h y S, OF same [OF that]] by (simp add: opening_pipe_def)
  have "server_wf ?S (remove1 x xs) ys" if "x \<noteq> hd xs"
  proof -
    have rest: "y \<in> set xs" "y \<noteq> x" if "y \<in> set (remove1 x xs)" for y using that l(2) by auto
    have "opening_pipe S y \<noteq> Some k" if "y \<in> set xs" "y \<noteq> x" for y
      using wf that x k by (auto simp: server_wf_def distinct_map inj_on_def)
    note other = this
    have "\<exists>k'. opening_pipe ?S y = Some k' \<and> pipes ?S k' \<noteq> None" if "y \<in> set (remove1 x xs)" for y
    proof -
      from wf rest(1) [OF that] obtain k' where k': "opening_pipe S y = Some k'" "pipes S k' \<noteq> None"
        unfolding server_wf_def by blast
      then have "k' \<noteq> k" using other [OF rest [OF that]] by simp
      then have "pipes ?S k' \<noteq> None" using k'(2) unfolding S1 by simp
      moreover have "opening_pipe ?S y = Some k'" using pipe [OF rest(2) [OF that]] k'(1) by (rule trans)
      ultimately show ?thesis by blast
    qed
    moreover have "distinct (map (opening_pipe S) (remove1 x xs))"
      using wf l(2) by (auto simp: server_wf_def distinct_map inj_on_def)
    then have "distinct (map (opening_pipe ?S) (remove1 x xs))"
      by (subst distinct_map_cong [where g = "opening_pipe S"]) (rule pipe [OF rest(2)])
    moreover have "y < blocks S" if "h y \<noteq> None" for y
    proof -
      from that hx have "y \<noteq> x" by metis
      with that same [of y] have "openings S y \<noteq> None" by (cases "openings S y") auto
      with wf show ?thesis by (simp add: server_wf_def)
    qed
    ultimately show ?thesis
      using seg [OF that] wf l(2) unfolding server_wf_def by (simp add: S1 proc_wf_def)
  qed
  then have "opening_dropped x xs ys ?S" using hx head by (simp add: opening_dropped_def S1)
  with run show ?thesis by (simp add: S1)
qed

section \<open>The messages one by one\<close>

lemma send_reply_some: "send_reply env source n b S = Some (snd (ndo env (N_sendto source (take n b)) S))"
  by (simp add: send_reply_def)

lemma free_o_new_run:
  assumes wf: "server_wf S xs ys" and x: "x \<in> set xs"
  shows "\<exists>S'. free_o_new env source b x S = Some S' \<and> opening_dropped x xs ys S' \<and> idata S' = idata S"
proof -
  from server_wf_lists(6) [OF wf x] obtain n k st where n: "openings S x = Some n" "o_receive_fd n = Some k"
      "pipes S k = Some st" by auto
  then have k: "opening_pipe S x = Some k" by (simp add: opening_pipe_def)
  from drop_run [OF wf x k refl, where g = "(gone S)(k \<mapsto> xen_shm_pipe_free (penv env k) st)"
      and tr = "ntrace S @ [N_pipe_free k]"]
  obtain S' where S': "free_opening x (S\<lparr>pipes := (pipes S)(k := None),
      gone := (gone S)(k \<mapsto> xen_shm_pipe_free (penv env k) st), ntrace := ntrace S @ [N_pipe_free k]\<rparr>) = Some S'"
    "opening_dropped x xs ys S'" "idata S' = idata S" by blast
  have "free_o_new env source b x S = server_reset env source b S'"
    using n S'(1) by (simp add: free_o_new_def pr_free_def)
  with S'(2,3) show ?thesis by (simp add: server_reset_def send_reply_some)
qed

lemma free_data_run:
  assumes wf: "server_wf S xs ys" and x: "x \<in> set xs" and c: "\<And>y. c = Some y \<Longrightarrow> children S y \<noteq> None \<and> y \<notin> set ys"
  shows "\<exists>S'. free_data env source b c x S = Some S' \<and> opening_dropped x xs ys S' \<and> idata S' = idata S"
proof (cases c)
  case None
  with free_o_new_run [OF wf x] show ?thesis by (simp add: free_data_def free_child_def)
next
  case (Some y)
  let ?S = "S\<lparr>ntrace := ntrace S @ [N_free y], children := (children S)(y := None)\<rparr>"
  have "server_wf (snd (ndo env (N_free y) S)) xs ys" using wf by simp
  from server_wf_child [OF this, of y None] c [OF Some] have "server_wf ?S xs ys" by (simp add: ndo_def)
  from free_o_new_run [OF this x] c [OF Some] Some show ?thesis by (auto simp: free_data_def free_child_def)
qed

lemma opening_dropped_child:
  assumes "opening_dropped x xs ys S" "c \<notin> set ys"
  shows "opening_dropped x xs ys (S\<lparr>ntrace := tr, children := (children S)(c := None)\<rparr>)"
proof -
  have "server_wf (S\<lparr>ntrace := tr, children := (children S)(c := None)\<rparr>) (remove1 x xs) ys"
    if "server_wf S (remove1 x xs) ys"
  proof -
    have "server_wf (S\<lparr>ntrace := tr\<rparr>) (remove1 x xs) ys"
      by (rule server_wf_frame [OF that]) (use that in \<open>auto simp: server_wf_def proc_wf_def\<close>)
    from server_wf_child [OF this assms(2), of None] show ?thesis by simp
  qed
  with assms show ?thesis by (simp add: opening_dropped_def)
qed

text \<open>What a callback makes of the two lists.\<close>

definition cb_outcome :: "nat list \<Rightarrow> nat list \<Rightarrow> server \<Rightarrow> bool" where
  "cb_outcome xs ys S' \<longleftrightarrow> server_wf S' xs ys \<or> (\<exists>c. server_wf S' xs (c # ys)) \<or> (\<exists>x. server_wf S' (x # xs) ys)
     \<or> (\<exists>x \<in> set xs. opening_dropped x xs ys S')"

text \<open>The block \<open>c\<close> stands for a new thread, which serves the pipe \<open>p\<close> of the opening and the pipe \<open>k\<close>.\<close>

definition child_started :: "nat option \<Rightarrow> nat \<Rightarrow> nat \<Rightarrow> server \<Rightarrow> server \<Rightarrow> bool" where
  "child_started p k c S S' \<longleftrightarrow> pipes S' = pipes S \<and> openings S' = openings S \<and> childs (idata S') = Some c
     \<and> current (idata S') = current (idata S)
     \<and> (\<exists>n. children S' c = Some n \<and> c_next n = childs (idata S)
       \<and> c_child_data n = \<lparr>hd_receive_fd = p, hd_send_fd = Some k, hd_stop = 0, hd_private_data = id_private_data (idata S)\<rparr>
       \<and> ntrace S' = ntrace S @ [N_pthread_create (initializer (idata S)) (c_child_data n)])"

text \<open>The thread could not be started: both pipes, the opening and the block of the child are given back.\<close>

lemma start_child_fails:
  assumes wf: "server_wf S xs ys" and x: "x \<in> set xs" and c: "children S c \<noteq> None" "c \<notin> set ys"
    and k: "pipes S k \<noteq> None" "Some k \<notin> opening_pipe S ` set xs"
    and n: "openings S x = Some n" "o_receive_fd n = Some r" "pipes S r = Some st"
  shows "\<exists>S' S''. Option.bind (pr_free env (Some r) S) (pr_free env (Some k)) = Some S'
    \<and> Option.bind (free_opening x S') (free_child (Some c)) = Some S'' \<and> opening_dropped x xs ys S'' \<and> idata S'' = idata S"
proof -
  from n have r: "opening_pipe S x = Some r" by (simp add: opening_pipe_def)
  then have "r \<noteq> k" using k(2) x by (metis image_eqI)
  define S2 where "S2 = S\<lparr>pipes := (pipes S)(k := None)\<rparr>"
  define g where "g = (gone S)(r \<mapsto> xen_shm_pipe_free (penv env r) st, k \<mapsto> xen_shm_pipe_free (penv env k) (the (pipes S k)))"
  let ?S' = "S\<lparr>pipes := (pipes S)(r := None, k := None), gone := g, ntrace := ntrace S @ [N_pipe_free r, N_pipe_free k]\<rparr>"
  have wf2: "server_wf S2 xs ys"
    by (rule server_wf_frame [OF wf]) (use k(2) wf in \<open>auto simp: S2_def server_wf_def proc_wf_def\<close>)
  have "opening_pipe S2 x = Some r" using r by (simp add: opening_pipe_def S2_def)
  from drop_run [OF wf2 x this refl, where g = g and tr = "ntrace S @ [N_pipe_free r, N_pipe_free k]"]
  obtain T where T: "free_opening x ?S' = Some T" "opening_dropped x xs ys T" "children T = children S" "idata T = idata S"
    using \<open>r \<noteq> k\<close> by (fastforce simp: S2_def fun_upd_twist)
  from opening_dropped_child [OF T(2) c(2), of "ntrace T @ [N_free c]"] have
    "\<exists>S''. free_child (Some c) T = Some S'' \<and> opening_dropped x xs ys S'' \<and> idata S'' = idata S"
    using c(1) T(3,4) by (auto simp: free_child_def)
  moreover have "Option.bind (pr_free env (Some r) S) (pr_free env (Some k)) = Some ?S'"
    using n(3) k(1) \<open>r \<noteq> k\<close> by (auto simp: pr_free_def g_def)
  ultimately show ?thesis using T(1) by auto
qed

lemma start_child_run:
  assumes wf: "server_wf S xs ys" and x: "x \<in> set xs" and c: "children S c \<noteq> None" "c \<notin> set ys"
    and k: "pipes S k \<noteq> None" "Some k \<notin> opening_pipe S ` set xs"
  shows "\<exists>S'. start_child env c x (Some k) S = Some S' \<and> cb_outcome xs ys S'
    \<and> (idata S' = idata S \<or> child_started (opening_pipe S x) k c S S')"
proof -
  note l = server_wf_lists [OF wf]
  from l(6) [OF x] obtain n r st where n: "openings S x = Some n" "o_receive_fd n = Some r" "pipes S r = Some st" by auto
  then have r: "opening_pipe S x = Some r" by (simp add: opening_pipe_def)
  define cd where "cd = \<lparr>hd_receive_fd = Some r, hd_send_fd = Some k, hd_stop = 0, hd_private_data = id_private_data (idata S)\<rparr>"
  define call where "call = N_pthread_create (initializer (idata S)) cd"
  define a where "a = nanswer env (ntrace S) call"
  define S1 where "S1 = snd (ndo env call S)"
  have S1: "server_wf S1 xs ys" "openings S1 = openings S" "children S1 = children S" "idata S1 = idata S" "pipes S1 = pipes S"
    "opening_pipe S1 = opening_pipe S" "blocks S1 = blocks S"
    using wf by (auto simp: S1_def ndo_def opening_pipe_def fun_eq_iff server_wf_ndo [unfolded ndo_def snd_conv])
  have ndo: "ndo env call S = (a, S1)" by (simp add: ndo_def a_def S1_def)
  show ?thesis
  proof (cases "n_ret a = 0")
    case True
    let ?S = "S1\<lparr>children := (children S)(c \<mapsto> \<lparr>c_child = n_thread a, c_next = childs (idata S), c_child_data = cd\<rparr>),
              idata := (idata S)\<lparr>childs := Some c\<rparr>\<rparr>"
    have "start_child env c x (Some k) S = Some ?S"
      using True n ndo by (simp add: start_child_def cd_def [symmetric] call_def [symmetric] S1)
    moreover have "server_wf ?S xs (c # ys)"
    proof -
      have "opening_pipe ?S = opening_pipe S1" by (rule opening_pipe_cong) simp
      with S1 c show ?thesis by (auto simp: server_wf_def proc_wf_def)
    qed
    moreover have "child_started (opening_pipe S x) k c S ?S"
      by (simp add: child_started_def S1 r cd_def) (simp add: S1_def call_def cd_def)
    ultimately show ?thesis by (auto simp: cb_outcome_def)
  next
    case False
    from start_child_fails [OF S1(1) x, of c k n r st env] obtain S' S'' where
      S': "Option.bind (pr_free env (Some r) S1) (pr_free env (Some k)) = Some S'"
      "Option.bind (free_opening x S') (free_child (Some c)) = Some S''" "opening_dropped x xs ys S''" "idata S'' = idata S"
      using S1 c k n by auto
    have "start_child env c x (Some k) S = Option.bind (Option.bind (pr_free env (Some r) S1) (pr_free env (Some k)))
        (\<lambda>S. Option.bind (free_opening x S) (free_child (Some c)))"
      using False n ndo by (simp add: start_child_def cd_def [symmetric] call_def [symmetric]) (simp add: cd_def)
    with S' x show ?thesis by (auto simp: cb_outcome_def)
  qed
qed

lemma ncalloc_cases:
  obtains (fail) "ncalloc env S = (None, snd (ndo env N_calloc S))"
  | (ok) "ncalloc env S = (Some (blocks S), (snd (ndo env N_calloc S))\<lparr>blocks := Suc (blocks S)\<rparr>)"
proof (cases "n_ret (nanswer env (ntrace S) N_calloc) = 0")
  case True
  then show ?thesis by (intro fail) (simp add: ncalloc_def ndo_def)
next
  case False
  then show ?thesis by (intro ok) (simp add: ncalloc_def ndo_def)
qed

text \<open>A new pipe, whatever has become of it, does not touch the lists.\<close>

lemma server_wf_new_pipe:
  assumes "server_wf S xs ys"
  shows "server_wf (S\<lparr>made := Suc (made S)\<rparr>) xs ys"
    "server_wf (S\<lparr>made := Suc (made S), pipes := (pipes S)(made S \<mapsto> st)\<rparr>) xs ys"
    "pipes S (made S) = None" "Some (made S) \<notin> opening_pipe S ` set xs"
proof -
  have proc: "\<And>k. pipes S k \<noteq> None \<Longrightarrow> k < made S" using assms by (simp add: server_wf_def proc_wf_def)
  show "server_wf (S\<lparr>made := Suc (made S)\<rparr>) xs ys"
    by (rule server_wf_frame [OF assms]) (use proc in \<open>force simp: proc_wf_def\<close>)+
  show "server_wf (S\<lparr>made := Suc (made S), pipes := (pipes S)(made S \<mapsto> st)\<rparr>) xs ys"
    by (rule server_wf_frame [OF assms]) (use proc in \<open>force simp: proc_wf_def\<close>)+
  show none: "pipes S (made S) = None" using proc by blast
  show "Some (made S) \<notin> opening_pipe S ` set xs" using assms none by (auto simp: server_wf_def)
qed

lemma server_wf_blocks:
  assumes "server_wf S xs ys"
  shows "server_wf (S\<lparr>blocks := Suc (blocks S)\<rparr>) xs ys"
  by (rule server_wf_frame [OF assms]) (use assms in \<open>auto simp: server_wf_def proc_wf_def\<close>)

lemma server_wf_trace:
  assumes "server_wf S xs ys"
  shows "server_wf (S\<lparr>gone := g, ntrace := tr\<rparr>) xs ys"
  by (rule server_wf_frame [OF assms]) (use assms in \<open>auto simp: server_wf_def proc_wf_def\<close>)

lemma cb_client_reset_run:
  assumes wf: "server_wf S xs ys"
  shows "\<exists>S'. cb_client_reset env source b S = Some S' \<and>
    (case find (opening_from (openings S) source) xs of None \<Rightarrow> S' = S | Some x \<Rightarrow> opening_dropped x xs ys S' \<and> x \<in> set xs)"
proof (cases "find (opening_from (openings S) source) xs")
  case None
  then show ?thesis by (simp add: cb_client_reset_def find_opening_run [OF wf])
next
  case (Some x)
  then have "x \<in> set xs" by (auto simp: find_Some_iff)
  from free_o_new_run [OF wf this, of env source b] Some this show ?thesis
    by (auto simp: cb_client_reset_def find_opening_run [OF wf])
qed

text \<open>What a grant message must have done when it has started a thread: the sending pipe has joined the memory
  that the message names.\<close>

definition child_served :: "proc_env \<Rightarrow> xen_shm_udp_proto_grant \<Rightarrow> nat \<Rightarrow> nat \<Rightarrow> server \<Rightarrow> server \<Rightarrow> bool" where
  "child_served env g x c S S' \<longleftrightarrow> (\<exists>sts n. pipes S' = (pipes S)(made S \<mapsto> sts)
     \<and> pipe_connected env (made S) xen_shm_pipe_mod_write []
         (\<lambda>f. Sys_init_receiver f (ug_page_count g) (ucast (ug_domid g)) (ug_grant_ref g)) (ug_page_count g) sts
     \<and> childs (idata S') = Some c \<and> children S' c = Some n \<and> c_next n = childs (idata S)
     \<and> c_child_data n = \<lparr>hd_receive_fd = opening_pipe S x, hd_send_fd = Some (made S), hd_stop = 0,
         hd_private_data = id_private_data (idata S)\<rparr>
     \<and> ntrace S' = ntrace S @ [N_pthread_create (initializer (idata S)) (c_child_data n)])"

definition grant_served :: "proc_env \<Rightarrow> sockaddr_in \<Rightarrow> xen_shm_udp_proto_grant \<Rightarrow> nat list \<Rightarrow> server \<Rightarrow> server \<Rightarrow> bool" where
  "grant_served env source g xs S S' \<longleftrightarrow> (\<exists>x. find (opening_from (openings S) source) xs = Some x
     \<and> child_served env g x (blocks S) (S\<lparr>ntrace := ntrace S @ [N_calloc]\<rparr>) S')"

lemma serve_grant_run:
  assumes wf: "server_wf S xs ys" and x: "x \<in> set xs" and c: "children S c \<noteq> None" "c \<notin> set ys"
  shows "\<exists>S'. serve_grant env source b x c S = Some S' \<and> cb_outcome xs ys S'
    \<and> (idata S' = idata S \<or> child_served env (as_grant b) x c S S')"
proof -
  let ?goal = "\<lambda>res. \<exists>S'. res = Some S' \<and> cb_outcome xs ys S' \<and> (idata S' = idata S \<or> child_served env (as_grant b) x c S S')"
  let ?g = "as_grant b"
  have drop: "?goal (free_data env source b (Some c) x T)"
    if "server_wf T xs ys" "children T = children S" "idata T = idata S" for T
    using free_data_run [OF that(1) x, of "Some c" env source b] c that(2,3) x by (auto simp: cb_outcome_def)
  show ?thesis
  proof (cases "ug_mode ?g = XEN_SHM_UDP_PROTO_GRANT_MODE_READER_OFFERER")
    case False
    with drop [OF wf] show ?thesis by (simp add: serve_grant_def)
  next
    case mode: True
    show ?thesis
    proof (cases rule: pr_init_cases [of env xen_shm_pipe_mod_write xen_shm_pipe_conv_reader_offers S])
      case fail
      with mode drop [OF server_wf_new_pipe(1) [OF wf]] show ?thesis by (simp add: serve_grant_def)
    next
      case (ok st)
      define k where "k = made S"
      obtain r sts where con: "xen_shm_pipe_connect (penv env k) (ug_page_count ?g) (ug_domid ?g) (ug_grant_ref ?g) st = (r, sts)"
        by fastforce
      define T where "T = S\<lparr>made := Suc k, pipes := (pipes S)(k \<mapsto> sts)\<rparr>"
      have wfT: "server_wf T xs ys" using server_wf_new_pipe(2) [OF wf, of sts] by (simp add: T_def k_def)
      have res: "serve_grant env source b x c S = (if r = 0 then start_child env c x (Some k) T
          else do { S \<leftarrow> pr_free env (Some k) T; free_data env source b (Some c) x S })"
        using mode ok con by (simp add: serve_grant_def pr_connect_def T_def k_def)
      show ?thesis
      proof (cases "r = 0")
        case True
        note cc = pipe_connected_connect(1) [OF ok(2) [folded k_def] con [unfolded True]]
        have "Some k \<notin> opening_pipe T ` set xs" "opening_pipe T = opening_pipe S"
          using server_wf_new_pipe(4) [OF wf] by (auto simp: T_def k_def opening_pipe_def fun_eq_iff)
        with start_child_run [OF wfT x, of c k env] c
        obtain S' where S': "start_child env c x (Some k) T = Some S'" "cb_outcome xs ys S'"
          "idata S' = idata S \<or> child_started (opening_pipe S x) k c T S'" by (auto simp: T_def)
        have "child_served env ?g x c S S'" if "child_started (opening_pipe S x) k c T S'"
          using that cc unfolding child_served_def child_started_def
          by (intro exI [of _ sts]) (auto simp: T_def k_def)
        with S' True show ?thesis by (auto simp: res)
      next
        case False
        define g where "g = (gone S)(k \<mapsto> xen_shm_pipe_free (penv env k) sts)"
        have "pr_free env (Some k) T = Some (S\<lparr>made := Suc k, gone := g, ntrace := ntrace S @ [N_pipe_free k]\<rparr>)"
          using server_wf_new_pipe(3) [OF wf] by (simp add: pr_free_def T_def k_def g_def fun_upd_idem)
        moreover have "server_wf (S\<lparr>made := Suc k, gone := g, ntrace := ntrace S @ [N_pipe_free k]\<rparr>) xs ys"
          using server_wf_trace [OF server_wf_new_pipe(1) [OF wf], where g = g and tr = "ntrace S @ [N_pipe_free k]"] by (simp add: k_def)
        ultimately show ?thesis using False drop by (simp add: res)
      qed
    qed
  qed
qed

lemma cb_client_grant_run:
  assumes wf: "server_wf S xs ys"
  shows "\<exists>S'. cb_client_grant env source len b S = Some S' \<and> cb_outcome xs ys S'
    \<and> (idata S' = idata S \<or> grant_served env source (as_grant b) xs S S')"
proof (cases "find (opening_from (openings S) source) xs")
  case None
  then show ?thesis
    using wf by (simp add: cb_client_grant_def find_opening_run [OF wf] server_reset_def send_reply_some cb_outcome_def)
next
  case x: (Some x)
  then have xs: "x \<in> set xs" by (auto simp: find_Some_iff)
  let ?goal = "\<lambda>res. \<exists>S'. res = Some S' \<and> cb_outcome xs ys S' \<and> (idata S' = idata S \<or> grant_served env source (as_grant b) xs S S')"
  have drop: "?goal res" if "\<exists>S'. res = Some S' \<and> opening_dropped x xs ys S' \<and> idata S' = idata S" for res
    using that xs by (auto simp: cb_outcome_def)
  note unf = cb_client_grant_def find_opening_run [OF wf] x
  show ?thesis
  proof (cases "len < sizeof_grant")
    case True
    with drop [OF free_o_new_run [OF wf xs]] show ?thesis by (simp add: unf)
  next
    case long: False
    show ?thesis
    proof (cases rule: ncalloc_cases [of env S])
      case fail
      have "server_wf (snd (ndo env N_calloc S)) xs ys" using wf by simp
      from free_data_run [OF this xs, of None env source b] have "?goal (free_data env source b None x (snd (ndo env N_calloc S)))"
        by (intro drop) simp
      with fail long show ?thesis by (simp add: unf)
    next
      case ok
      define c where "c = blocks S"
      define T where "T = (snd (ndo env N_calloc S))\<lparr>blocks := Suc c, children := (children S)(c \<mapsto> zero_child)\<rparr>"
      have c: "c \<notin> set ys" "children T c \<noteq> None" using server_wf_lists(8) [OF wf] by (auto simp: c_def T_def)
      have T: "openings T = openings S" "idata T = idata S" "pipes T = pipes S" "made T = made S" "ntrace T = ntrace S @ [N_calloc]"
        by (simp_all add: T_def)
      have wfT: "server_wf T xs ys"
        using server_wf_child [OF server_wf_blocks [of "snd (ndo env N_calloc S)"], of xs ys c "Some zero_child"] wf c(1)
        by (simp add: T_def c_def)
      have served: "?goal (serve_grant env source b x c T)"
        using serve_grant_run [OF wfT xs c(2,1), of env source b]
        by (auto simp: T grant_served_def x child_served_def c_def opening_pipe_def intro: drop)
      with ok long show ?thesis by (simp add: unf T_def c_def)
    qed
  qed
qed

text \<open>The answer to a hello message \<open>b\<close>: the device gave \<open>a\<close> for the offer of \<open>pages\<close> pages.\<close>

definition grant_message :: "sys_answer \<Rightarrow> u8 \<Rightarrow> xen_shm_udp_proto_header \<Rightarrow> xen_shm_udp_proto_grant" where
  "grant_message a pages h = \<lparr>ug_header = h\<lparr>uh_message := XEN_SHM_UDP_PROTO_SERVER_GRANT\<rparr>,
     ug_grant_ref = a_grant a, ug_domid = ucast (a_domid a), ug_mode = XEN_SHM_UDP_PROTO_GRANT_MODE_READER_OFFERER,
     ug_page_count = pages\<rparr>"

text \<open>A hello from \<open>source\<close> is answered with a grant: there is a new opening in front of the list, with a new pipe
  that is offered to the domain of the hello.\<close>

definition hello_granted ::
  "proc_env \<Rightarrow> sockaddr_in \<Rightarrow> xen_shm_udp_proto_client_hello \<Rightarrow> nat list \<Rightarrow> nat list \<Rightarrow> server \<Rightarrow> server \<Rightarrow> bool" where
  "hello_granted env source c xs ys S S' \<longleftrightarrow>
    (let k = made S; x = blocks S; pages = proposed_page_page_count (idata S)
     in server_wf S' (x # xs) ys \<and> idata S' = (idata S)\<lparr>current := Some x\<rparr>
      \<and> openings S' = (openings S)(x \<mapsto> \<lparr>o_distant_port = sin_port source, o_distant_addr = sin_addr source,
          o_receive_fd = Some k, o_next = current (idata S)\<rparr>)
      \<and> (\<exists>st. pipes S' = (pipes S)(k \<mapsto> st)
        \<and> pipe_connected env k xen_shm_pipe_mod_read [] (\<lambda>f. Sys_init_offerer f pages (ucast (uc_domid c))) pages st)
      \<and> ntrace S' = ntrace S @ [N_calloc,
          N_sendto source (grant_bytes (grant_message (second_answer env k) pages (uc_header c)))])"

text \<open>A hello is refused: the lists and the pipes are as before, and the answer is a reset, or none if there is no memory.\<close>

definition hello_refused ::
  "sockaddr_in \<Rightarrow> xen_shm_udp_proto_client_hello \<Rightarrow> nat list \<Rightarrow> nat list \<Rightarrow> server \<Rightarrow> server \<Rightarrow> bool" where
  "hello_refused source c xs ys S S' \<longleftrightarrow> server_wf S' xs ys \<and> idata S' = idata S \<and> pipes S' = pipes S
     \<and> (ntrace S' = ntrace S @ [N_calloc]
       \<or> (\<exists>tr. ntrace S' = ntrace S @ N_calloc # tr @ [N_sendto source (header_bytes
            ((uc_header c)\<lparr>uh_message := XEN_SHM_UDP_PROTO_SERVER_RESET\<rparr>))] \<and> (\<forall>a d. N_sendto a d \<notin> set tr)))"

text \<open>A block of an opening that is in no list.\<close>

lemma server_wf_stray_opening:
  assumes "server_wf S xs ys" "x \<notin> set xs" "x < blocks S"
  shows "server_wf (S\<lparr>openings := (openings S)(x \<mapsto> n)\<rparr>) xs ys"
proof -
  let ?S = "S\<lparr>openings := (openings S)(x \<mapsto> n)\<rparr>"
  have same: "opening_pipe ?S y = opening_pipe S y" if "y \<in> set xs" for y
    using that assms(2) by (auto simp: opening_pipe_def)
  then have "distinct (map (opening_pipe ?S) xs) = distinct (map (opening_pipe S) xs)" by (rule distinct_map_cong)
  then have "distinct (map (opening_pipe ?S) xs)" using assms(1) by (simp only: server_wf_def)
  with assms same show ?thesis by (auto simp: server_wf_def proc_wf_def)
qed

text \<open>The new opening in front of the list.\<close>

lemma server_wf_push:
  assumes wf: "server_wf S xs ys" and x: "x \<notin> set xs" "x < blocks S" and n: "o_next n = current (idata S)"
    "o_receive_fd n = Some k" "pipes S k \<noteq> None" "Some k \<notin> opening_pipe S ` set xs"
  shows "server_wf (S\<lparr>openings := (openings S)(x \<mapsto> n), idata := (idata S)\<lparr>current := Some x\<rparr>\<rparr>) (x # xs) ys"
proof -
  let ?T = "S\<lparr>openings := (openings S)(x \<mapsto> n)\<rparr>"
  let ?S = "S\<lparr>openings := (openings S)(x \<mapsto> n), idata := (idata S)\<lparr>current := Some x\<rparr>\<rparr>"
  have T: "server_wf ?T xs ys" by (rule server_wf_stray_opening [OF wf x])
  have pipes: "opening_pipe ?S = opening_pipe ?T" by (rule opening_pipe_cong) simp
  have new: "opening_pipe ?T x = Some k" using n(2) by (simp add: opening_pipe_def)
  have old: "opening_pipe ?T ` set xs = opening_pipe S ` set xs"
    using x(1) by (intro image_cong) (auto simp: opening_pipe_def)
  have "distinct (map (opening_pipe ?S) (x # xs))"
    using T n(4) by (simp add: pipes new old server_wf_def)
  moreover have "\<exists>k. opening_pipe ?S y = Some k \<and> pipes ?S k \<noteq> None" if "y \<in> set (x # xs)" for y
    using T that new n(3) by (auto simp: pipes server_wf_def)
  ultimately show ?thesis using T n(1) x(1) unfolding server_wf_def by (simp add: proc_wf_def)
qed

lemma grant_in_place:
  assumes "length b = XEN_SHM_UDP_PROTO_MAX_LEN"
  shows "take sizeof_grant (upd_grant (\<lambda>x. x\<lparr>ug_mode := XEN_SHM_UDP_PROTO_GRANT_MODE_READER_OFFERER, ug_page_count := pages\<rparr>)
      (upd_header (\<lambda>h. h\<lparr>uh_message := XEN_SHM_UDP_PROTO_SERVER_GRANT\<rparr>)
        (upd_grant (\<lambda>x. x\<lparr>ug_domid := ucast (a_domid a), ug_grant_ref := a_grant a\<rparr>) b)))
    = grant_bytes (grant_message a pages (as_header b))"
  using assms by (simp add: take_view(3) view_upd_header grant_message_def) (simp add: as_grant_def)

text \<open>The server with the block of the new opening, which is in no list yet.\<close>

definition hello_start :: "proc_env \<Rightarrow> server \<Rightarrow> server" where
  "hello_start env S =
    (snd (ndo env N_calloc S))\<lparr>blocks := Suc (blocks S), openings := (openings S)(blocks S \<mapsto> zero_opening)\<rparr>"

lemma hello_start_simps [simp]:
  "openings (hello_start env S) = (openings S)(blocks S \<mapsto> zero_opening)" "idata (hello_start env S) = idata S"
  "pipes (hello_start env S) = pipes S" "made (hello_start env S) = made S" "blocks (hello_start env S) = Suc (blocks S)"
  "ntrace (hello_start env S) = ntrace S @ [N_calloc]"
  by (simp_all add: hello_start_def)

lemma hello_start_wf:
  assumes "server_wf S xs ys"
  shows "server_wf (hello_start env S) xs ys" "blocks S \<notin> set xs"
proof -
  show x: "blocks S \<notin> set xs" using server_wf_lists(7) [OF assms] by auto
  show "server_wf (hello_start env S) xs ys"
    using server_wf_stray_opening [OF server_wf_blocks [of "snd (ndo env N_calloc S)"], of xs ys "blocks S" zero_opening] assms x
    by (simp add: hello_start_def)
qed

lemma hello_offer_fails:
  fixes S :: server
  assumes wf: "server_wf S xs ys" and len: "sizeof_client_hello \<le> len" "length b = XEN_SHM_UDP_PROTO_MAX_LEN"
    and block: "ncalloc env S = (Some (blocks S), (snd (ndo env N_calloc S))\<lparr>blocks := Suc (blocks S)\<rparr>)"
    and made: "pr_init env xen_shm_pipe_mod_read xen_shm_pipe_conv_reader_offers (hello_start env S)
      = (0, Some (made S), (hello_start env S)\<lparr>made := Suc (made S), pipes := (pipes S)(made S \<mapsto> st)\<rparr>)"
    and offer: "xen_shm_pipe_offers (penv env (made S)) (proposed_page_page_count (idata S)) (uc_domid (as_client_hello b)) st
      = (r, out, st')" "r \<noteq> 0"
  shows "\<exists>S'. cb_client_hello env source len b S = Some S' \<and> hello_refused source (as_client_hello b) xs ys S S'"
proof -
  let ?T = "hello_start env S" and ?x = "blocks S" and ?k = "made S" and ?n = "zero_opening\<lparr>o_receive_fd := Some (made S)\<rparr>"
  note wfT = hello_start_wf [OF wf]
  define g where "g = (gone ?T)(?k \<mapsto> xen_shm_pipe_free (penv env ?k) st')"
  define W where "W = ?T\<lparr>made := Suc ?k, pipes := pipes S, gone := g, ntrace := ntrace ?T @ [N_pipe_free ?k]\<rparr>"
  have "server_wf W xs ys"
    by (rule server_wf_frame [OF server_wf_new_pipe(1) [OF wfT(1)]])
      (use server_wf_new_pipe(1) [OF wfT(1)] in \<open>auto simp: W_def server_wf_def proc_wf_def\<close>)
  from server_wf_stray_opening [OF this wfT(2), of ?n] have W: "server_wf (W\<lparr>openings := (openings S)(?x \<mapsto> ?n)\<rparr>) xs ys"
    by (simp add: W_def)
  have "cb_client_hello env source len b S = server_reset env source b (W\<lparr>openings := (openings S)(?x \<mapsto> ?n)\<rparr>)"
    using block made len(1) offer offers_fails [OF offer] server_wf_new_pipe(3) [OF wfT(1)]
    by (simp add: cb_client_hello_def hello_start_def [symmetric] pr_offers_def pr_free_def fun_upd_idem W_def g_def)
  with W show ?thesis
    using len(2) by (auto simp: hello_refused_def server_reset_def send_reply_some take_view(1)) (simp_all add: W_def)
qed

lemma hello_offer_succeeds:
  fixes S :: server
  assumes wf: "server_wf S xs ys" and len: "sizeof_client_hello \<le> len" "length b = XEN_SHM_UDP_PROTO_MAX_LEN"
    and block: "ncalloc env S = (Some (blocks S), (snd (ndo env N_calloc S))\<lparr>blocks := Suc (blocks S)\<rparr>)"
    and made: "pr_init env xen_shm_pipe_mod_read xen_shm_pipe_conv_reader_offers (hello_start env S)
      = (0, Some (made S), (hello_start env S)\<lparr>made := Suc (made S), pipes := (pipes S)(made S \<mapsto> st)\<rparr>)"
      "fresh_pipe env (made S) xen_shm_pipe_mod_read [] st"
    and offer: "xen_shm_pipe_offers (penv env (made S)) (proposed_page_page_count (idata S)) (uc_domid (as_client_hello b)) st
      = (0, out, st')"
  shows "\<exists>S'. cb_client_hello env source len b S = Some S' \<and> hello_granted env source (as_client_hello b) xs ys S S'"
proof -
  let ?T = "hello_start env S" and ?x = "blocks S" and ?k = "made S" and ?pages = "proposed_page_page_count (idata S)"
  let ?m = "\<lparr>o_distant_port = sin_port source, o_distant_addr = sin_addr source, o_receive_fd = Some ?k,
    o_next = current (idata S)\<rparr>"
  define V where "V = ?T\<lparr>made := Suc ?k, pipes := (pipes S)(?k \<mapsto> st')\<rparr>"
  define W where "W = V\<lparr>openings := (openings S)(?x \<mapsto> ?m), idata := (idata S)\<lparr>current := Some ?x\<rparr>\<rparr>"
  define W' where "W' = snd (ndo env (N_sendto source (grant_bytes (grant_message (second_answer env ?k) ?pages (as_header b)))) W)"
  note wfT = hello_start_wf(1) [OF wf, of env] hello_start_wf(2) [OF wf]
  have wfV: "server_wf V xs ys" using server_wf_new_pipe(2) [OF wfT(1), of st'] by (simp add: V_def)
  note oc = offers_calls [OF offer] pipe_connected_offers(1) [OF _ offer]
  have "opening_pipe V = opening_pipe ?T" by (rule opening_pipe_cong) (simp add: V_def)
  then have W: "server_wf W (?x # xs) ys"
    using server_wf_push [OF wfV wfT(2), of ?m ?k] server_wf_new_pipe(4) [OF wfT(1)] by (simp add: W_def V_def)
  have node: "zero_opening\<lparr>o_receive_fd := Some ?k, o_distant_port := sin_port source, o_distant_addr := sin_addr source,
      o_next := current (idata S)\<rparr> = ?m" by (simp add: zero_opening_def)
  have a: "answer (penv env ?k) (tick st) = second_answer env ?k" using made(2) fresh_answer by simp
  have "cb_client_hello env source len b S = Some W'"
    using block made(1) len(1) offer oc(1) grant_in_place [OF len(2), of ?pages "second_answer env ?k"]
    by (simp add: cb_client_hello_def hello_start_def [symmetric] pr_offers_def send_reply_some W'_def W_def V_def a node)
  moreover have "hello_granted env source (as_client_hello b) xs ys S W'"
    using W oc made(2) unfolding hello_granted_def Let_def by (auto simp: W'_def W_def V_def fresh_pipe_def)
  ultimately show ?thesis by blast
qed

lemma cb_client_hello_run:
  assumes wf: "server_wf S xs ys" and len: "sizeof_client_hello \<le> len" "length b = XEN_SHM_UDP_PROTO_MAX_LEN"
  shows "\<exists>S'. cb_client_hello env source len b S = Some S' \<and> (hello_granted env source (as_client_hello b) xs ys S S'
    \<or> hello_refused source (as_client_hello b) xs ys S S')"
proof (cases rule: ncalloc_cases [of env S])
  case fail
  with wf len show ?thesis by (simp add: cb_client_hello_def hello_refused_def)
next
  case block: ok
  show ?thesis
  proof (cases rule: pr_init_cases [of env xen_shm_pipe_mod_read xen_shm_pipe_conv_reader_offers "hello_start env S"])
    case fail
    have "cb_client_hello env source len b S = server_reset env source b ((hello_start env S)\<lparr>made := Suc (made S)\<rparr>)"
      using block fail len(1) by (simp add: cb_client_hello_def hello_start_def)
    then show ?thesis
      using server_wf_new_pipe(1) [OF hello_start_wf(1) [OF wf]] len(2)
      by (simp add: hello_refused_def server_reset_def send_reply_some take_view(1))
  next
    case (ok st)
    then have made: "pr_init env xen_shm_pipe_mod_read xen_shm_pipe_conv_reader_offers (hello_start env S)
        = (0, Some (made S), (hello_start env S)\<lparr>made := Suc (made S), pipes := (pipes S)(made S \<mapsto> st)\<rparr>)"
      "fresh_pipe env (made S) xen_shm_pipe_mod_read [] st" by simp_all
    obtain r out st' where offer: "xen_shm_pipe_offers (penv env (made S)) (proposed_page_page_count (idata S))
        (uc_domid (as_client_hello b)) st = (r, out, st')" by (metis prod_cases3)
    then show ?thesis
      using hello_offer_succeeds [OF wf len block made, of out st' source]
        hello_offer_fails [OF wf len block made(1) offer, of source] by (cases "r = 0") auto
  qed
qed

section \<open>The callback as a whole\<close>

text \<open>The next datagram is \<open>d\<close>, from \<open>source\<close>, and has the message \<open>m\<close>.\<close>

definition next_datagram :: "proc_env \<Rightarrow> server \<Rightarrow> sockaddr_in \<Rightarrow> u8 \<Rightarrow> memory \<Rightarrow> bool" where
  "next_datagram env S source m d \<longleftrightarrow> length (stack_buffer env) = XEN_SHM_UDP_PROTO_MAX_LEN
     \<and> n_dgram (nanswer env (ntrace S) N_recv) = Some d \<and> n_from (nanswer env (ntrace S) N_recv) = source
     \<and> n_addrlen (nanswer env (ntrace S) N_recv) = sizeof_sockaddr_in \<and> sizeof_header \<le> length d
     \<and> uh_version (as_header d) = XEN_SHM_UDP_PROTO_VERSION \<and> uh_message (as_header d) = m"

lemma cb_on_datagram:
  assumes "next_datagram env S source m d"
  defines "b \<equiv> receive_into (stack_buffer env) d" and "T \<equiv> snd (ndo env N_recv S)" and "len \<equiv> min 40 (length d)"
  shows "udp_readable_cb env EV_READ S =
    (if m = XEN_SHM_UDP_PROTO_CLIENT_HELLO then cb_client_hello env source len b T
     else if m = XEN_SHM_UDP_PROTO_CLIENT_RESET then cb_client_reset env source b T
     else if m = XEN_SHM_UDP_PROTO_CLIENT_GRANT then cb_client_grant env source len b T
     else Some T)"
proof -
  have "8 \<le> length d" "length (stack_buffer env) = 40" using assms(1) by (simp_all add: next_datagram_def)
  then have "as_header b = as_header d" unfolding b_def by (intro as_receive(1)) simp_all
  then show ?thesis
    using assms(1) by (auto simp: udp_readable_cb_def next_datagram_def received_def flag_set_def ndo_def b_def T_def len_def)
qed

lemma cb_outcome_same: "server_wf S xs ys \<Longrightarrow> cb_outcome xs ys S"
  by (simp add: cb_outcome_def)

lemma hello_short: "len < sizeof_client_hello \<Longrightarrow> cb_client_hello env source len b S = Some S"
  by (simp add: cb_client_hello_def)

lemma cb_client_hello_outcome:
  assumes "server_wf S xs ys" "length b = XEN_SHM_UDP_PROTO_MAX_LEN"
  shows "\<exists>S'. cb_client_hello env source len b S = Some S' \<and> cb_outcome xs ys S'"
proof (cases "sizeof_client_hello \<le> len")
  case True
  from cb_client_hello_run [OF assms(1) True assms(2)] show ?thesis
    unfolding hello_granted_def hello_refused_def cb_outcome_def Let_def by blast
next
  case False
  with assms(1) show ?thesis by (simp add: hello_short cb_outcome_same)
qed

lemma cb_client_reset_outcome:
  assumes "server_wf S xs ys"
  shows "\<exists>S'. cb_client_reset env source b S = Some S' \<and> cb_outcome xs ys S'"
  using cb_client_reset_run [OF assms, of env source b] assms
  by (auto simp: cb_outcome_def split: option.splits)

lemma udp_readable_cb_run:
  assumes wf: "server_wf S xs ys" and stack: "length (stack_buffer env) = XEN_SHM_UDP_PROTO_MAX_LEN"
  shows "\<exists>S'. udp_readable_cb env revents S = Some S' \<and> cb_outcome xs ys S'"
proof -
  let ?T = "snd (ndo env N_recv S)"
  obtain len b where rc: "received (nanswer env (ntrace S) N_recv) (stack_buffer env) = (len, b)" by fastforce
  then have b: "length b = XEN_SHM_UDP_PROTO_MAX_LEN" using stack by (auto simp: received_def split: option.splits)
  have T: "server_wf ?T xs ys" and same: "cb_outcome xs ys S" "cb_outcome xs ys ?T"
    "cb_outcome xs ys (snd (ndo env c S))" "cb_outcome xs ys (snd (ndo env c ?T))" for c
    using wf by (simp_all add: cb_outcome_def)
  have grant: "\<exists>S'. cb_client_grant env s n b ?T = Some S' \<and> cb_outcome xs ys S'" for s n
    using cb_client_grant_run [OF T, of env s n b] by blast
  show ?thesis
    using cb_client_hello_outcome [OF T b, of env] cb_client_reset_outcome [OF T, of env] grant same rc
    unfolding udp_readable_cb_def server_clean_def by (simp add: Let_def split_beta) 
qed

section \<open>Properties\<close>

text \<open>C18.  The callback of the server is safe in every state in which the list of half-opened connections \<open>xs\<close> and the
  list of threads \<open>ys\<close> are well formed: whatever event and datagram come and whatever the system calls answer, it
  returns without touching a freed block or pipe, and then the lists are as before, or have one more
  thread, or one more opening, or one opening less, and are well formed again; only if the opening that went was the
  newest one, the list still begins with it although its block is freed.\<close>

theorem server_callback_outcome:
  assumes "server_wf S xs ys" "length (stack_buffer env) = XEN_SHM_UDP_PROTO_MAX_LEN"
  shows "\<exists>S'. udp_readable_cb env revents S = Some S'
    \<and> (server_wf S' xs ys \<or> (\<exists>c. server_wf S' xs (c # ys)) \<or> (\<exists>x. server_wf S' (x # xs) ys)
      \<or> (\<exists>x \<in> set (tl xs). openings S' x = None \<and> server_wf S' (remove1 x xs) ys)
      \<or> (\<exists>x zs. xs = x # zs \<and> openings S' x = None \<and> current (idata S') = Some x))"
proof -
  from udp_readable_cb_run [OF assms, of revents] obtain S' where
    S': "udp_readable_cb env revents S = Some S'" "cb_outcome xs ys S'" by blast
  have "x \<in> set (tl xs)" if "x \<in> set xs" "x \<noteq> hd xs" for x using that by (cases xs) auto
  moreover have "\<exists>zs. xs = hd xs # zs" if "x \<in> set xs" for x using that by (cases xs) auto
  ultimately show ?thesis using S' unfolding cb_outcome_def opening_dropped_def by metis
qed

text \<open>A server with no connection yet, which offers two pages.\<close>

definition small_server :: server where
  "small_server = \<lparr>pipes = Map.empty, made = 0, gone = Map.empty, blocks = 0, ntrace = [],
     openings = Map.empty, children = Map.empty,
     idata = \<lparr>proposed_page_page_count = 2, id_private_data = 0, initializer = 0, childs = None, current = None\<rparr>\<rparr>"

lemma small_server_wf: "server_wf small_server [] []"
  by (simp add: server_wf_def proc_wf_def small_server_def)

definition small_hello :: xen_shm_udp_proto_client_hello where
  "small_hello = \<lparr>uc_header = small_header XEN_SHM_UDP_PROTO_CLIENT_HELLO, uc_domid = 9\<rparr>"

abbreviation (input) small_net :: "memory \<Rightarrow> proc_env" where
  "small_net d \<equiv> small_proc_env 7 (\<lambda>_. Some d)"

lemma small_stack: "length (stack_buffer (small_proc_env dm net)) = XEN_SHM_UDP_PROTO_MAX_LEN"
  by (simp add: small_proc_env_def)

theorem server_callback_outcome_witness:
  "\<exists>S'. udp_readable_cb (small_net (client_hello_bytes small_hello)) EV_READ small_server = Some S'
    \<and> (server_wf S' [] [] \<or> (\<exists>c. server_wf S' [] [c]) \<or> (\<exists>x. server_wf S' [x] [])
      \<or> (\<exists>x \<in> set (tl []). openings S' x = None \<and> server_wf S' (remove1 x []) [])
      \<or> (\<exists>x zs. [] = x # zs \<and> openings S' x = None \<and> current (idata S') = Some x))"
  by (rule server_callback_outcome [OF small_server_wf small_stack])

text \<open>A hello message is answered at once, on every way.  Either the server makes a pipe, offers its pages to
  the domain of the client, puts an opening for the source in front of the list and sends exactly one message to the
  source, of 18 bytes, which names the domain and the reference the device gave, its mode and its pages; nothing in it
  depends on what the stack held before.  Or the list and the pipes stay as they were and the answer is one
  reset, or no message if there is no memory for an opening.\<close>

theorem hello_outcome:
  assumes "server_wf S xs ys" "next_datagram env S source XEN_SHM_UDP_PROTO_CLIENT_HELLO d"
    and "sizeof_client_hello \<le> length d"
  shows "\<exists>S'. udp_readable_cb env EV_READ S = Some S'
    \<and> (hello_granted env source (as_client_hello d) xs ys (snd (ndo env N_recv S)) S'
      \<or> hello_refused source (as_client_hello d) xs ys (snd (ndo env N_recv S)) S')"
proof -
  have stack: "length (stack_buffer env) = 40" using assms(2) by (simp add: next_datagram_def)
  have "as_client_hello (receive_into (stack_buffer env) d) = as_client_hello d"
    using as_receive(2) [OF assms(3)] stack by simp
  then show ?thesis
    using cb_on_datagram [OF assms(2)] cb_client_hello_run [of "snd (ndo env N_recv S)" xs ys "min 40 (length d)"
        "receive_into (stack_buffer env) d" env source] assms(1,3) stack by simp
qed

lemma small_next_datagram:
  assumes "sizeof_header \<le> length d" "uh_version (as_header d) = XEN_SHM_UDP_PROTO_VERSION"
  shows "next_datagram (small_net d) S \<lparr>sin_port = 5000, sin_addr = 1\<rparr> (uh_message (as_header d)) d"
  using assms by (simp add: next_datagram_def small_proc_env_def)

lemma small_hello_views:
  "as_header (client_hello_bytes small_hello) = small_header XEN_SHM_UDP_PROTO_CLIENT_HELLO"
  "as_client_hello (client_hello_bytes small_hello) = small_hello"
  using as_header_within(1) [of small_hello "[]"] as_client_hello_bytes [of small_hello "[]"]
  by (simp_all add: small_hello_def)

theorem hello_outcome_witness:
  "\<exists>S'. udp_readable_cb (small_net (client_hello_bytes small_hello)) EV_READ small_server = Some S'
    \<and> (hello_granted (small_net (client_hello_bytes small_hello)) \<lparr>sin_port = 5000, sin_addr = 1\<rparr> small_hello [] []
        (snd (ndo (small_net (client_hello_bytes small_hello)) N_recv small_server)) S'
      \<or> hello_refused \<lparr>sin_port = 5000, sin_addr = 1\<rparr> small_hello [] []
        (snd (ndo (small_net (client_hello_bytes small_hello)) N_recv small_server)) S')"
  using hello_outcome [OF small_server_wf, of "small_net (client_hello_bytes small_hello)"
      "\<lparr>sin_port = 5000, sin_addr = 1\<rparr>" "client_hello_bytes small_hello"]
    small_next_datagram [of "client_hello_bytes small_hello" small_server]
  by (simp add: small_hello_views)


text \<open>A server with one half-opened connection.\<close>

definition small_opening :: opening_list where
  "small_opening = \<lparr>o_distant_port = 5000, o_distant_addr = 1, o_receive_fd = Some 0, o_next = None\<rparr>"

definition small_opened :: server where
  "small_opened = small_server\<lparr>pipes := [0 \<mapsto> small_end xen_shm_pipe_mod_read small_area], made := 1, blocks := 1,
     openings := [0 \<mapsto> small_opening], idata := (idata small_server)\<lparr>current := Some 0\<rparr>\<rparr>"

lemma small_opened_wf: "server_wf small_opened [0] []"
  by (simp add: server_wf_def proc_wf_def small_opened_def small_server_def opening_pipe_def small_opening_def)

abbreviation (input) small_reset :: memory where
  "small_reset \<equiv> header_bytes (small_header XEN_SHM_UDP_PROTO_CLIENT_RESET)"

lemma small_reset_view: "as_header small_reset = small_header XEN_SHM_UDP_PROTO_CLIENT_RESET"
  using as_header_bytes [of "small_header XEN_SHM_UDP_PROTO_CLIENT_RESET" "[]"] by simp


end
