(* ===== verification/Server_Run.thy ===== *)
theory Server_Run
  imports Server_Lib
begin

text \<open>
  Running the server (\<^verbatim>\<open>run_server\<close>): setting up, the event loop and the shutdown.  The event loop of \<^verbatim>\<open>libev\<close> is the
  list of the events that it delivers: callbacks for the socket, the signal that starts the timer, and the timer that
  ends the loop.
\<close>

section \<open>Definitions\<close>

subsection \<open>Shutdown\<close>

definition close_opening :: "proc_env \<Rightarrow> nat \<Rightarrow> server \<Rightarrow> (nat option \<times> server) option" where
  "close_opening env x S =
    do {
      n \<leftarrow> openings S x;
      S \<leftarrow> (if o_receive_fd n \<noteq> None then pr_free env (o_receive_fd n) S else Some S);
      Some (o_next n, S\<lparr>ntrace := ntrace S @ [N_free x], openings := (openings S)(x := None)\<rparr>)
    }"

definition stop_child :: "nat \<Rightarrow> server \<Rightarrow> (nat option \<times> server) option" where
  "stop_child c S =
    do {
      n \<leftarrow> children S c;
      Some (c_next n, S\<lparr>children := (children S)(c \<mapsto> n\<lparr>c_child_data := (c_child_data n)\<lparr>hd_stop := 1\<rparr>\<rparr>)\<rparr>)
    }"

definition join_child :: "proc_env \<Rightarrow> nat \<Rightarrow> server \<Rightarrow> (nat option \<times> server) option" where
  "join_child env c S =
    do {
      n \<leftarrow> children S c;
      Some (c_next n, snd (ndo env (N_pthread_join (c_child n)) S))
    }"

definition release_child :: "nat \<Rightarrow> server \<Rightarrow> (nat option \<times> server) option" where
  "release_child c S =
    do {
      n \<leftarrow> children S c;
      Some (c_next n, S\<lparr>ntrace := ntrace S @ [N_free c], children := (children S)(c := None)\<rparr>)
    }"

definition shutdown_server :: "proc_env \<Rightarrow> server \<Rightarrow> server option" where
  "shutdown_server env S =
    do {
      S \<leftarrow> walk (close_opening env) (current (idata S)) S;
      S \<leftarrow> walk stop_child (childs (idata S)) S;
      S \<leftarrow> walk (join_child env) (childs (idata S)) S;
      walk release_child (childs (idata S)) S
    }"

subsection \<open>The event loop\<close>

datatype server_event = Ev_io u32 | Ev_signal | Ev_timer

text \<open>\<^verbatim>\<open>event_end\<close> ends the loop: the flag of the result tells whether it did.  A server that exits, or that has no event
  to handle, does not come back.\<close>

fun ev_loop :: "proc_env \<Rightarrow> server_event list \<Rightarrow> server \<Rightarrow> (bool \<times> server) option" where
  "ev_loop env [] S = Some (False, S)"
| "ev_loop env (Ev_timer # es) S = Some (True, S)"
| "ev_loop env (Ev_signal # es) S = ev_loop env es (server_clean env S)"
| "ev_loop env (Ev_io revents # es) S =
    do {
      S \<leftarrow> udp_readable_cb env revents S;
      (if N_exit 1 \<in> set (ntrace S) then Some (False, S) else ev_loop env es S)
    }"

subsection \<open>The whole run\<close>

definition nfree :: "nat \<Rightarrow> server \<Rightarrow> server" where
  "nfree x S = S\<lparr>ntrace := ntrace S @ [N_free x]\<rparr>"

definition run_free_data :: "nat \<Rightarrow> nat \<Rightarrow> nat \<Rightarrow> server \<Rightarrow> (int option \<times> server) option" where
  "run_free_data d event killer S = Some (Some 0, nfree killer (nfree event (nfree d S)))"

definition run_close_fd :: "proc_env \<Rightarrow> nat \<Rightarrow> nat \<Rightarrow> nat \<Rightarrow> server \<Rightarrow> (int option \<times> server) option" where
  "run_close_fd env d event killer S = run_free_data d event killer (snd (ndo env N_shutdown S))"

text \<open>The result is the return value, \<open>None\<close> while the loop goes on, and the process.\<close>

definition run_server ::
  "proc_env \<Rightarrow> int \<Rightarrow> u8 \<Rightarrow> nat \<Rightarrow> nat \<Rightarrow> server_event list \<Rightarrow> server \<Rightarrow> (int option \<times> server) option" where
  "run_server env port pages init private_data events S =
    (case ncalloc env S of
       (None, S) \<Rightarrow> Some (Some (-1), S)
     | (Some killer, S) \<Rightarrow>
         (case ncalloc env S of
            (None, S) \<Rightarrow> Some (Some (-1), nfree killer S)
          | (Some event, S) \<Rightarrow>
              (case ncalloc env S of
                 (None, S) \<Rightarrow> Some (Some (-1), nfree event (nfree killer S))
               | (Some d, S) \<Rightarrow>
                   let S = S\<lparr>idata := \<lparr>proposed_page_page_count = pages, id_private_data = private_data, initializer = init,
                         childs = None, current = None\<rparr>\<rparr>;
                       (a, S) = ndo env N_socket S
                   in if n_ret a < 0 then run_free_data d event killer S
                   else let (a, S) = ndo env (N_bind (htons (of_int port))) S
                   in if n_ret a < 0 then run_close_fd env d event killer S
                   else do {
                     (ended, S) \<leftarrow> ev_loop env events S;
                     (if ended
                      then do {
                        S \<leftarrow> shutdown_server env S;
                        run_close_fd env d event killer S
                      }
                      else Some (None, S))
                   })))"

section \<open>The four loops\<close>

definition closable :: "nat list \<Rightarrow> server \<Rightarrow> bool" where
  "closable xs S \<longleftrightarrow> distinct xs \<and> (\<forall>x \<in> set xs. \<exists>k. opening_pipe S x = Some k \<and> pipes S k \<noteq> None)
     \<and> distinct (map (opening_pipe S) xs)"

lemma close_opening_run:
  assumes "closable (x # xs) S" "openings S x = Some n"
  shows "\<exists>k st. o_receive_fd n = Some k \<and> pipes S k = Some st
    \<and> close_opening env x S = Some (o_next n, S\<lparr>pipes := (pipes S)(k := None),
        gone := (gone S)(k \<mapsto> xen_shm_pipe_free (penv env k) st),
        ntrace := ntrace S @ [N_pipe_free k, N_free x], openings := (openings S)(x := None)\<rparr>)"
  using assms by (auto simp: closable_def opening_pipe_def close_opening_def pr_free_def)

lemma closable_rest:
  assumes "closable (x # xs) S" "opening_pipe S x = Some k"
    and "openings S' = (openings S)(x := None)" "pipes S' = (pipes S)(k := None)"
  shows "closable xs S'"
proof -
  have same: "opening_pipe S' y = opening_pipe S y" if "y \<in> set xs" for y
    using that assms(1,3) by (auto simp: closable_def opening_pipe_def)
  then have "distinct (map (opening_pipe S') xs) = distinct (map (opening_pipe S) xs)" by (rule distinct_map_cong)
  moreover have "opening_pipe S y \<noteq> Some k" if "y \<in> set xs" for y
    using that assms(1,2) by (auto simp: closable_def) (metis image_eqI)
  ultimately show ?thesis using assms same by (auto simp: closable_def) metis
qed

interpretation closing: list_walk openings o_next "close_opening env" closable for env
proof unfold_locales
  fix x xs S n assume a: "closable (x # xs) S" "openings S x = Some n"
  from close_opening_run [OF a, of env] obtain k st where r: "o_receive_fd n = Some k"
    "close_opening env x S = Some (o_next n, S\<lparr>pipes := (pipes S)(k := None),
        gone := (gone S)(k \<mapsto> xen_shm_pipe_free (penv env k) st),
        ntrace := ntrace S @ [N_pipe_free k, N_free x], openings := (openings S)(x := None)\<rparr>)" by blast
  have "opening_pipe S x = Some k" using a(2) r(1) by (simp add: opening_pipe_def)
  with r(2) closable_rest [OF a(1)] a(1)
  show "\<exists>S'. close_opening env x S = Some (o_next n, S') \<and> closable xs S' \<and> (\<forall>y \<in> set xs. openings S' y = openings S y)"
    by (auto simp: closable_def)
qed

interpretation stopping: list_walk children c_next stop_child "\<lambda>xs _. distinct xs"
  by unfold_locales (auto simp: stop_child_def)

interpretation joining: list_walk children c_next "join_child env" "\<lambda>xs _. True" for env
  by unfold_locales (auto simp: join_child_def)

interpretation releasing: list_walk children c_next release_child "\<lambda>xs _. distinct xs"
  by unfold_locales (auto simp: release_child_def)

text \<open>The effect of each loop on the whole state.\<close>

lemma close_all:
  fixes env :: proc_env
  assumes "closable xs S"
  defines "S' \<equiv> fold (\<lambda>x S. snd (the (close_opening env x S))) xs S"
  shows "openings S' = (\<lambda>x. if x \<in> set xs then None else openings S x) \<and> children S' = children S \<and> idata S' = idata S
    \<and> pipes S' = (\<lambda>k. if Some k \<in> opening_pipe S ` set xs then None else pipes S k)
    \<and> ntrace S' = ntrace S @ concat (map (\<lambda>x. [N_pipe_free (the (opening_pipe S x)), N_free x]) xs)"
  using assms(1) unfolding S'_def
proof (induction xs arbitrary: S)
  case (Cons x xs)
  then obtain n where n: "openings S x = Some n" by (auto simp: closable_def opening_pipe_def bind_eq_Some_conv)
  from close_opening_run [OF Cons.prems n, of env] obtain k st where k: "o_receive_fd n = Some k" and run:
    "close_opening env x S = Some (o_next n, S\<lparr>pipes := (pipes S)(k := None),
        gone := (gone S)(k \<mapsto> xen_shm_pipe_free (penv env k) st),
        ntrace := ntrace S @ [N_pipe_free k, N_free x], openings := (openings S)(x := None)\<rparr>)" by blast
  let ?S = "S\<lparr>pipes := (pipes S)(k := None), gone := (gone S)(k \<mapsto> xen_shm_pipe_free (penv env k) st),
        ntrace := ntrace S @ [N_pipe_free k, N_free x], openings := (openings S)(x := None)\<rparr>"
  have p: "opening_pipe S x = Some k" using n k by (simp add: opening_pipe_def)
  have rest: "closable xs ?S" by (rule closable_rest [OF Cons.prems p]) simp_all
  have x: "x \<notin> set xs" using Cons.prems by (simp add: closable_def)
  have same: "opening_pipe ?S y = opening_pipe S y" if "y \<in> set xs" for y
    using that x by (auto simp: opening_pipe_def)
  have img: "opening_pipe ?S ` set xs = opening_pipe S ` set xs" by (intro image_cong refl same)
  have tr: "map (\<lambda>x. [N_pipe_free (the (opening_pipe ?S x)), N_free x]) xs
      = map (\<lambda>x. [N_pipe_free (the (opening_pipe S x)), N_free x]) xs"
    by (intro map_cong refl) (simp only: same)
  from Cons.IH [OF rest, unfolded img tr] run p show ?case by (auto simp: fun_eq_iff)
qed (simp add: fun_eq_iff)

definition stopped :: "pthread_list \<Rightarrow> pthread_list" where
  "stopped n = n\<lparr>c_child_data := (c_child_data n)\<lparr>hd_stop := 1\<rparr>\<rparr>"

lemma stop_all:
  assumes "distinct ys" "\<And>y. y \<in> set ys \<Longrightarrow> children S y \<noteq> None"
  shows "fold (\<lambda>c S. snd (the (stop_child c S))) ys S =
    S\<lparr>children := (\<lambda>c. if c \<in> set ys then map_option stopped (children S c) else children S c)\<rparr>"
  using assms
proof (induction ys arbitrary: S)
  case (Cons y ys)
  then obtain n where n: "children S y = Some n" by fastforce
  have "fold (\<lambda>c S. snd (the (stop_child c S))) ys (S\<lparr>children := (children S)(y \<mapsto> stopped n)\<rparr>) =
     S\<lparr>children := (\<lambda>c. if c \<in> set ys then map_option stopped (children S c) else ((children S)(y \<mapsto> stopped n)) c)\<rparr>"
    using Cons.prems by (subst Cons.IH) (auto simp: fun_eq_iff intro!: arg_cong [where f = "\<lambda>h. S\<lparr>children := h\<rparr>"])
  also have "\<dots> = S\<lparr>children := (\<lambda>c. if c \<in> set (y # ys) then map_option stopped (children S c) else children S c)\<rparr>"
    using Cons.prems(1) n by (intro arg_cong [where f = "\<lambda>h. S\<lparr>children := h\<rparr>"]) (auto simp: fun_eq_iff)
  finally show ?case using n by (simp add: stop_child_def stopped_def)
qed simp

lemma join_all:
  assumes "\<And>y. y \<in> set ys \<Longrightarrow> children S y \<noteq> None"
  shows "fold (\<lambda>c S. snd (the (join_child env c S))) ys S =
    S\<lparr>ntrace := ntrace S @ map (\<lambda>y. N_pthread_join (c_child (the (children S y)))) ys\<rparr>"
  using assms
proof (induction ys arbitrary: S)
  case (Cons y ys)
  then obtain n where "children S y = Some n" by fastforce
  with Cons show ?case by (simp add: join_child_def ndo_def)
qed simp

lemma release_all:
  assumes "distinct ys" "\<And>y. y \<in> set ys \<Longrightarrow> children S y \<noteq> None"
  shows "fold (\<lambda>c S. snd (the (release_child c S))) ys S =
    S\<lparr>ntrace := ntrace S @ map N_free ys, children := (\<lambda>c. if c \<in> set ys then None else children S c)\<rparr>"
  using assms
proof (induction ys arbitrary: S)
  case (Cons y ys)
  then obtain n where n: "children S y = Some n" by fastforce
  let ?S = "S\<lparr>ntrace := ntrace S @ [N_free y], children := (children S)(y := None)\<rparr>"
  have "release_child y S = Some (c_next n, ?S)" using n by (simp add: release_child_def)
  moreover have "fold (\<lambda>c S. snd (the (release_child c S))) ys ?S = ?S\<lparr>ntrace := ntrace ?S @ map N_free ys,
      children := (\<lambda>c. if c \<in> set ys then None else children ?S c)\<rparr>"
    using Cons.prems by (intro Cons.IH) auto
  ultimately show ?case by (auto simp: fun_eq_iff intro!: arg_cong [where f = "\<lambda>h. S\<lparr>ntrace := _, children := h\<rparr>"])
qed simp

section \<open>Shutdown\<close>

text \<open>The calls of a shutdown, in order.\<close>

definition shutdown_calls :: "server \<Rightarrow> nat list \<Rightarrow> nat list \<Rightarrow> net_call list" where
  "shutdown_calls S xs ys = concat (map (\<lambda>x. [N_pipe_free (the (opening_pipe S x)), N_free x]) xs)
     @ map (\<lambda>y. N_pthread_join (c_child (the (children S y)))) ys @ map N_free ys"

lemma shutdown_stages:
  assumes wf: "server_wf S xs ys"
  obtains S1 S2 S3 where "walk (close_opening env) (current (idata S)) S = Some S1"
    and "walk stop_child (childs (idata S1)) S1 = Some S2" "walk (join_child env) (childs (idata S2)) S2 = Some S3"
    and "\<And>y. y \<in> set ys \<Longrightarrow> \<exists>n. children S2 y = Some n \<and> hd_stop (c_child_data n) = 1" "ntrace S2 = ntrace S1"
    and "walk release_child (childs (idata S3)) S3 = Some (S3\<lparr>ntrace := ntrace S @ shutdown_calls S xs ys,
      children := (\<lambda>c. if c \<in> set ys then None else children S c)\<rparr>)"
    and "openings S3 = (\<lambda>x. if x \<in> set xs then None else openings S x)"
    and "pipes S3 = (\<lambda>k. if Some k \<in> opening_pipe S ` set xs then None else pipes S k)"
proof -
  note l = server_wf_lists [OF wf]
  define S1 where "S1 = fold (\<lambda>x S. snd (the (close_opening env x S))) xs S"
  have clos: "closable xs S" using wf by (simp add: closable_def server_wf_def)
  note S1 = close_all [OF clos, of env, folded S1_def]
  have w1: "walk (close_opening env) (current (idata S)) S = Some S1"
    unfolding S1_def by (rule closing.walk_total [OF l(1) clos])
  have seg1: "lseg c_next (children S1) (childs (idata S1)) ys None" using S1 l(3) by simp
  have inh: "children S1 y \<noteq> None" if "y \<in> set ys" for y using lseg_in_heap [OF seg1 that] by auto
  define S2 where "S2 = S1\<lparr>children := (\<lambda>c. if c \<in> set ys then map_option stopped (children S1 c) else children S1 c)\<rparr>"
  have w2: "walk stop_child (childs (idata S1)) S1 = Some S2"
    using stopping.walk_total [OF seg1 l(4)] stop_all [OF l(4) inh] by (simp add: S2_def)
  have "lseg c_next (children S2) (childs (idata S2)) ys None"
    using lseg_cong [of ys c_next "children S2" "children S1"] seg1
    by (simp add: S2_def option.map_comp comp_def stopped_def)
  note seg2 = this
  have inh2: "children S2 y \<noteq> None" if "y \<in> set ys" for y using inh [OF that] that by (simp add: S2_def)
  define S3 where "S3 = S2\<lparr>ntrace := ntrace S2 @ map (\<lambda>y. N_pthread_join (c_child (the (children S2 y)))) ys\<rparr>"
  have w3: "walk (join_child env) (childs (idata S2)) S2 = Some S3"
    using joining.walk_total [OF seg2, of env] join_all [OF inh2] by (simp add: S3_def)
  have w4: "walk release_child (childs (idata S3)) S3 = Some (S3\<lparr>ntrace := ntrace S3 @ map N_free ys,
      children := (\<lambda>c. if c \<in> set ys then None else children S3 c)\<rparr>)"
    using releasing.walk_total [OF _ l(4), of S3 "childs (idata S3)"] seg2 release_all [OF l(4), of S3] inh2
    by (simp add: S3_def)
  have "map (\<lambda>y. N_pthread_join (c_child (the (children S2 y)))) ys = map (\<lambda>y. N_pthread_join (c_child (the (children S y)))) ys"
    using inh S1 by (intro map_cong refl) (simp add: S2_def stopped_def option.map_sel)
  then have tr: "ntrace S3 @ map N_free ys = ntrace S @ shutdown_calls S xs ys"
    using S1 by (simp add: S3_def shutdown_calls_def) (simp add: S2_def)
  have ch: "(\<lambda>c. if c \<in> set ys then None else children S3 c) = (\<lambda>c. if c \<in> set ys then None else children S c)"
    using S1 by (simp add: S3_def S2_def fun_eq_iff)
  have stop: "\<exists>n. children S2 y = Some n \<and> hd_stop (c_child_data n) = 1" if "y \<in> set ys" for y
  proof -
    from inh [OF that] obtain z where "children S1 y = Some z" by blast
    with that show ?thesis by (simp add: S2_def stopped_def)
  qed
  show ?thesis
    by (rule that [OF w1 w2 w3 stop _ w4 [unfolded tr ch]]) (use S1 in \<open>simp_all add: S3_def S2_def\<close>)
qed

lemma shutdown_run:
  assumes "server_wf S xs ys"
  shows "\<exists>S'. shutdown_server env S = Some S' \<and> ntrace S' = ntrace S @ shutdown_calls S xs ys"
proof (rule shutdown_stages [OF assms, of env])
qed (simp add: shutdown_server_def)

section \<open>The whole run\<close>

text \<open>The newest opening is never dropped.\<close>

definition keeps_newest :: "proc_env \<Rightarrow> bool" where
  "keeps_newest env \<longleftrightarrow> (\<forall>S xs ys revents S'. server_wf S xs ys \<longrightarrow> udp_readable_cb env revents S = Some S' \<longrightarrow>
     (\<forall>x \<in> set xs. opening_dropped x xs ys S' \<longrightarrow> x \<noteq> hd xs))"

lemma cb_keeps_wf:
  assumes "server_wf S xs ys" "keeps_newest env" "length (stack_buffer env) = XEN_SHM_UDP_PROTO_MAX_LEN"
  shows "\<exists>S' xs' ys'. udp_readable_cb env revents S = Some S' \<and> server_wf S' xs' ys'"
proof -
  from udp_readable_cb_run [OF assms(1,3), of revents] obtain S' where
    S': "udp_readable_cb env revents S = Some S'" "cb_outcome xs ys S'" by blast
  have "server_wf S' (remove1 x xs) ys" if "x \<in> set xs" "opening_dropped x xs ys S'" for x
    using assms(1,2) S'(1) that unfolding keeps_newest_def opening_dropped_def by metis
  with S' show ?thesis unfolding cb_outcome_def by blast
qed

lemma ev_loop_run:
  assumes "server_wf S xs ys" "keeps_newest env" "length (stack_buffer env) = XEN_SHM_UDP_PROTO_MAX_LEN"
  shows "\<exists>e S' xs' ys'. ev_loop env es S = Some (e, S') \<and> server_wf S' xs' ys'"
  using assms(1)
proof (induction es arbitrary: S xs ys)
  case (Cons e es)
  show ?case
  proof (cases e)
    case (Ev_io r)
    from cb_keeps_wf [OF Cons.prems assms(2,3), of r] obtain S' xs' ys' where
      "udp_readable_cb env r S = Some S'" "server_wf S' xs' ys'" by blast
    with Cons.IH [of S'] Ev_io show ?thesis by auto
  next
    case Ev_signal
    with Cons show ?thesis by (simp add: server_clean_def)
  next
    case Ev_timer
    with Cons show ?thesis by auto
  qed
qed auto

lemma server_wf_start:
  assumes "proc_wf S" "openings S = Map.empty" "children S = Map.empty"
  shows "server_wf (S\<lparr>idata := \<lparr>proposed_page_page_count = p, id_private_data = d, initializer = i,
    childs = None, current = None\<rparr>\<rparr>) [] []"
  using assms by (simp add: server_wf_def proc_wf_def)

text \<open>The part behind the three allocations.\<close>

definition run_loop :: "proc_env \<Rightarrow> int \<Rightarrow> server_event list \<Rightarrow> nat \<Rightarrow> nat \<Rightarrow> nat \<Rightarrow> server \<Rightarrow> (int option \<times> server) option" where
  "run_loop env port events d event killer S =
    (let (a, S) = ndo env N_socket S
     in if n_ret a < 0 then run_free_data d event killer S
     else let (a, S) = ndo env (N_bind (htons (of_int port))) S
     in if n_ret a < 0 then run_close_fd env d event killer S
     else do {
       (ended, S) \<leftarrow> ev_loop env events S;
       (if ended
        then do {
          S \<leftarrow> shutdown_server env S;
          run_close_fd env d event killer S
        }
        else Some (None, S))
     })"

lemma run_loop_run:
  assumes wf: "server_wf S xs ys" and env: "keeps_newest env" "length (stack_buffer env) = XEN_SHM_UDP_PROTO_MAX_LEN"
  shows "\<exists>r S'. run_loop env port events d event killer S = Some (r, S')
    \<and> (r = None \<and> (\<exists>xs ys. server_wf S' xs ys) \<or> r = Some 0 \<and> {N_free d, N_free event, N_free killer} \<subseteq> set (ntrace S'))"
proof -
  let ?S1 = "snd (ndo env N_socket S)"
  let ?S2 = "snd (ndo env (N_bind (htons (of_int port))) ?S1)"
  have "server_wf ?S2 xs ys" using wf by simp
  from ev_loop_run [OF this env, of events] obtain e S3 xs' ys' where
    S3: "ev_loop env events ?S2 = Some (e, S3)" "server_wf S3 xs' ys'" by blast
  from shutdown_run [OF S3(2), of env] obtain S4 where S4: "shutdown_server env S3 = Some S4" by blast
  show ?thesis
    using S3 S4 by (auto simp: run_loop_def split_beta Let_def run_close_fd_def run_free_data_def nfree_def)
qed

section \<open>Properties\<close>




text \<open>A network in which every message is a hello.\<close>

lemma cb_by_events:
  "udp_readable_cb env revents S = (if flag_set revents EV_ERROR then Some (server_clean env S)
     else if flag_set revents EV_READ then udp_readable_cb env EV_READ S else Some S)"
  by (simp add: udp_readable_cb_def flag_set_def)

lemma only_hello_keeps_newest: "keeps_newest (small_net (client_hello_bytes small_hello))"
proof -
  let ?env = "small_net (client_hello_bytes small_hello)"
  have "openings S' x \<noteq> None"
    if wf: "server_wf S xs ys" and cb: "udp_readable_cb ?env revents S = Some S'" and x: "x \<in> set xs" for S xs ys revents S' x
  proof -
    have live: "openings S x \<noteq> None" using server_wf_lists(6) [OF wf x] by auto
    have "next_datagram ?env S \<lparr>sin_port = 5000, sin_addr = 1\<rparr> XEN_SHM_UDP_PROTO_CLIENT_HELLO (client_hello_bytes small_hello)"
      using small_next_datagram [of "client_hello_bytes small_hello" S] by (simp add: small_hello_views)
    from cb_on_datagram [OF this] cb_client_hello_run [of "snd (ndo ?env N_recv S)" xs ys 12
        "receive_into (stack_buffer ?env) (client_hello_bytes small_hello)" ?env "\<lparr>sin_port = 5000, sin_addr = 1\<rparr>"] wf
    obtain T where T: "udp_readable_cb ?env EV_READ S = Some T" "openings T x \<noteq> None"
      using server_wf_lists(6) [of _ xs ys x] x live
      by (auto simp: small_stack hello_granted_def hello_refused_def Let_def) metis+
    with cb live show ?thesis
      unfolding cb_by_events [of ?env revents] by (auto simp: server_clean_def split: if_splits)
  qed
  then show ?thesis unfolding keeps_newest_def opening_dropped_def by blast
qed


end
