(* ===== verification/Conn_Handshake.thy ===== *)
theory Conn_Handshake
  imports Client_Lib Server_Run
begin

text \<open>
  The client and the server together: a run of \<^verbatim>\<open>init_pipe\<close> and two callbacks of the server, connected by a network that
  hands over each of the three messages.
\<close>

text \<open>The network: the server at \<open>S\<close> gets the first message \<open>d1\<close> of the client and comes to \<open>S1\<close>, its last message is the
  answer the client receives, and then it gets the second message \<open>d2\<close>.\<close>

definition exchange ::
  "proc_env \<Rightarrow> proc_env \<Rightarrow> sockaddr_in \<Rightarrow> 'a proc_scheme \<Rightarrow> 'a proc_scheme \<Rightarrow> server \<Rightarrow> server \<Rightarrow> bool" where
  "exchange ce se source P P' S S1 \<longleftrightarrow> (\<exists>addr d1 d2 reply.
     take 2 (drop (length (ntrace P)) (ntrace P')) = [N_socket, N_sendto addr d1]
   \<and> sent (drop (length (ntrace P)) (ntrace P')) = [d1, d2]
   \<and> next_datagram se S source XEN_SHM_UDP_PROTO_CLIENT_HELLO d1
   \<and> udp_readable_cb se EV_READ S = Some S1 \<and> last (ntrace S1) = N_sendto source reply
   \<and> n_dgram (nanswer ce (ntrace P @ [N_socket, N_sendto addr d1]) N_recv) = Some reply
   \<and> next_datagram se S1 source XEN_SHM_UDP_PROTO_CLIENT_GRANT d2)"

lemma client_messages:
  assumes "client_connected ce addr pages P P'"
  obtains reply where "n_dgram (nanswer ce (ntrace P @ [N_socket, N_sendto addr (client_hello_bytes (hello_message ce (Suc (made P))))]) N_recv)
      = Some reply"
    and "server_granted reply" "client_pipes ce (made P) pages (as_grant reply) P P'"
    and "drop (length (ntrace P)) (ntrace P') = [N_socket, N_sendto addr (client_hello_bytes (hello_message ce (Suc (made P)))),
      N_recv, N_sendto addr (grant_bytes (grant_reply (second_answer ce (made P)) pages (as_grant reply))), N_shutdown]"
  using assms by (auto simp: client_connected_def Let_def)

text \<open>An answer that lets the client go on shows that the server has granted memory.\<close>

lemma granted_by_answer:
  assumes wf: "server_wf S xs ys" and d: "next_datagram se S source XEN_SHM_UDP_PROTO_CLIENT_HELLO d" "sizeof_client_hello \<le> length d"
    and S1: "udp_readable_cb se EV_READ S = Some S1" "last (ntrace S1) = N_sendto source reply" and reply: "server_granted reply"
  shows "hello_granted se source (as_client_hello d) xs ys (snd (ndo se N_recv S)) S1"
proof -
  have "length reply \<noteq> 8" using reply by (simp add: server_granted_def)
  then have "\<not> hello_refused source (as_client_hello d) xs ys (snd (ndo se N_recv S)) S1"
    using S1(2) by (auto simp: hello_refused_def)
  with cb_on_datagram [OF d(1)] cb_client_hello_run [of "snd (ndo se N_recv S)" xs ys "min 40 (length d)"
      "receive_into (stack_buffer se) d" se source] wf d S1(1) show ?thesis
    by (auto simp: next_datagram_def as_receive)
qed

text \<open>The thread that the second message starts has the pipe of the opening that the first message made.\<close>

lemma thread_after_grant:
  assumes granted: "hello_granted se source h xs ys T S1"
    and d: "next_datagram se S1 source XEN_SHM_UDP_PROTO_CLIENT_GRANT d" "sizeof_grant \<le> length d"
    and S2: "udp_readable_cb se EV_READ S1 = Some S2" "childs (idata S2) \<noteq> childs (idata S1)"
  shows "\<exists>c n srx stx. childs (idata S2) = Some c \<and> children S2 c = Some n
    \<and> hd_receive_fd (c_child_data n) = Some (made T) \<and> hd_send_fd (c_child_data n) = Some (made S1)
    \<and> pipes S2 (made T) = Some srx \<and> pipes S2 (made S1) = Some stx
    \<and> pipe_connected se (made T) xen_shm_pipe_mod_read []
        (\<lambda>f. Sys_init_offerer f (proposed_page_page_count (idata T)) (ucast (uc_domid h))) (proposed_page_page_count (idata T)) srx
    \<and> pipe_connected se (made S1) xen_shm_pipe_mod_write [] (\<lambda>f. Sys_init_receiver f (ug_page_count (as_grant d))
        (ucast (ug_domid (as_grant d))) (ug_grant_ref (as_grant d))) (ug_page_count (as_grant d)) stx"
proof -
  let ?x = "blocks T" and ?U = "snd (ndo se N_recv S1)"
  have wf: "server_wf ?U (?x # xs) ys" using granted by (simp add: hello_granted_def Let_def)
  have "as_grant (receive_into (stack_buffer se) d) = as_grant d"
    using as_receive(3) [OF d(2)] d(1) by (simp add: next_datagram_def)
  with cb_client_grant_run [OF wf, of se source "min 40 (length d)" "receive_into (stack_buffer se) d"]
    cb_on_datagram [OF d(1)] S2
  have served: "grant_served se source (as_grant d) (?x # xs) ?U S2" by auto
  have node: "openings S1 ?x = Some \<lparr>o_distant_port = sin_port source, o_distant_addr = sin_addr source,
      o_receive_fd = Some (made T), o_next = current (idata T)\<rparr>"
    using granted by (simp add: hello_granted_def Let_def)
  then have "find (opening_from (openings ?U) source) (?x # xs) = Some ?x" "opening_pipe ?U ?x = Some (made T)"
    by (simp_all add: opening_from_def opening_pipe_def)
  with served have child: "child_served se (as_grant d) ?x (blocks ?U) (?U\<lparr>ntrace := ntrace ?U @ [N_calloc]\<rparr>) S2"
    by (auto simp: grant_served_def)
  obtain srx where srx: "pipes S1 (made T) = Some srx" "pipe_connected se (made T) xen_shm_pipe_mod_read []
      (\<lambda>f. Sys_init_offerer f (proposed_page_page_count (idata T)) (ucast (uc_domid h))) (proposed_page_page_count (idata T)) srx"
    using granted by (auto simp: hello_granted_def Let_def)
  have "proc_wf S1" using server_wf_lists(5) [of S1 "?x # xs" ys] wf by simp
  then have "made T \<noteq> made S1" using srx(1) by (force simp: proc_wf_def)
  moreover obtain stx n where stx: "pipes S2 = (pipes S1)(made S1 \<mapsto> stx)" "pipe_connected se (made S1) xen_shm_pipe_mod_write []
      (\<lambda>f. Sys_init_receiver f (ug_page_count (as_grant d)) (ucast (ug_domid (as_grant d))) (ug_grant_ref (as_grant d)))
      (ug_page_count (as_grant d)) stx"
    "childs (idata S2) = Some (blocks S1)" "children S2 (blocks S1) = Some n"
    "hd_receive_fd (c_child_data n) = Some (made T)" "hd_send_fd (c_child_data n) = Some (made S1)"
    using child \<open>opening_pipe ?U ?x = Some (made T)\<close> by (auto simp: child_served_def opening_pipe_def)
  ultimately show ?thesis using srx by auto
qed

text \<open>The four requests of the device that belong together: \<open>k\<close> is the receiving and \<open>l\<close> the sending pipe of the client, \<open>m\<close>
  and \<open>n\<close> those of the server; each side offers its receiving pipe to the domain of the other, and each side joins the
  pages, the domain and the reference that the device of the other gave.\<close>

definition cross_connected ::
  "proc_env \<Rightarrow> proc_env \<Rightarrow> u8 \<Rightarrow> u8 \<Rightarrow> 'a proc_scheme \<Rightarrow> nat \<Rightarrow> nat \<Rightarrow> server \<Rightarrow> nat \<Rightarrow> nat \<Rightarrow> bool" where
  "cross_connected ce se cpages spages P k l S m n \<longleftrightarrow> (\<exists>crx ctx srx stx.
     pipes P k = Some crx \<and> pipes P l = Some ctx \<and> pipes S m = Some srx \<and> pipes S n = Some stx
   \<and> pipe_connected se m xen_shm_pipe_mod_read [] (\<lambda>f. Sys_init_offerer f spages (a_domid (second_answer ce l))) spages srx
   \<and> pipe_connected ce l xen_shm_pipe_mod_write [Sys_get_domid (fd (priv ctx))]
       (\<lambda>f. Sys_init_receiver f spages (a_domid (second_answer se m)) (a_grant (second_answer se m))) spages ctx
   \<and> pipe_connected ce k xen_shm_pipe_mod_read [] (\<lambda>f. Sys_init_offerer f cpages (a_domid (second_answer se m))) cpages crx
   \<and> pipe_connected se n xen_shm_pipe_mod_write []
       (\<lambda>f. Sys_init_receiver f cpages (a_domid (second_answer ce k)) (a_grant (second_answer ce k))) cpages stx)"

text \<open>The pipes of the two sides: the client has made its two in a row, the server one for each message.\<close>

lemma handshake_run:
  fixes P P' :: "'a proc_scheme"
  assumes "proc_wf P" "init_pipe ce port ip rfd sfd cpages P = Some (0, rfd', sfd', P')"
    and "server_wf S xs ys" "exchange ce se source P P' S S1"
    and "udp_readable_cb se EV_READ S1 = Some S2" "childs (idata S2) \<noteq> childs (idata S1)"
  shows "rfd' = Some (made P)" "sfd' = Some (Suc (made P))" "made S < made S1"
    "\<exists>c n. childs (idata S2) = Some c \<and> children S2 c = Some n
      \<and> hd_receive_fd (c_child_data n) = Some (made S) \<and> hd_send_fd (c_child_data n) = Some (made S1)"
    "cross_connected ce se cpages (proposed_page_page_count (idata S)) P' (made P) (Suc (made P)) S2 (made S) (made S1)"
proof -
  let ?k = "made P" and ?pages = "proposed_page_page_count (idata S)"
  let ?addr = "\<lparr>sin_port = htons port, sin_addr = ip\<rparr>"
  from init_pipe_run [OF assms(1), of ce port ip rfd sfd cpages] assms(2)
  have c: "client_connected ce ?addr cpages P P'" and fds: "rfd' = Some ?k" "sfd' = Some (Suc ?k)" by auto
  from client_messages [OF c] obtain reply where
    reply: "n_dgram (nanswer ce (ntrace P @ [N_socket, N_sendto ?addr (client_hello_bytes (hello_message ce (Suc ?k)))]) N_recv) = Some reply"
      "server_granted reply" "client_pipes ce ?k cpages (as_grant reply) P P'"
    and tr: "drop (length (ntrace P)) (ntrace P') = [N_socket, N_sendto ?addr (client_hello_bytes (hello_message ce (Suc ?k))),
      N_recv, N_sendto ?addr (grant_bytes (grant_reply (second_answer ce ?k) cpages (as_grant reply))), N_shutdown]" by blast
  let ?d1 = "client_hello_bytes (hello_message ce (Suc ?k))"
  let ?d2 = "grant_bytes (grant_reply (second_answer ce ?k) cpages (as_grant reply))"
  from assms(4) have ex: "next_datagram se S source XEN_SHM_UDP_PROTO_CLIENT_HELLO ?d1"
    "udp_readable_cb se EV_READ S = Some S1" "last (ntrace S1) = N_sendto source reply"
    "next_datagram se S1 source XEN_SHM_UDP_PROTO_CLIENT_GRANT ?d2"
    using reply(1) unfolding exchange_def tr by auto
  have views: "as_client_hello ?d1 = hello_message ce (Suc ?k)"
    "as_grant ?d2 = grant_reply (second_answer ce ?k) cpages (as_grant reply)"
    using as_client_hello_bytes [of _ "[]"] as_grant_bytes [of _ "[]"] by simp_all
  note granted = granted_by_answer [OF assms(3) ex(1) _ ex(2,3) reply(2), unfolded views]
  have rep: "as_grant reply = grant_message (second_answer se (made S)) ?pages (uc_header (hello_message ce (Suc ?k)))"
    using granted ex(3) as_grant_bytes [of _ "[]"] by (auto simp: hello_granted_def Let_def)
  from thread_after_grant [OF granted ex(4) _ assms(5,6), unfolded views]
  have "\<exists>c n srx stx. childs (idata S2) = Some c \<and> children S2 c = Some n
    \<and> hd_receive_fd (c_child_data n) = Some (made S) \<and> hd_send_fd (c_child_data n) = Some (made S1)
    \<and> pipes S2 (made S) = Some srx \<and> pipes S2 (made S1) = Some stx
    \<and> pipe_connected se (made S) xen_shm_pipe_mod_read [] (\<lambda>f. Sys_init_offerer f ?pages (a_domid (second_answer ce (Suc ?k)))) ?pages srx
    \<and> pipe_connected se (made S1) xen_shm_pipe_mod_write []
        (\<lambda>f. Sys_init_receiver f cpages (a_domid (second_answer ce ?k)) (a_grant (second_answer ce ?k))) cpages stx"
    by (simp add: hello_message_def grant_reply_def)
  moreover from reply(3) obtain crx ctx where "pipes P' ?k = Some crx" "pipes P' (Suc ?k) = Some ctx"
    "pipe_connected ce ?k xen_shm_pipe_mod_read [] (\<lambda>f. Sys_init_offerer f cpages (a_domid (second_answer se (made S)))) cpages crx"
    "pipe_connected ce (Suc ?k) xen_shm_pipe_mod_write [Sys_get_domid (fd (priv ctx))]
       (\<lambda>f. Sys_init_receiver f ?pages (a_domid (second_answer se (made S))) (a_grant (second_answer se (made S)))) ?pages ctx"
    by (fastforce simp: client_pipes_def rep grant_message_def)
  ultimately show "cross_connected ce se cpages ?pages P' ?k (Suc ?k) S2 (made S) (made S1)"
    "\<exists>c n. childs (idata S2) = Some c \<and> children S2 c = Some n
      \<and> hd_receive_fd (c_child_data n) = Some (made S) \<and> hd_send_fd (c_child_data n) = Some (made S1)"
    unfolding cross_connected_def by blast+
  show "rfd' = Some ?k" "sfd' = Some (Suc ?k)" by (rule fds)+
  show "made S < made S1" using granted by (auto simp: hello_granted_def Let_def server_wf_def proc_wf_def)
qed

text \<open>The handshake connects the right memory.  When \<^verbatim>\<open>init_pipe\<close> has returned 0, and the server got its two messages and
  gave the answer in between, and the second message has made the server start a thread, then the thread has two pipes;
  the client's sending pipe has joined exactly the pages, domain and grant reference that the device gave the
  server for its receiving pipe, which was offered to the client's domain, and the server's sending pipe those that
  the device gave the client for its receiving pipe, which was offered to the server's domain.\<close>

theorem handshake_agrees:
  fixes P P' :: "'a proc_scheme"
  assumes "proc_wf P" "init_pipe ce port ip rfd sfd cpages P = Some (0, rfd', sfd', P')"
    and "server_wf S xs ys" "exchange ce se source P P' S S1"
    and "udp_readable_cb se EV_READ S1 = Some S2" "childs (idata S2) \<noteq> childs (idata S1)"
  shows "\<exists>c n k l. childs (idata S2) = Some c \<and> children S2 c = Some n
    \<and> hd_receive_fd (c_child_data n) = Some k \<and> hd_send_fd (c_child_data n) = Some l
    \<and> cross_connected ce se cpages (proposed_page_page_count (idata S)) P' (the rfd') (the sfd') S2 k l"
  using handshake_run [OF assms] by auto

section \<open>An exchange\<close>

text \<open>A client in domain 9 with three pages and a server in domain 7 with two, whose calls all succeed.\<close>

definition small_first :: xen_shm_udp_proto_client_hello where
  "small_first = \<lparr>uc_header = \<lparr>uh_version = 1, uh_message = 1, uh_reserved = 0, uh_big_reserved = 0\<rparr>, uc_domid = 9\<rparr>"

definition small_reply :: xen_shm_udp_proto_grant where
  "small_reply = grant_message (small_answer 7 0 1) 2 (uc_header small_first)"

definition small_second :: xen_shm_udp_proto_grant where
  "small_second = grant_reply (small_answer 9 0 1) 3 small_reply"

definition small_client :: proc_env where
  "small_client = small_proc_env 9 (\<lambda>_. Some (grant_bytes small_reply))"

definition small_serving :: proc_env where
  "small_serving = small_proc_env 7 (\<lambda>tr. Some (if tr = [] then client_hello_bytes small_first else grant_bytes small_second))"

lemma small_client_succeeds: "\<exists>P'. init_pipe small_client 80 1 None None 3 small_proc = Some (0, Some 0, Some 1, P')"
proof -
  let ?P0 = "snd (ndo small_client N_socket small_proc)"
  let ?R = xen_shm_pipe_mod_read and ?W = xen_shm_pipe_mod_write and ?C = xen_shm_pipe_conv_reader_offers
  obtain r where r: "pr_init small_client ?R ?C ?P0 = (0, Some 0, ?P0\<lparr>made := 1, pipes := (pipes ?P0)(0 \<mapsto> r)\<rparr>)" 
    "pmod (priv r) = ?R" "pconv (priv r) = ?C"
    using small_init [of 9 "(\<lambda>_. Some (grant_bytes small_reply))" ?R ?C ?P0] by (auto simp: small_client_def small_proc_def)
  let ?P1 = "?P0\<lparr>made := 1, pipes := (pipes ?P0)(0 \<mapsto> r)\<rparr>"
  obtain w where w: "pr_init small_client ?W ?C ?P1 = (0, Some 1, ?P1\<lparr>made := 2, pipes := (pipes ?P1)(1 \<mapsto> w)\<rparr>)" 
    "pmod (priv w) = ?W" "pconv (priv w) = ?C"
    using small_init [of 9 "(\<lambda>_. Some (grant_bytes small_reply))" ?W ?C ?P1] by (auto simp: small_client_def numeral_2_eq_2)
  have "\<not> xen_shm_pipe_is_offerer (priv w)" using w by simp
  from small_getdomid [OF this, of 9 "(\<lambda>_. Some (grant_bytes small_reply))" 1] obtain w1 where 
    w1: "xen_shm_pipe_getdomid (penv small_client 1) w = (0, Some 9, w1)" "priv w1 = priv w" by (auto simp: small_client_def)
  have "\<not> xen_shm_pipe_is_offerer (priv w1)" using w w1 by simp
  from small_connect [OF this, of 9 "(\<lambda>_. Some (grant_bytes small_reply))" 1 "ug_page_count small_reply" "ug_domid small_reply" "ug_grant_ref small_reply"] obtain w2 where 
    w2: "xen_shm_pipe_connect (penv small_client 1) (ug_page_count small_reply) (ug_domid small_reply) (ug_grant_ref small_reply) w1 = (0, w2)" by (auto simp: small_client_def)
  have "xen_shm_pipe_is_offerer (priv r)" using r by simp
  from small_offers [OF this, of 9 "(\<lambda>_. Some (grant_bytes small_reply))" 0 3 "ug_domid small_reply"] obtain r1 where 
    r1: "xen_shm_pipe_offers (penv small_client 0) 3 (ug_domid small_reply) r = (0, Some (9, 20), r1)" by (auto simp: small_client_def)
  have m: "uh_message (ug_header small_reply) = 3" "ug_mode small_reply = 2" by (simp_all add: small_reply_def grant_message_def)
  have ans: "n_ret (nanswer small_client tr c) = (case c of N_sendto _ x \<Rightarrow> int (length x) | N_pthread_create _ _ \<Rightarrow> 0 | _ \<Rightarrow> 1)"
    "n_dgram (nanswer small_client tr c) = Some (grant_bytes small_reply)" for tr c by (simp_all add: small_client_def small_net_answer)
  show ?thesis using r(1) w(1) w1(1) w2 r1 m
    by (simp add: init_pipe_def greet_def say_hello_def accept_grant_def pr_getdomid_def pr_connect_def pr_offers_def 
      send_buffer_def Let_def split_beta received_def ans)
qed

lemma small_calloc: "ncalloc (small_proc_env d net) S = (Some (blocks S), (snd (ndo (small_proc_env d net) N_calloc S))\<lparr>blocks := Suc (blocks S)\<rparr>)"
  by (simp add: ncalloc_def ndo_def small_net_answer)

lemma small_server_answers:
  assumes "12 \<le> len"
  shows "\<exists>S'. cb_client_hello (small_proc_env d net) source len b S = Some S' \<and> current (idata S') = Some (blocks S)"
proof -
  let ?env = "small_proc_env d net"
  let ?T = "(snd (ndo ?env N_calloc S))\<lparr>blocks := Suc (blocks S), openings := (openings S)(blocks S \<mapsto> zero_opening)\<rparr>"
  let ?R = xen_shm_pipe_mod_read and ?C = xen_shm_pipe_conv_reader_offers
  obtain r where r: "pr_init ?env ?R ?C ?T = (0, Some (made S), ?T\<lparr>made := Suc (made S), pipes := (pipes S)(made S \<mapsto> r)\<rparr>)" 
    "pmod (priv r) = ?R" "pconv (priv r) = ?C"
    using small_init [of d net ?R ?C ?T] by auto
  then have "xen_shm_pipe_is_offerer (priv r)" by simp
  from small_offers [OF this, of d net "made S" "proposed_page_page_count (idata S)" "uc_domid (as_client_hello b)"] r(1) assms
  show ?thesis by (auto simp: cb_client_hello_def small_calloc pr_offers_def send_reply_some Let_def)
qed

lemma small_server_starts_thread:
  assumes "server_wf S (x # xs) ys" "opening_from (openings S) source x" "18 \<le> len" "ug_mode (as_grant b) = 2"
  shows "\<exists>S'. cb_client_grant (small_proc_env d net) source len b S = Some S' \<and> childs (idata S') = Some (blocks S)"
proof -
  let ?env = "small_proc_env d net"
  let ?T = "(snd (ndo ?env N_calloc S))\<lparr>blocks := Suc (blocks S), children := (children S)(blocks S \<mapsto> zero_child)\<rparr>"
  let ?W = xen_shm_pipe_mod_write and ?C = xen_shm_pipe_conv_reader_offers
  obtain r where r: "pr_init ?env ?W ?C ?T = (0, Some (made S), ?T\<lparr>made := Suc (made S), pipes := (pipes S)(made S \<mapsto> r)\<rparr>)" 
    "pmod (priv r) = ?W" "pconv (priv r) = ?C"
    using small_init [of d net ?W ?C ?T] by auto
  then have "\<not> xen_shm_pipe_is_offerer (priv r)" by simp
  from small_connect [OF this, of d net "made S" "ug_page_count (as_grant b)" "ug_domid (as_grant b)" "ug_grant_ref (as_grant b)"] 
  obtain r' where c: "xen_shm_pipe_connect (penv ?env (made S)) (ug_page_count (as_grant b)) (ug_domid (as_grant b)) (ug_grant_ref (as_grant b)) r
    = (0, r')" by blast
  from server_wf_lists(6) [OF assms(1), of x] obtain n where n: "openings S x = Some n" by auto
  show ?thesis using assms r(1) c n 
   by (simp add: cb_client_grant_def find_opening_run [OF assms(1)] small_calloc serve_grant_def pr_connect_def start_child_def
    Let_def split_beta small_net_answer)
qed

lemma small_second_answer: "second_answer (small_proc_env d net) k = small_answer d k 1"
  by (simp add: second_answer_def small_proc_env_def small_end_def)

lemma small_exchange:
  assumes "init_pipe small_client 80 1 None None 3 small_proc = Some (0, Some 0, Some 1, P')"
  shows "\<exists>S1 S2. exchange small_client small_serving \<lparr>sin_port = 5000, sin_addr = 1\<rparr> small_proc P' small_server S1
    \<and> udp_readable_cb small_serving EV_READ S1 = Some S2 \<and> childs (idata S2) \<noteq> childs (idata S1)"
proof -
  let ?src = "\<lparr>sin_port = 5000, sin_addr = 1\<rparr>" and ?addr = "\<lparr>sin_port = htons 80, sin_addr = 1\<rparr>"
  have hello: "hello_message small_client 1 = small_first"
    by (simp add: hello_message_def small_client_def small_second_answer small_first_def) (simp add: small_answer_def)
  have c: "client_connected small_client ?addr 3 small_proc P'"
    using init_pipe_run [OF small_proc_wf, of small_client 80 1 None None 3] assms by auto
  have first: "next_datagram small_serving small_server ?src XEN_SHM_UDP_PROTO_CLIENT_HELLO (client_hello_bytes small_first)"
    using as_header_within(1) [of small_first "[]"]
    by (simp add: next_datagram_def small_serving_def small_proc_env_def small_server_def small_first_def)
  have "\<exists>S'. cb_client_hello small_serving ?src 12 (receive_into (stack_buffer small_serving) (client_hello_bytes small_first))
      (snd (ndo small_serving N_recv small_server)) = Some S' \<and> current (idata S') \<noteq> None"
    using small_server_answers [of 12] unfolding small_serving_def by (metis option.distinct(1) order_refl)
  with cb_on_datagram [OF first] obtain S1 where
    S1: "udp_readable_cb small_serving EV_READ small_server = Some S1" "current (idata S1) \<noteq> None" by auto
  have "\<not> hello_refused ?src small_first [] [] (snd (ndo small_serving N_recv small_server)) S1"
    using S1(2) by (auto simp: hello_refused_def small_server_def ndo_def)
  then have g: "hello_granted small_serving ?src small_first [] [] (snd (ndo small_serving N_recv small_server)) S1"
    using hello_outcome [OF small_server_wf first] S1(1) as_client_hello_bytes [of small_first "[]"] by auto
  then have wf1: "server_wf S1 [0] []" and tr: "ntrace S1 = [N_recv, N_calloc, N_sendto ?src (grant_bytes small_reply)]"
    and id1: "idata S1 = (idata small_server)\<lparr>current := Some 0\<rparr>" and op: "opening_from (openings S1) ?src 0"
    by (auto simp: hello_granted_def Let_def small_server_def small_serving_def small_second_answer small_reply_def
        opening_from_def)
  have second: "next_datagram small_serving S1 ?src XEN_SHM_UDP_PROTO_CLIENT_GRANT (grant_bytes small_second)"
    using as_header_within(2) [of small_second "[]"]
    by (simp add: next_datagram_def small_serving_def small_proc_env_def tr)
      (simp add: small_second_def grant_reply_def small_reply_def grant_message_def small_first_def)
  have "ug_mode small_second = 2" by (simp add: small_second_def grant_reply_def small_reply_def grant_message_def)
  then have "ug_mode (as_grant (receive_into (stack_buffer small_serving) (grant_bytes small_second))) = 2"
    by (simp add: small_serving_def small_stack)
  moreover have "server_wf (snd (ndo small_serving N_recv S1)) [0] []"
    "opening_from (openings (snd (ndo small_serving N_recv S1))) ?src 0" using wf1 op by simp_all
  ultimately have "\<exists>S'. cb_client_grant small_serving ?src 18 (receive_into (stack_buffer small_serving) (grant_bytes small_second))
      (snd (ndo small_serving N_recv S1)) = Some S' \<and> childs (idata S') \<noteq> None"
    using small_server_starts_thread [of _ 0 "[]" "[]" ?src 18] unfolding small_serving_def
    by (metis option.distinct(1) order_refl)
  with cb_on_datagram [OF second] obtain S2 where
    S2: "udp_readable_cb small_serving EV_READ S1 = Some S2" "childs (idata S2) \<noteq> None" by auto
  have views: "as_grant (grant_bytes small_reply) = small_reply" using as_grant_bytes [of small_reply "[]"] by simp
  from client_messages [OF c] have "drop (length (ntrace small_proc)) (ntrace P') = [N_socket,
      N_sendto ?addr (client_hello_bytes small_first), N_recv, N_sendto ?addr (grant_bytes small_second), N_shutdown]"
    using hello views by (auto simp: small_proc_def small_client_def small_net_answer small_second_answer small_second_def)
  then have "exchange small_client small_serving ?src small_proc P' small_server S1"
    using first second S1(1) tr unfolding exchange_def
    by (intro exI [of _ ?addr] exI [of _ "client_hello_bytes small_first"] exI [of _ "grant_bytes small_second"]
        exI [of _ "grant_bytes small_reply"]) (simp add: small_client_def small_net_answer)
  then show ?thesis using S2 id1 by (auto simp: small_server_def)
qed

theorem handshake_agrees_witness:
  "\<exists>P' S1 S2 c n k l. init_pipe small_client 80 1 None None 3 small_proc = Some (0, Some 0, Some 1, P')
    \<and> udp_readable_cb small_serving EV_READ S1 = Some S2 \<and> childs (idata S2) = Some c \<and> children S2 c = Some n
    \<and> hd_receive_fd (c_child_data n) = Some k \<and> hd_send_fd (c_child_data n) = Some l
    \<and> cross_connected small_client small_serving 3 2 P' 0 1 S2 k l"
proof -
  from small_client_succeeds obtain P' where P': "init_pipe small_client 80 1 None None 3 small_proc = Some (0, Some 0, Some 1, P')"
    by blast
  from small_exchange [OF P'] obtain S1 S2 where
    e: "exchange small_client small_serving \<lparr>sin_port = 5000, sin_addr = 1\<rparr> small_proc P' small_server S1"
    "udp_readable_cb small_serving EV_READ S1 = Some S2" "childs (idata S2) \<noteq> childs (idata S1)" by blast
  have "proposed_page_page_count (idata small_server) = 2" by (simp add: small_server_def)
  with handshake_agrees [OF small_proc_wf P' small_server_wf e]
  have "\<exists>c n k l. childs (idata S2) = Some c \<and> children S2 c = Some n
    \<and> hd_receive_fd (c_child_data n) = Some k \<and> hd_send_fd (c_child_data n) = Some l
    \<and> cross_connected small_client small_serving 3 2 P' 0 1 S2 k l" by simp
  with P' e(2) show ?thesis by blast
qed

end
