(* ===== verification/Pipe_System.thy ===== *)
theory Pipe_System
  imports Pipe_Api
begin

text \<open>
  The two ends of a pipe over one shared area.  The first part proves what an end never
  touches, for every observer of its state that its own writes leave alone; the second part
  is the transition system of a writer and a reader that make their calls in any order, with
  the bytes each of them handed over, and its invariant: the bytes written are the bytes
  read followed by the bytes in transit.
\<close>

section \<open>Frames\<close>

text \<open>
  An observer \<open>P\<close> of the state of an end that neither the peer nor the system calls change, and
  that does not look at what both ends write: their private data, and the flag word of the
  writer.
\<close>

locale end_frame =
  fixes env :: pipe_env and P :: "pipe_st \<Rightarrow> 'a"
  assumes frame_observe: "P (observe env st) = P st"
    and frame_priv: "P (st\<lparr>priv := p\<rparr>) = P st"
    and frame_errno: "P (st\<lparr>errno := e\<rparr>) = P st"
    and frame_calls: "P (st\<lparr>calls := c\<rparr>) = P st"
    and frame_writer_flags: "P (st\<lparr>shm := (shm st)\<lparr>writer_flags := f\<rparr>\<rparr>) = P st"
begin

lemma frame_sys_call: "P (snd (sys_call env c st)) = P st"
proof -
  let ?st = "observe env st"
  have "P (?st\<lparr>calls := calls st @ [c], errno := e\<rparr>) = P (?st\<lparr>calls := calls st @ [c]\<rparr>)" for e
    by (rule frame_errno)
  then show ?thesis by (simp add: sys_call_def Let_def frame_calls frame_observe)
qed

lemma frame_signals:
  "P (snd (xen_shm_pipe_send_signal env st)) = P st"
  "P (snd (xen_shm_pipe_wait_signal env st)) = P st"
  "P (snd (xen_shm_pipe_prone_for_epipe env st)) = P st"
  by (simp_all add: xen_shm_pipe_send_signal_def xen_shm_pipe_wait_signal_def
      xen_shm_pipe_prone_for_epipe_def Let_def split_beta frame_sys_call frame_priv)

lemma frame_flags: "P (upd_writer_flags f st) = P st" "P (set_saw_epipe st) = P st"
  by (simp_all add: upd_writer_flags_def set_saw_epipe_def frame_writer_flags frame_priv)

lemma frame_signal_if_sleeping: "P (signal_if_sleeping env fl st) = P st"
  by (simp add: signal_if_sleeping_def Let_def frame_signals frame_observe)

lemmas frame_simps = frame_observe frame_priv frame_errno frame_signals frame_flags
  frame_signal_if_sleeping

lemma frame_limit_check: "P (wait_st (snd (wait_limit_check env l))) = P (wait_st l)"
  by (simp add: wait_limit_check_def Let_def split_beta frame_simps)

end

text \<open>The observers that do not look at the flags of the reader and the read position (at the
  write position and the buffer) either.  No operation of the reader (of the writer) changes
  them.\<close>

locale reader_frame = end_frame env P for env and P :: "pipe_st \<Rightarrow> 'a" +
  assumes frame_sh_read: "P (st\<lparr>shm := (shm st)\<lparr>sh_read := x\<rparr>\<rparr>) = P st"
    and frame_reader_flags: "P (st\<lparr>shm := (shm st)\<lparr>reader_flags := f\<rparr>\<rparr>) = P st"
begin

lemma frame_upd_reader_flags: "P (upd_reader_flags f st) = P st"
  by (simp add: upd_reader_flags_def frame_reader_flags)

lemmas reader_frame_simps = frame_simps frame_upd_reader_flags frame_sh_read

lemma frame_sleep: "P (wait_st (snd (wait_reader_sleep env l))) = P (wait_st l)"
  by (simp add: wait_reader_sleep_def Let_def split_beta reader_frame_simps)

lemma frame_round: "P (wait_st (snd (wait_reader_body env p l))) = P (wait_st l)"
  by (simp add: wait_reader_body_def Let_def split_beta reader_frame_simps frame_sleep frame_limit_check
      del: observe_simps(5))

lemma frame_wait_reader:
  assumes "xen_shm_pipe_wait_reader env st = Some (r, st')"
  shows "P st' = P st"
proof -
  obtain c l where loop: "wait_reader_loop env (sh_read (shm st)) (Wnext, wait_start st) = Some (c, l)"
    and res: "(case c of Wret r \<Rightarrow> Some (r, wait_st l)
      | _ \<Rightarrow> Some (1, if unset_wait l
          then upd_reader_flags (\<lambda>f. clear_flag f XSHMP_WAITING) (wait_st l) else wait_st l)) = Some (r, st')"
    using assms by (auto simp: xen_shm_pipe_wait_reader_def bind_eq_Some_conv)
  have "P (wait_st l) = P st"
    using wait_rd.wloop_invariant(1) [OF loop, of "\<lambda>cl. P (wait_st (snd cl)) = P st"]
    by (simp add: frame_round)
  with res show ?thesis by (cases c) (auto simp: frame_upd_reader_flags split: if_splits)
qed


lemma frame_read_avail:
  assumes "xen_shm_pipe_read_avail env ub buf nbytes st = Some (k, buf', st')"
  shows "P st' = P st"
proof -
  obtain l where l: "read_avail_loop env ub nbytes (read_avail_start env buf st) = Some l"
    and st': "st' = signal_if_sleeping env writer_flags (rd_st l)"
    using assms by (auto simp: xen_shm_pipe_read_avail_def bind_eq_Some_conv)
  have step: "P (rd_st u) = P (rd_st s)" if "read_avail_iter env ub nbytes s = Some u" for s u
    using that by (auto simp: read_avail_iter_def bind_eq_Some_conv Let_def reader_frame_simps
        simp del: observe_simps(5) split: prod.splits if_splits)
  have "P (rd_st l) = P st \<and> \<not> read_avail_cond nbytes l"
    by (rule rd.loop_partial [OF l]) (auto simp: read_avail_start_def Let_def frame_simps step)
  then show ?thesis by (simp add: st' frame_simps)
qed

lemma frame_read:
  assumes "xen_shm_pipe_read env ub buf nbytes st = Some (r, buf', st')"
  shows "P st' = P st"
  using assms
  by (auto simp: xen_shm_pipe_read_def Let_def bind_eq_Some_conv reader_frame_simps
      dest!: frame_wait_reader frame_read_avail split: if_splits)

end

locale writer_frame = end_frame env P for env and P :: "pipe_st \<Rightarrow> 'a" +
  assumes frame_sh_write: "P (st\<lparr>shm := (shm st)\<lparr>sh_write := x\<rparr>\<rparr>) = P st"
    and frame_buffer: "P (st\<lparr>shm := (shm st)\<lparr>buffer := b\<rparr>\<rparr>) = P st"
begin

lemma frame_sleep: "P (wait_st (snd (wait_writer_sleep env l))) = P (wait_st l)"
  by (simp add: wait_writer_sleep_def Let_def split_beta frame_simps)

lemma frame_round: "P (wait_st (snd (wait_writer_body env p l))) = P (wait_st l)"
  by (simp add: wait_writer_body_def Let_def split_beta frame_simps frame_sleep frame_limit_check
      del: observe_simps(5))

lemma frame_wait_writer:
  assumes "xen_shm_pipe_wait_writer env st = Some (r, st')"
  shows "P st' = P st"
proof -
  define st1 where "st1 = observe env st"
  have P1: "P st1 = P st" by (simp add: st1_def frame_observe)
  show ?thesis
  proof (cases "flag_set (reader_flags (shm st1)) XSHMP_CLOSED")
    case True
    with assms P1 show ?thesis
      by (simp add: xen_shm_pipe_wait_writer_def Let_def flip: st1_def)
  next
    case False
    with assms obtain c l where loop: "wait_writer_loop env (wait_write_p st1) (Wnext, wait_start st1) = Some (c, l)"
      and res: "(case c of Wret r \<Rightarrow> Some (r, wait_st l)
        | _ \<Rightarrow> Some (1, if unset_wait l
            then upd_writer_flags (\<lambda>f. clear_flag f XSHMP_WAITING) (wait_st l) else wait_st l)) = Some (r, st')"
      by (auto simp: xen_shm_pipe_wait_writer_def bind_eq_Some_conv Let_def simp del: observe_simps(5)
          simp flip: st1_def)
    have "P (wait_st l) = P st"
      using wait_wr.wloop_invariant(1) [OF loop, of "\<lambda>cl. P (wait_st (snd cl)) = P st"] P1
      by (simp add: frame_round)
    with res show ?thesis by (cases c) (auto simp: frame_flags split: if_splits)
  qed
qed


lemma frame_write_avail:
  assumes "xen_shm_pipe_write_avail env ub buf nbytes st = Some (k, st')"
  shows "P st' = P st"
proof -
  obtain l where l: "write_avail_loop env ub buf nbytes (write_avail_start env st) = Some l"
    and st': "st' = signal_if_sleeping env reader_flags (wr_st l)"
    using assms by (auto simp: xen_shm_pipe_write_avail_def bind_eq_Some_conv)
  have step: "P (wr_st u) = P (wr_st s)" if "write_avail_iter env ub buf nbytes s = Some u" for s u
    using that by (auto simp: write_avail_iter_def bind_eq_Some_conv Let_def frame_sh_write frame_buffer
        frame_simps simp del: observe_simps(5) split: prod.splits if_splits)
  have "P (wr_st l) = P st \<and> \<not> write_avail_cond nbytes l"
    by (rule wr.loop_partial [OF l]) (auto simp: write_avail_start_def Let_def frame_simps step)
  then show ?thesis by (simp add: st' frame_simps)
qed

lemma frame_write:
  assumes "xen_shm_pipe_write env ub buf nbytes st = Some (r, st')"
  shows "P st' = P st"
  using assms
  by (auto simp: xen_shm_pipe_write_def Let_def bind_eq_Some_conv frame_simps
      dest!: frame_wait_writer frame_write_avail split: if_splits)

end

section \<open>A quiet peer\<close>

interpretation quiet_rd: reader_frame "quiet_env ans"
    "\<lambda>st. (arrived st, buffer (shm st), sh_write (shm st))" for ans
  by unfold_locales (simp_all add: quiet_observe)

interpretation quiet_wr: writer_frame "quiet_env ans" 
    "\<lambda>st. (departed st, sh_read (shm st), reader_flags (shm st))" for ans
  by unfold_locales (simp_all add: quiet_observe)

section \<open>The transition system of a pipe\<close>

text \<open>
  \<open>area\<close> is the shared memory; each side keeps its own state, and sees the shared memory when it
  makes a call.  \<open>sent\<close> and \<open>received\<close> record the bytes that the calls reported as written and
  as read.  A side that has freed its end makes no more calls.
\<close>

record pipe_pair =
  area :: xen_shm_pipe_shared
  wr_side :: pipe_st
  rd_side :: pipe_st
  wr_live :: bool
  rd_live :: bool
  sent :: "byte list"
  received :: "byte list"

abbreviation writer_st :: "pipe_pair \<Rightarrow> pipe_st" where "writer_st S \<equiv> (wr_side S)\<lparr>shm := area S\<rparr>"
abbreviation reader_st :: "pipe_pair \<Rightarrow> pipe_st" where "reader_st S \<equiv> (rd_side S)\<lparr>shm := area S\<rparr>"

inductive pair_step :: "pipe_pair \<Rightarrow> pipe_pair \<Rightarrow> bool" where
  pair_write: "wr_live S \<Longrightarrow> nbytes \<le> length buf \<Longrightarrow>
    xen_shm_pipe_write (quiet_env ans) ub buf nbytes (writer_st S) = Some (r, st) \<Longrightarrow>
    pair_step S (S\<lparr>area := shm st, wr_side := st, sent := sent S @ take (nat r) buf\<rparr>)"
| pair_read: "rd_live S \<Longrightarrow> nbytes \<le> length buf \<Longrightarrow>
    xen_shm_pipe_read (quiet_env ans) ub buf nbytes (reader_st S) = Some (r, buf', st) \<Longrightarrow>
    pair_step S (S\<lparr>area := shm st, rd_side := st, received := received S @ take (nat r) buf'\<rparr>)"
| pair_flush_writer: "wr_live S \<Longrightarrow> xen_shm_pipe_flush (quiet_env ans) (writer_st S) = (r, st) \<Longrightarrow>
    pair_step S (S\<lparr>area := shm st, wr_side := st\<rparr>)"
| pair_flush_reader: "rd_live S \<Longrightarrow> xen_shm_pipe_flush (quiet_env ans) (reader_st S) = (r, st) \<Longrightarrow>
    pair_step S (S\<lparr>area := shm st, rd_side := st\<rparr>)"
| pair_free_writer: "wr_live S \<Longrightarrow> st = xen_shm_pipe_free (quiet_env ans) (writer_st S) \<Longrightarrow>
    pair_step S (S\<lparr>area := shm st, wr_side := st, wr_live := False\<rparr>)"
| pair_free_reader: "rd_live S \<Longrightarrow> st = xen_shm_pipe_free (quiet_env ans) (reader_st S) \<Longrightarrow>
    pair_step S (S\<lparr>area := shm st, rd_side := st, rd_live := False\<rparr>)"

inductive_cases pair_stepE: "pair_step S S'"

definition pair_inv :: "nat \<Rightarrow> pipe_pair \<Rightarrow> bool" where
  "pair_inv n S \<longleftrightarrow> shared_wf n (area S)
     \<and> (wr_live S \<longrightarrow> connected_writer n (writer_st S))
     \<and> (rd_live S \<longrightarrow> connected_reader n (reader_st S))
     \<and> sent S = received S @ in_transit (area S)"

definition pair_reachable :: "pipe_pair \<Rightarrow> pipe_pair \<Rightarrow> bool" where
  "pair_reachable = pair_step\<^sup>*\<^sup>*"

text \<open>The calls of one side, as the other side sees them.\<close>

lemma quiet_write:
  assumes conn: "connected_writer n st" and nb: "nbytes \<le> length buf"
    and call: "xen_shm_pipe_write (quiet_env ans) ub buf nbytes st = Some (r, st')"
  shows "connected_writer n st'" "shared_wf n (shm st')" "reader_flags (shm st') = reader_flags (shm st)"
    "in_transit (shm st') = in_transit (shm st) @ take (nat r) buf"
proof -
  have post: "write_post n (quiet_env ans) buf nbytes st (r, st')"
    by (rule pipe_write_partial [OF _ conn nb call]) simp
  note fr = quiet_wr.frame_write [OF call]
  show "connected_writer n st'" "shared_wf n (shm st')" "reader_flags (shm st') = reader_flags (shm st)"
    using post fr by (auto simp: write_post_def connected_writer_def pipe_wf_def)
  show "in_transit (shm st') = in_transit (shm st) @ take (nat r) buf"
    using post fr by (auto simp: write_post_def writer_flow_def)
qed

lemma quiet_read:
  assumes conn: "connected_reader n st" and nb: "nbytes \<le> length buf"
    and call: "xen_shm_pipe_read (quiet_env ans) ub buf nbytes st = Some (r, buf', st')"
  shows "connected_reader n st'" "shared_wf n (shm st')"
    "in_transit (shm st) = take (nat r) buf' @ in_transit (shm st')"
proof -
  have post: "read_post n (quiet_env ans) buf nbytes st (r, buf', st')"
    by (rule pipe_read_partial [OF _ conn nb call]) simp
  show "connected_reader n st'" "shared_wf n (shm st')"
    using post by (auto simp: read_post_def connected_reader_def pipe_wf_def)
  show "in_transit (shm st) = take (nat r) buf' @ in_transit (shm st')"
    using post quiet_rd.frame_read [OF call] by (auto simp: read_post_def reader_flow_def)
qed

lemma quiet_flush:
  assumes "xen_shm_pipe_flush (quiet_env ans) st = (r, st')"
  shows "shm st' = shm st" "same_pipe st st'"
  using assms same_pipe_trans [OF same_pipe_observe same_pipe_send_signal]
  by (auto simp: xen_shm_pipe_flush_def Let_def same_pipe_def xen_shm_pipe_send_signal_def split_beta
      split: if_splits dest!: arg_cong [where f = snd])

lemma free_shared:
  "sh_read (shm (xen_shm_pipe_free (quiet_env ans) st)) = sh_read (shm st)"
  "sh_write (shm (xen_shm_pipe_free (quiet_env ans) st)) = sh_write (shm st)"
  "buffer (shm (xen_shm_pipe_free (quiet_env ans) st)) = buffer (shm st)"
  "pmod (priv st) = xen_shm_pipe_mod_write \<Longrightarrow>
     reader_flags (shm (xen_shm_pipe_free (quiet_env ans) st)) = reader_flags (shm st)"
  by (simp_all add: xen_shm_pipe_free_def Let_def xen_shm_pipe_upd_flags_def split: option.splits)

text \<open>One side stays connected when the other side changes the shared area.\<close>

lemma connected_area:
  "connected_writer n (st\<lparr>shm := s\<rparr>) \<Longrightarrow> shared_wf n s' \<Longrightarrow> connected_writer n (st\<lparr>shm := s'\<rparr>)"
  "connected_reader n (st\<lparr>shm := s\<rparr>) \<Longrightarrow> shared_wf n s' \<Longrightarrow>
     flag_set (reader_flags s') XSHMP_CLOSED = flag_set (reader_flags s) XSHMP_CLOSED \<Longrightarrow>
     connected_reader n (st\<lparr>shm := s'\<rparr>)"
  by (simp_all add: connected_writer_def connected_reader_def pipe_wf_def)

lemma connected_same_pipe:
  "connected_writer n st \<Longrightarrow> same_pipe st st' \<Longrightarrow> shm st' = shm st \<Longrightarrow> connected_writer n st'"
  "connected_reader n st \<Longrightarrow> same_pipe st st' \<Longrightarrow> shm st' = shm st \<Longrightarrow> connected_reader n st'"
  by (simp_all add: connected_writer_def connected_reader_def pipe_wf_def same_pipe_def)

lemma in_transit_cong:
  "sh_read s' = sh_read s \<Longrightarrow> sh_write s' = sh_write s \<Longrightarrow> buffer s' = buffer s \<Longrightarrow>
    in_transit s' = in_transit s \<and> shared_wf n s' = shared_wf n s"
  by (simp add: in_transit_def shared_wf_def)

lemma pair_inv_step:
  assumes inv: "pair_inv n S" and step: "pair_step S S'"
  shows "pair_inv n S'"
  using step
proof cases
  case (pair_write nbytes buf ans ub r st)
  then have conn: "connected_writer n (writer_st S)" using inv by (simp add: pair_inv_def)
  note q = quiet_write [OF conn pair_write(3,4)]
  then show ?thesis
    using inv pair_write connected_area(2) [where st = "rd_side S" and s = "area S" and s' = "shm st" and n = n]
    by (auto simp: pair_inv_def)
next
  case (pair_read nbytes buf ans ub r buf' st)
  then have conn: "connected_reader n (reader_st S)" using inv by (simp add: pair_inv_def)
  note q = quiet_read [OF conn pair_read(3,4)]
  then show ?thesis
    using inv pair_read connected_area(1) [where st = "wr_side S" and s = "area S" and s' = "shm st" and n = n]
    by (auto simp: pair_inv_def)
next
  case (pair_flush_writer ans r st)
  note q = quiet_flush [OF pair_flush_writer(3)]
  then show ?thesis
    using inv pair_flush_writer connected_same_pipe(1) [of n "writer_st S" "st\<lparr>shm := area S\<rparr>"]
    by (auto simp: pair_inv_def same_pipe_def)
next
  case (pair_flush_reader ans r st)
  note q = quiet_flush [OF pair_flush_reader(3)]
  then show ?thesis
    using inv pair_flush_reader connected_same_pipe(2) [of n "reader_st S" "st\<lparr>shm := area S\<rparr>"]
    by (auto simp: pair_inv_def same_pipe_def)
next
  case (pair_free_writer st ans)
  then have "reader_flags (shm st) = reader_flags (area S)"
    using inv free_shared(4) [of "writer_st S"] by (simp add: pair_inv_def connected_writer_def)
  moreover have "in_transit (shm st) = in_transit (area S) \<and> shared_wf n (shm st) = shared_wf n (area S)"
    using pair_free_writer by (intro in_transit_cong) (simp_all add: free_shared)
  ultimately show ?thesis
    using inv pair_free_writer(1) connected_area(2) [where st = "rd_side S" and s = "area S" and s' = "shm st" and n = n]
    by (simp add: pair_inv_def)
next
  case (pair_free_reader st ans)
  have "in_transit (shm st) = in_transit (area S) \<and> shared_wf n (shm st) = shared_wf n (area S)"
    using pair_free_reader by (intro in_transit_cong) (simp_all add: free_shared)
  then show ?thesis
    using inv pair_free_reader(1) connected_area(1) [where st = "wr_side S" and s = "area S" and s' = "shm st" and n = n]
    by (simp add: pair_inv_def)
qed

lemma pair_inv_reachable:
  assumes "pair_reachable S S'" "pair_inv n S"
  shows "pair_inv n S'"
  using assms unfolding pair_reachable_def
  by (induction rule: rtranclp_induct) (auto intro: pair_inv_step)

section \<open>Properties\<close>

text \<open>A call that finds room (a byte) does not wait when the peer is quiet.\<close>

lemma quiet_wait_writer:
  assumes "pipe_wf n st" "length (in_transit (shm st)) + 1 < n"
    and "\<not> flag_set (reader_flags (shm st)) XSHMP_CLOSED"
  shows "\<exists>st'. xen_shm_pipe_wait_writer (quiet_env ans) st = Some (1, st') \<and> shm st' = shm st \<and> calls st' = calls st"
proof -
  define st1 where "st1 = observe (quiet_env ans) st"
  have st1: "shm st1 = shm st" "priv st1 = priv st" "calls st1 = calls st" by (simp_all add: st1_def)
  then have "pipe_wf n st1" using assms(1) by (simp add: pipe_wf_def)
  moreover have "writer_passive n st1 (observe (quiet_env ans) st1)"
    using assms(1) st1 by (intro writer_passive_observe) (simp_all add: pipe_wf_def)
  ultimately have "wait_write_p st1 \<noteq> sh_read (shm st1)"
    using wait_writer_room [of n st1 "observe (quiet_env ans) st1"] st1 assms(2) by simp
  then show ?thesis
    using assms(3) st1
    by (simp add: xen_shm_pipe_wait_writer_def Let_def flip: st1_def)
      (subst wait_writer_loop.simps, simp, subst wait_writer_loop.simps,
        simp add: wait_writer_body_def Let_def wait_start_def)
qed

lemma quiet_wait_reader:
  assumes "pipe_wf n st" "in_transit (shm st) \<noteq> []"
  shows "\<exists>st'. xen_shm_pipe_wait_reader (quiet_env ans) st = Some (1, st') \<and> shm st' = shm st \<and> calls st' = calls st"
proof -
  have "sh_read (shm st) \<noteq> sh_write (shm st)"
    using assms in_transit_Nil_iff [OF pipe_wf_shared [OF assms(1)]] by simp
  then show ?thesis
    by (simp add: xen_shm_pipe_wait_reader_def)
      (subst wait_reader_loop.simps, simp, subst wait_reader_loop.simps,
        simp add: wait_reader_body_def Let_def wait_start_def)
qed

lemma quiet_write_fits:
  assumes conn: "connected_writer n st" and nb: "0 < nbytes" "nbytes \<le> length buf"
    and room: "length (in_transit (shm st)) + nbytes < n"
    and op: "\<not> flag_set (writer_flags (shm st)) XSHMP_CLOSED" "\<not> flag_set (reader_flags (shm st)) XSHMP_CLOSED"
  shows "\<exists>st'. xen_shm_pipe_write (quiet_env ans) ub buf nbytes st = Some (int nbytes, st')"
proof -
  have wf: "pipe_wf n st" using conn by (simp add: connected_writer_def)
  have sh: "in_transit (shm (write_entry st)) = in_transit (shm st)"
    "reader_flags (shm (write_entry st)) = reader_flags (shm st)"
    by (simp_all add: write_entry_def write_count_up_def)
  obtain st2 where w: "xen_shm_pipe_wait_writer (quiet_env ans) (write_entry st) = Some (1, st2)"
    using quiet_wait_writer [OF writer_passive_wf [OF write_entry_passive(2) [OF wf] wf]] room nb op sh by fastforce
  obtain r st' where call: "xen_shm_pipe_write (quiet_env ans) ub buf nbytes st = Some (r, st')"
    and post: "write_post n (quiet_env ans) buf nbytes st (r, st')"
    using write_after_wait [OF _ conn nb(2) op(1) w, of ub] by auto
  have "0 \<le> r" using call op w
    by (auto simp: write_unfold [OF conn] bind_eq_Some_conv)
  moreover have "r \<noteq> 0" using post nb by (auto simp: write_post_def writer_stop_def)
  ultimately have "r = int nbytes" using post room by (auto simp: write_post_def)
  with call show ?thesis by blast
qed

lemma quiet_read_available:
  assumes conn: "connected_reader n st" and nb: "0 < nbytes" "nbytes \<le> length buf"
    and data: "nbytes \<le> length (in_transit (shm st))"
  shows "\<exists>buf' st'. xen_shm_pipe_read (quiet_env ans) ub buf nbytes st = Some (int nbytes, buf', st')"
proof -
  have wf: "pipe_wf n st" using conn by (simp add: connected_reader_def)
  have "in_transit (shm (read_entry st)) = in_transit (shm st)" by (simp add: read_entry_def)
  then have "in_transit (shm (read_entry st)) \<noteq> []" using data nb by auto
  from quiet_wait_reader [OF reader_passive_wf [OF read_entry_passive [OF wf] wf] this] obtain st2 where
    w: "xen_shm_pipe_wait_reader (quiet_env ans) (read_entry st) = Some (1, st2)" by blast
  obtain r buf' st' where call: "xen_shm_pipe_read (quiet_env ans) ub buf nbytes st = Some (r, buf', st')"
    and post: "read_post n (quiet_env ans) buf nbytes st (r, buf', st')"
    using read_after_wait [OF _ conn nb(2) w, of ub] by auto
  have "0 \<le> r" using call w by (auto simp: read_unfold [OF conn] bind_eq_Some_conv)
  moreover have "r \<noteq> 0"
  proof
    assume "r = 0"
    then have "in_transit (shm st') = []" using post nb by (auto simp: read_post_def reader_stop_def)
    then show False using quiet_read(3) [OF conn nb(2) call] \<open>r = 0\<close> data nb by simp
  qed
  ultimately have "r = int nbytes" using post data by (auto simp: read_post_def)
  with call show ?thesis by blast
qed

text \<open>C1.  The bytes of a pipe are delivered in order, once and unchanged: whatever calls the two
  sides make in whatever order, the bytes reported as written are the bytes reported as read
  followed by the bytes in transit, and the buffer never holds more than its size minus one.\<close>

theorem pipe_is_fifo:
  assumes "pair_inv n S" "pair_reachable S S'"
  shows "sent S' = received S' @ in_transit (area S') \<and> length (in_transit (area S')) < n"
  using pair_inv_reachable [OF assms(2,1)] by (auto simp: pair_inv_def intro: in_transit_bound)

definition small_pair :: pipe_pair where
  "small_pair = \<lparr>area = small_area, wr_side = small_end xen_shm_pipe_mod_write small_area,
     rd_side = small_end xen_shm_pipe_mod_read small_area, wr_live = True, rd_live = True,
     sent = [10, 11, 12], received = []\<rparr>"

lemma small_end_area [simp]: "(small_end md s)\<lparr>shm := s\<rparr> = small_end md s"
  by (simp add: small_end_def)

lemma small_pair_inv: "pair_inv 8 small_pair"
  by (simp add: pair_inv_def small_pair_def small_area_wf small_area_in_transit small_end_connected)

definition small_pair_closed :: pipe_pair where
  "small_pair_closed =
    (let st = xen_shm_pipe_free (quiet_env epipe_answer) (writer_st small_pair)
     in small_pair\<lparr>area := shm st, wr_side := st, wr_live := False\<rparr>)"

lemma small_pair_step: "pair_step small_pair small_pair_closed"
  unfolding small_pair_closed_def Let_def by (rule pair_free_writer) (simp_all add: small_pair_def)

theorem pipe_is_fifo_witness:
  "sent small_pair_closed = received small_pair_closed @ in_transit (area small_pair_closed)
    \<and> length (in_transit (area small_pair_closed)) < 8"
  by (rule pipe_is_fifo [OF small_pair_inv])
    (unfold pair_reachable_def, rule r_into_rtranclp, rule small_pair_step)

text \<open>C11.  A read that returns 0 to a reader asking for bytes has reached the end of the stream: every
  byte written so far has been read, and the writer has marked itself closed.\<close>

theorem end_of_stream_is_complete:
  assumes "pair_inv n S" "pair_reachable S S'" "rd_live S'" "0 < nbytes" "nbytes \<le> length buf"
    and "xen_shm_pipe_read (quiet_env ans) ub buf nbytes (reader_st S') = Some (0, buf', st')"
  shows "received S' = sent S' \<and> flag_set (writer_flags (shm st')) XSHMP_CLOSED \<and> in_transit (shm st') = []"
proof -
  have inv: "pair_inv n S'" by (rule pair_inv_reachable [OF assms(2,1)])
  then have conn: "connected_reader n (reader_st S')" using assms(3) by (simp add: pair_inv_def)
  have "read_post n (quiet_env ans) buf nbytes (reader_st S') (0, buf', st')"
    by (rule pipe_read_partial [OF _ conn assms(5,6)]) simp
  moreover have "in_transit (shm (reader_st S')) = in_transit (shm st')"
    using quiet_read(3) [OF conn assms(5,6)] by simp
  ultimately show ?thesis
    using inv assms(4) by (auto simp: read_post_def reader_stop_def pair_inv_def)
qed

text \<open>A pipe that was drained, and closed by its writer.\<close>

definition drained_area :: xen_shm_pipe_shared where
  "drained_area = \<lparr>writer_flags = 3, reader_flags = 1, sh_write = 1, sh_read = 1,
     buffer = [12, 0, 0, 0, 0, 0, 10, 11]\<rparr>"

definition drained_pair :: pipe_pair where
  "drained_pair = \<lparr>area = drained_area, wr_side = small_end xen_shm_pipe_mod_write drained_area,
     rd_side = small_end xen_shm_pipe_mod_read drained_area, wr_live = False, rd_live = True,
     sent = [10, 11, 12], received = [10, 11, 12]\<rparr>"

lemma drained_pair_inv: "pair_inv 8 drained_pair"
  by (simp add: pair_inv_def drained_pair_def connected_reader_def small_end_wf drained_area_def shared_wf_def
      in_transit_def ring_list_def ring_count_def flag_set_def)

lemma drained_read:
  "\<exists>st'. xen_shm_pipe_read (quiet_env epipe_answer) 0 [0] 1 (reader_st drained_pair) = Some (0, [0], st')"
  by (simp add: xen_shm_pipe_read_def Let_def drained_pair_def xen_shm_pipe_wait_reader_def)
    (subst wait_reader_loop.simps, simp, subst wait_reader_loop.simps,
      simp add: wait_reader_body_def Let_def wait_start_def drained_area_def flag_set_def)

theorem end_of_stream_is_complete_witness:
  "\<exists>st'. xen_shm_pipe_read (quiet_env epipe_answer) 0 [0] 1 (reader_st drained_pair) = Some (0, [0], st')
    \<and> received drained_pair = sent drained_pair
    \<and> flag_set (writer_flags (shm st')) XSHMP_CLOSED \<and> in_transit (shm st') = []"
proof -
  obtain st' where r: "xen_shm_pipe_read (quiet_env epipe_answer) 0 [0] 1 (reader_st drained_pair) = Some (0, [0], st')"
    using drained_read by blast
  from end_of_stream_is_complete [OF drained_pair_inv, of drained_pair 1 "[0]", OF _ _ _ _ r] r show ?thesis
    by (simp add: pair_reachable_def drained_pair_def)
qed

text \<open>C12.  Round trip: on an open pipe with room for \<open>nbytes\<close> more bytes, a write of \<open>nbytes\<close> bytes
  writes them all, and when the reader then asks for as many bytes as are in transit it
  gets those that were there before followed by those just written.\<close>

theorem write_read_roundtrip:
  assumes "connected_writer n w" "0 < nbytes" "nbytes \<le> length buf"
    and "length (in_transit (shm w)) + nbytes < n"
    and "\<not> flag_set (writer_flags (shm w)) XSHMP_CLOSED" "\<not> flag_set (reader_flags (shm w)) XSHMP_CLOSED"
    and "connected_reader n (rd\<lparr>shm := shm w\<rparr>)"
    and "m = length (in_transit (shm w)) + nbytes" "m \<le> length rbuf"
  shows "\<exists>w'. xen_shm_pipe_write (quiet_env ans) ub buf nbytes w = Some (int nbytes, w')
    \<and> (\<exists>rbuf' r'. xen_shm_pipe_read (quiet_env ans') rub rbuf m (rd\<lparr>shm := shm w'\<rparr>) = Some (int m, rbuf', r')
        \<and> take m rbuf' = in_transit (shm w) @ take nbytes buf \<and> in_transit (shm r') = [])"
proof -
  obtain w' where wr: "xen_shm_pipe_write (quiet_env ans) ub buf nbytes w = Some (int nbytes, w')"
    using quiet_write_fits [OF assms(1-6)] by blast
  note q = quiet_write [OF assms(1,3) wr]
  have conn: "connected_reader n (rd\<lparr>shm := shm w'\<rparr>)"
    using connected_area(2) [OF assms(7) q(2)] q(3) by simp
  have len: "length (in_transit (shm w')) = m" using q(4) assms(3,8) by simp
  obtain rbuf' r' where rd: "xen_shm_pipe_read (quiet_env ans') rub rbuf m (rd\<lparr>shm := shm w'\<rparr>)
      = Some (int m, rbuf', r')"
    using quiet_read_available [OF conn _ assms(9), of ans' rub] len assms(2,8) by auto
  have "in_transit (shm w') = take m rbuf' @ in_transit (shm r')"
    using quiet_read(3) [OF conn assms(9) rd] by simp
  moreover have "length rbuf' = length rbuf"
    using pipe_read_partial [OF _ conn assms(9) rd] by (simp add: read_post_def)
  ultimately have "in_transit (shm w') = take m rbuf' \<and> in_transit (shm r') = []"
    using len assms(9) by (auto dest: arg_cong [where f = length])
  with wr rd q(4) show ?thesis by auto
qed

theorem write_read_roundtrip_witness:
  "\<exists>w'. xen_shm_pipe_write (quiet_env epipe_answer) 0 [1, 2, 3, 4] 4 (small_end xen_shm_pipe_mod_write small_area)
      = Some (int 4, w')
    \<and> (\<exists>rbuf' r'. xen_shm_pipe_read (quiet_env epipe_answer) 64 (replicate 7 0) 7
          ((small_end xen_shm_pipe_mod_read small_area)\<lparr>shm := shm w'\<rparr>) = Some (int 7, rbuf', r')
        \<and> take 7 rbuf' = in_transit (shm (small_end xen_shm_pipe_mod_write small_area)) @ take 4 [1, 2, 3, 4]
        \<and> in_transit (shm r') = [])"
  by (rule write_read_roundtrip [where n = 8])
    (simp_all add: small_end_connected small_area_in_transit, simp_all add: small_area_def flag_set_def)

end
