(* ===== verification/Shm_Types.thy ===== *)
theory Shm_Types
  imports Xen_Prelude "HOL-Library.Monad_Syntax"
begin

text \<open>
  The data of the kernel module (\<^verbatim>\<open>xen_shm.c\<close>, \<^verbatim>\<open>xen_shm.h\<close>): the private data of an open
  file, the header page the two domains share, the arguments of the ioctls, and the calls
  the module makes of Linux and of the hypervisor.

  Linux and Xen are parameters: a call is an element of \<open>kcall\<close> with the arguments the module
  gives, it is appended to the trace, and the environment gives the answer, which may depend on
  all the calls made before.  An access to a header page that is not mapped, to an array out
  of bounds or to freed memory has no result: the operation is \<open>None\<close>.
\<close>

section \<open>Constants\<close>

abbreviation (input) PAGE_SIZE :: nat where "PAGE_SIZE \<equiv> 4096"
abbreviation (input) DOMID_SELF :: u16 where "DOMID_SELF \<equiv> 0x7FF0"
abbreviation (input) XEN_SHM_ALLOC_ALIGNED_PAGES :: nat where "XEN_SHM_ALLOC_ALIGNED_PAGES \<equiv> 128"
abbreviation (input) XEN_SHM_MAX_SHARED_PAGES :: nat where "XEN_SHM_MAX_SHARED_PAGES \<equiv> 127"
abbreviation (input) XEN_SHM_MAGIC_NUMBER :: nat where "XEN_SHM_MAGIC_NUMBER \<equiv> 83"

abbreviation (input) XEN_SHM_META_PAGE_STATE_NONE :: u8 where "XEN_SHM_META_PAGE_STATE_NONE \<equiv> 1"
abbreviation (input) XEN_SHM_META_PAGE_STATE_OPENED :: u8 where "XEN_SHM_META_PAGE_STATE_OPENED \<equiv> 2"
abbreviation (input) XEN_SHM_META_PAGE_STATE_CLOSED :: u8 where "XEN_SHM_META_PAGE_STATE_CLOSED \<equiv> 3"

text \<open>The handle that marks an unmap operation as done: \<^verbatim>\<open>-1\<close> as an unsigned 32 bit value.\<close>

abbreviation (input) NO_HANDLE :: u32 where "NO_HANDLE \<equiv> -1"

section \<open>Structures\<close>

datatype xen_shm_state_t =
    XEN_SHM_STATE_OPENED
  | XEN_SHM_STATE_OFFERER
  | XEN_SHM_STATE_RECEIVER
  | XEN_SHM_STATE_RECEIVER_MAPPED

text \<open>A grant table operation: the arguments the module fills in, and the result of a map.\<close>

record gnttab_map_grant_ref =
  mo_addr :: nat
  mo_flags :: nat
  mo_ref :: u32
  mo_dom :: u16
  mo_status :: int
  mo_handle :: u32

record gnttab_unmap_grant_ref =
  uo_addr :: nat
  uo_flags :: nat
  uo_handle :: u32

record vm_area_struct =
  vm_start :: nat
  vm_end :: nat
  vm_write :: bool
  vm_shared :: bool

text \<open>Pointers are addresses; \<open>None\<close> is \<^verbatim>\<open>NULL\<close> and the kernel address 0 stands for no memory.\<close>

record xen_shm_instance_data =
  state :: xen_shm_state_t
  use_ptemod :: bool
  pages_count :: u8
  shared_memory :: nat
  local_domid :: u16
  distant_domid :: u16
  local_ec_port :: u32
  dist_ec_port :: u32
  next_delayed :: "nat option"
  ec_irq :: u32
  initial_signal :: u8
  user_signal :: u8
  latent_user_signal :: u8
  first_page_grant :: u32
  offerer_alloc_order :: nat
  unmapped_area :: "nat option"
  user_mem :: "vm_area_struct option"
  user_pages :: "nat list"
  grant_map_handle0 :: u32
  map_ops :: "gnttab_map_grant_ref list"
  unmap_ops :: "gnttab_unmap_grant_ref list"
  kmap_ops :: "gnttab_map_grant_ref list"
  mm :: "nat option"

record xen_shm_meta_page_data =
  offerer_state :: u8
  receiver_state :: u8
  meta_pages_count :: u8
  offerer_ec_port :: u32
  ec_mutex_count :: u32
  grant_refs :: "u32 list"

record xen_shm_ioctlarg_offerer =
  off_pages_count :: u8
  off_dist_domid :: u16
  off_grant :: u32
  off_local_domid :: u16

record xen_shm_ioctlarg_receiver =
  rcv_pages_count :: u8
  rcv_dist_domid :: u16
  rcv_grant :: u32

section \<open>Calls of the kernel and of the hypervisor\<close>

datatype kcall =
    K_evtchn_alloc_unbound u16 u16
  | K_evtchn_bind_interdomain u16 u32
  | K_evtchn_close u32
  | K_evtchn_status u16 u32
  | K_bind_irqhandler u32
  | K_unbind_irqhandler u32
  | K_notify_remote u32
  | K_wake_up
  | K_get_free_pages nat
  | K_free_pages nat nat
  | K_grant_access u16 nat
  | K_end_access u32
  | K_alloc_vm_area nat
  | K_free_vm_area nat
  | K_map_grant nat u32 u16
  | K_unmap_grant nat u32
  | K_alloc_ballooned nat
  | K_free_ballooned nat
  | K_apply_to_page_range nat nat
  | K_map_refs "gnttab_map_grant_ref list" bool
  | K_unmap_refs nat gnttab_unmap_grant_ref bool
  | K_vm_insert_page nat nat
  | K_remap_pfn_range nat nat nat
  | K_kmalloc
  | K_kfree nat
  | K_get_task_mm
  | K_mmput nat
  | K_mmu_notifier_register nat
  | K_mmu_notifier_unregister nat nat
  | K_access_ok bool nat
  | K_copy_from_user nat
  | K_copy_to_user nat
  | K_register_chrdev_region nat
  | K_alloc_chrdev_region
  | K_unregister_chrdev_region nat
  | K_cdev_add nat
  | K_cdev_del

text \<open>An answer: the return value, the value handed back beside it (a port, an address, a
  handle, a domain) and the status field of an operation structure.\<close>

record kans =
  k_ret :: int
  k_val :: nat
  k_status :: int

text \<open>
  \<open>kanswer env h c\<close> answers the call \<open>c\<close> after the calls \<open>h\<close>; \<open>kpage env h\<close> is what a header page holds
  when it is obtained after the calls \<open>h\<close> (fresh memory on the offerer side, the offerer's page on
  the receiver side); \<open>kmapped env h i\<close> is the status and the handle of the operation \<open>i\<close> of a
  \<^verbatim>\<open>gnttab_map_refs\<close>; \<open>kballoon env h\<close> are the ballooned pages; \<open>kfresh env h\<close> is what
  the memory of a new instance holds; \<open>kmaddr env\<close> gives the machine
  address of a page table entry or of a page; \<open>pv_domain\<close> is \<^verbatim>\<open>xen_pv_domain()\<close>; \<open>hz\<close> is \<^verbatim>\<open>HZ\<close>.
\<close>

record kenv =
  kanswer :: "kcall list \<Rightarrow> kcall \<Rightarrow> kans"
  kpage :: "kcall list \<Rightarrow> xen_shm_meta_page_data"
  kmapped :: "kcall list \<Rightarrow> nat \<Rightarrow> int \<times> u32"
  kballoon :: "kcall list \<Rightarrow> nat list"
  kfresh :: "kcall list \<Rightarrow> xen_shm_instance_data"
  kmaddr :: "nat \<Rightarrow> nat"
  pv_domain :: bool
  hz :: nat

text \<open>What an operation on one instance sees: the instance, its header page when it is mapped,
  and the calls made so far.\<close>

record shm_st =
  inst :: xen_shm_instance_data
  meta :: "xen_shm_meta_page_data option"
  ktrace :: "kcall list"

definition kdo :: "kenv \<Rightarrow> kcall \<Rightarrow> shm_st \<Rightarrow> kans \<times> shm_st" where
  "kdo env c st = (kanswer env (ktrace st) c, st\<lparr>ktrace := ktrace st @ [c]\<rparr>)"

text \<open>An update of the header page through the pointer \<^verbatim>\<open>meta_page_p\<close>.\<close>

definition upd_meta ::
  "(xen_shm_meta_page_data \<Rightarrow> xen_shm_meta_page_data) \<Rightarrow> shm_st \<Rightarrow> shm_st option" where
  "upd_meta f st = map_option (\<lambda>m. st\<lparr>meta := Some (f m)\<rparr>) (meta st)"

definition upd_inst :: "(xen_shm_instance_data \<Rightarrow> xen_shm_instance_data) \<Rightarrow> shm_st \<Rightarrow> shm_st" where
  "upd_inst f st = st\<lparr>inst := f (inst st)\<rparr>"

definition nth_opt :: "'a list \<Rightarrow> nat \<Rightarrow> 'a option" where
  "nth_opt xs i = (if i < length xs then Some (xs ! i) else None)"

section \<open>Facts\<close>

lemma kdo_simps [simp]:
  "fst (kdo env c st) = kanswer env (ktrace st) c"
  "inst (snd (kdo env c st)) = inst st" "meta (snd (kdo env c st)) = meta st"
  "ktrace (snd (kdo env c st)) = ktrace st @ [c]"
  by (simp_all add: kdo_def)

lemma upd_inst_simps [simp]:
  "inst (upd_inst f st) = f (inst st)" "meta (upd_inst f st) = meta st"
  "ktrace (upd_inst f st) = ktrace st"
  by (simp_all add: upd_inst_def)

lemma upd_meta_Some: "meta st = Some m \<Longrightarrow> upd_meta f st = Some (st\<lparr>meta := Some (f m)\<rparr>)"
  by (simp add: upd_meta_def)

lemma upd_meta_eq_Some:
  "upd_meta f st = Some st' \<longleftrightarrow> (\<exists>m. meta st = Some m \<and> st' = st\<lparr>meta := Some (f m)\<rparr>)"
  by (auto simp: upd_meta_def)

lemma nth_opt_Some [simp]: "i < length xs \<Longrightarrow> nth_opt xs i = Some (xs ! i)"
  by (simp add: nth_opt_def)

text \<open>
  The order in which an instance moves through its states: from opened to offerer, or from
  opened to receiver to mapped receiver.
\<close>

instantiation xen_shm_state_t :: order
begin

fun less_eq_xen_shm_state_t :: "xen_shm_state_t \<Rightarrow> xen_shm_state_t \<Rightarrow> bool" where
  "less_eq_xen_shm_state_t XEN_SHM_STATE_OPENED _ = True"
| "less_eq_xen_shm_state_t XEN_SHM_STATE_OFFERER s = (s = XEN_SHM_STATE_OFFERER)"
| "less_eq_xen_shm_state_t XEN_SHM_STATE_RECEIVER s =
     (s = XEN_SHM_STATE_RECEIVER \<or> s = XEN_SHM_STATE_RECEIVER_MAPPED)"
| "less_eq_xen_shm_state_t XEN_SHM_STATE_RECEIVER_MAPPED s = (s = XEN_SHM_STATE_RECEIVER_MAPPED)"

definition less_xen_shm_state_t :: "xen_shm_state_t \<Rightarrow> xen_shm_state_t \<Rightarrow> bool" where
  "less_xen_shm_state_t a b \<longleftrightarrow> a \<le> b \<and> a \<noteq> (b :: xen_shm_state_t)"

instance
proof
  fix a b c :: xen_shm_state_t
  show "a \<le> a" by (cases a) simp_all
  show "a \<le> b \<Longrightarrow> b \<le> c \<Longrightarrow> a \<le> c" by (cases a; cases b) auto
  show "a \<le> b \<Longrightarrow> b \<le> a \<Longrightarrow> a = b" by (cases a; cases b) auto
  show "(a < b) = (a \<le> b \<and> \<not> b \<le> a)"
    by (cases a; cases b) (auto simp: less_xen_shm_state_t_def)
qed

end

end
