(* ===== verification/Shm_Event.thy ===== *)
theory Shm_Event
  imports Shm_Types
begin

text \<open>
  The event channel of an instance: the interrupt handler, opening the channel on either side
  and closing it.
\<close>

section \<open>Definitions\<close>

definition xen_shm_event_handler :: "kenv \<Rightarrow> shm_st \<Rightarrow> shm_st" where
  "xen_shm_event_handler env st =
    (let st =
       (if initial_signal (inst st) = 0
        then let st = (if state (inst st) = XEN_SHM_STATE_OFFERER
                       then snd (kdo env (K_notify_remote (local_ec_port (inst st))) st) else st)
             in upd_inst (\<lambda>d. d\<lparr>initial_signal := 1\<rparr>) st
        else upd_inst (\<lambda>d. d\<lparr>user_signal := 1, latent_user_signal := 1\<rparr>) st)
     in snd (kdo env K_wake_up st))"

definition xen_shm_open_ec :: "kenv \<Rightarrow> bool \<Rightarrow> shm_st \<Rightarrow> int \<times> shm_st" where
  "xen_shm_open_ec env offerer st =
    (let d = inst st;
         (a, st) =
           (if offerer
            then kdo env (K_evtchn_alloc_unbound DOMID_SELF
                   (if distant_domid d = local_domid d then DOMID_SELF else distant_domid d)) st
            else kdo env (K_evtchn_bind_interdomain (distant_domid d) (dist_ec_port d)) st)
     in if k_ret a \<noteq> 0 then (- EIO, st)
     else
       let st = upd_inst (\<lambda>d. d\<lparr>local_ec_port := of_nat (k_val a)\<rparr>) st;
           (b, st) = kdo env (K_bind_irqhandler (local_ec_port (inst st))) st
       in if k_ret b \<le> 0
          then (- EIO, snd (kdo env (K_evtchn_close (local_ec_port (inst st))) st))
          else (0, upd_inst (\<lambda>d. d\<lparr>ec_irq := of_int (k_ret b)\<rparr>) st))"

definition xen_shm_open_ec_offerer :: "kenv \<Rightarrow> shm_st \<Rightarrow> int \<times> shm_st" where
  "xen_shm_open_ec_offerer env st = xen_shm_open_ec env True st"

definition xen_shm_open_ec_receiver :: "kenv \<Rightarrow> shm_st \<Rightarrow> (int \<times> shm_st) option" where
  "xen_shm_open_ec_receiver env st =
    do {
      m \<leftarrow> meta st;
      Some (xen_shm_open_ec env False (upd_inst (\<lambda>d. d\<lparr>dist_ec_port := offerer_ec_port m\<rparr>) st))
    }"

definition xen_shm_close_ec :: "kenv \<Rightarrow> shm_st \<Rightarrow> shm_st" where
  "xen_shm_close_ec env st = snd (kdo env (K_unbind_irqhandler (ec_irq (inst st))) st)"

definition xen_shm_close_ec_receiver :: "kenv \<Rightarrow> shm_st \<Rightarrow> shm_st" where
  "xen_shm_close_ec_receiver env st = xen_shm_close_ec env st"

definition xen_shm_close_ec_offerer :: "kenv \<Rightarrow> shm_st \<Rightarrow> shm_st" where
  "xen_shm_close_ec_offerer env st = xen_shm_close_ec env st"

section \<open>Facts\<close>

lemma close_ec_simps [simp]:
  "inst (xen_shm_close_ec_receiver env st) = inst st" "meta (xen_shm_close_ec_receiver env st) = meta st"
  "ktrace (xen_shm_close_ec_receiver env st) = ktrace st @ [K_unbind_irqhandler (ec_irq (inst st))]"
  "inst (xen_shm_close_ec_offerer env st) = inst st" "meta (xen_shm_close_ec_offerer env st) = meta st"
  "ktrace (xen_shm_close_ec_offerer env st) = ktrace st @ [K_unbind_irqhandler (ec_irq (inst st))]"
  by (simp_all add: xen_shm_close_ec_receiver_def xen_shm_close_ec_offerer_def xen_shm_close_ec_def)

text \<open>The fields of an instance that the event channel operations leave alone.\<close>

definition ec_frame :: "xen_shm_instance_data \<Rightarrow> xen_shm_instance_data" where
  "ec_frame d = d\<lparr>local_ec_port := 0, dist_ec_port := 0, ec_irq := 0, initial_signal := 0,
     user_signal := 0, latent_user_signal := 0\<rparr>"

lemma ec_frame_fields:
  assumes "ec_frame d' = ec_frame d"
  shows "state d' = state d" "pages_count d' = pages_count d" "shared_memory d' = shared_memory d"
    "offerer_alloc_order d' = offerer_alloc_order d" "unmapped_area d' = unmapped_area d"
    "map_ops d' = map_ops d" "unmap_ops d' = unmap_ops d" "kmap_ops d' = kmap_ops d"
    "user_mem d' = user_mem d" "distant_domid d' = distant_domid d" "local_domid d' = local_domid d"
    "first_page_grant d' = first_page_grant d" "grant_map_handle0 d' = grant_map_handle0 d"
    "use_ptemod d' = use_ptemod d" "user_pages d' = user_pages d"
  using arg_cong [OF assms, of state] arg_cong [OF assms, of pages_count] arg_cong [OF assms, of shared_memory]
    arg_cong [OF assms, of offerer_alloc_order] arg_cong [OF assms, of unmapped_area]
    arg_cong [OF assms, of map_ops] arg_cong [OF assms, of unmap_ops] arg_cong [OF assms, of kmap_ops]
    arg_cong [OF assms, of user_mem] arg_cong [OF assms, of distant_domid] arg_cong [OF assms, of local_domid]
    arg_cong [OF assms, of first_page_grant] arg_cong [OF assms, of grant_map_handle0]
    arg_cong [OF assms, of use_ptemod] arg_cong [OF assms, of user_pages]
  by (simp_all add: ec_frame_def)

lemma event_handler_simps [simp]:
  "meta (xen_shm_event_handler env st) = meta st"
  "state (inst (xen_shm_event_handler env st)) = state (inst st)"
  "ec_frame (inst (xen_shm_event_handler env st)) = ec_frame (inst st)"
  by (simp_all add: xen_shm_event_handler_def Let_def ec_frame_def)

lemma open_ec_frame:
  assumes "xen_shm_open_ec env off st = (r, st')"
  shows "ec_frame (inst st') = ec_frame (inst st)" "meta st' = meta st" "state (inst st') = state (inst st)"
    "r = 0 \<or> r = - EIO"
  using assms by (auto simp: xen_shm_open_ec_def Let_def split_beta ec_frame_def split: if_splits)

text \<open>A channel that gets no handler is closed again.\<close>

lemma open_ec_trace:
  assumes "xen_shm_open_ec env off st = (r, st')"
  obtains cs where "ktrace st' = ktrace st @ cs"
    and "r = 0 \<Longrightarrow> \<exists>c. cs = [c, K_bind_irqhandler (local_ec_port (inst st'))] \<and> k_ret (kanswer env (ktrace st) c) = 0"
    and "r \<noteq> 0 \<Longrightarrow> (\<exists>c. cs = [c] \<and> k_ret (kanswer env (ktrace st) c) \<noteq> 0)
       \<or> (\<exists>c p. cs = [c, K_bind_irqhandler p, K_evtchn_close p])"
proof -
  show ?thesis
    using assms that [of "drop (length (ktrace st)) (ktrace st')"]
    by (auto simp: xen_shm_open_ec_def Let_def split_beta split: if_splits)
qed

section \<open>Properties\<close>

text \<open>The interrupt handler tells the initial signal from the later ones: the first event sets
  the initial flag only, and the offerer, and only the offerer, answers it once; every later
  event sets both user flags and answers nothing; waiting processes are woken in every case, and
  nothing else of the instance and nothing of the header page changes.\<close>

theorem event_handler_handshake:
  "let st' = xen_shm_event_handler env st; st'' = xen_shm_event_handler env st' in
    initial_signal (inst st') \<noteq> 0
    \<and> (initial_signal (inst st) = 0 \<longrightarrow>
        user_signal (inst st') = user_signal (inst st)
        \<and> latent_user_signal (inst st') = latent_user_signal (inst st)
        \<and> ktrace st' = ktrace st @ (if state (inst st) = XEN_SHM_STATE_OFFERER
            then [K_notify_remote (local_ec_port (inst st))] else []) @ [K_wake_up])
    \<and> user_signal (inst st'') = 1 \<and> latent_user_signal (inst st'') = 1
    \<and> ktrace st'' = ktrace st' @ [K_wake_up]
    \<and> meta st'' = meta st \<and> ec_frame (inst st'') = ec_frame (inst st)"
  by (simp add: xen_shm_event_handler_def Let_def ec_frame_def)

text \<open>An instance with the content that \<^verbatim>\<open>xen_shm_open\<close> gives it, and a quiet kernel in which every
  call succeeds.\<close>

definition small_inst :: xen_shm_instance_data where
  "small_inst = \<lparr>state = XEN_SHM_STATE_OPENED, use_ptemod = False, pages_count = 0, shared_memory = 0,
     local_domid = 1, distant_domid = 0, local_ec_port = 0, dist_ec_port = 0, next_delayed = None,
     ec_irq = 0, initial_signal = 0, user_signal = 0, latent_user_signal = 0, first_page_grant = 0,
     offerer_alloc_order = 0, unmapped_area = None, user_mem = None, user_pages = [],
     grant_map_handle0 = 0,
     map_ops = replicate 128 \<lparr>mo_addr = 0, mo_flags = 0, mo_ref = 0, mo_dom = 0, mo_status = 0, mo_handle = 0\<rparr>,
     unmap_ops = replicate 128 \<lparr>uo_addr = 0, uo_flags = 0, uo_handle = 0\<rparr>,
     kmap_ops = replicate 128 \<lparr>mo_addr = 0, mo_flags = 0, mo_ref = 0, mo_dom = 0, mo_status = 0, mo_handle = 0\<rparr>,
     mm = None\<rparr>"

definition small_meta :: xen_shm_meta_page_data where
  "small_meta = \<lparr>offerer_state = 2, receiver_state = 1, meta_pages_count = 3, offerer_ec_port = 5,
     ec_mutex_count = 1, grant_refs = replicate 128 7\<rparr>"

definition small_kenv :: kenv where
  "small_kenv = \<lparr>kanswer = \<lambda>h c. \<lparr>k_ret = (case c of K_bind_irqhandler _ \<Rightarrow> 9 | K_end_access _ \<Rightarrow> 1 | _ \<Rightarrow> 0),
       k_val = 4096, k_status = 0\<rparr>,
     kpage = \<lambda>h. small_meta, kmapped = \<lambda>h i. (0, 3), kballoon = \<lambda>h. replicate 128 8192,
     kfresh = \<lambda>h. small_inst,
     kmaddr = \<lambda>a. a, pv_domain = False, hz = 250\<rparr>"

theorem event_handler_handshake_witness:
  "ktrace (xen_shm_event_handler small_kenv
      \<lparr>inst = small_inst\<lparr>state := XEN_SHM_STATE_OFFERER, local_ec_port := 6\<rparr>, meta = None, ktrace = []\<rparr>)
    = [K_notify_remote 6, K_wake_up]"
  using event_handler_handshake [of small_kenv
      "\<lparr>inst = small_inst\<lparr>state := XEN_SHM_STATE_OFFERER, local_ec_port := 6\<rparr>, meta = None, ktrace = []\<rparr>"]
  by (simp add: small_inst_def Let_def)

end
