(* ===== verification/Shm_Memory.thy ===== *)
theory Shm_Memory
  imports Shm_Event
begin

text \<open>
  The memory of an instance: the pages of the offerer, the mappings of the receiver, how they
  are given back, and the notifications of the memory manager.
\<close>

section \<open>Definitions\<close>

subsection \<open>Unmapping the pages of a receiver\<close>

definition page_unmapped :: "nat \<Rightarrow> xen_shm_instance_data \<Rightarrow> xen_shm_instance_data" where
  "page_unmapped i d = d\<lparr>unmap_ops := (unmap_ops d)[i := (unmap_ops d ! i)\<lparr>uo_handle := NO_HANDLE\<rparr>]\<rparr>"

text \<open>The call that unmaps the page \<open>i\<close>; its result only leads to a message.\<close>

definition unmap_page :: "kenv \<Rightarrow> nat \<Rightarrow> shm_st \<Rightarrow> shm_st" where
  "unmap_page env i st =
    (let (err, st) = kdo env (K_unmap_refs i (unmap_ops (inst st) ! i) (use_ptemod (inst st))) st
     in upd_inst (page_unmapped i) st)"

function xen_shm_unmap_receiver_grant_pages :: "kenv \<Rightarrow> int \<Rightarrow> int \<Rightarrow> shm_st \<Rightarrow> shm_st option" where
  "xen_shm_unmap_receiver_grant_pages env offset nb st =
    (if nb > 0
     then if 0 \<le> offset \<and> nat offset < length (unmap_ops (inst st))
       then
         let mapped = (uo_handle (unmap_ops (inst st) ! nat offset) \<noteq> NO_HANDLE);
             st = (if mapped then unmap_page env (nat offset) st else st);
             nb = (if mapped then nb - 1 else nb);
             offset = offset + 1
         in if offset \<ge> int (unat (pages_count (inst st))) - 1 then Some st
            else xen_shm_unmap_receiver_grant_pages env offset nb st
       else None
     else Some st)"
  by pat_completeness auto
termination
  by (relation "measure (\<lambda>(env, offset, nb, st). nat (int (unat (pages_count (inst st))) - offset))")
    (auto simp: unmap_page_def page_unmapped_def split_beta split: if_splits)

declare xen_shm_unmap_receiver_grant_pages.simps [simp del]

subsection \<open>Allocation\<close>

fun alloc_order :: "nat \<Rightarrow> nat \<Rightarrow> nat \<times> nat" where
  "alloc_order order tmp_page_count =
    (if tmp_page_count \<noteq> 0 then alloc_order (order + 1) (tmp_page_count div 2) else (order, tmp_page_count))"

declare alloc_order.simps [simp del]

definition xen_shm_allocate_shared_memory_offerer :: "kenv \<Rightarrow> shm_st \<Rightarrow> int \<times> shm_st" where
  "xen_shm_allocate_shared_memory_offerer env st =
    (let (order, tmp_page_count) = alloc_order 0 (unat (pages_count (inst st)));
         order = (if tmp_page_count = 2 ^ (order - 1) then order - 1 else order);
         page = kpage env (ktrace st);
         (a, st) = kdo env (K_get_free_pages order) st
     in if k_val a = 0 then (- ENOMEM, st)
        else (0, (upd_inst (\<lambda>d. d\<lparr>offerer_alloc_order := order, shared_memory := k_val a\<rparr>) st)
                   \<lparr>meta := Some page\<rparr>))"

definition xen_shm_free_shared_memory_offerer :: "kenv \<Rightarrow> shm_st \<Rightarrow> shm_st" where
  "xen_shm_free_shared_memory_offerer env st =
    (if shared_memory (inst st) \<noteq> 0
     then (snd (kdo env (K_free_pages (shared_memory (inst st)) (offerer_alloc_order (inst st))) st))
            \<lparr>meta := None\<rparr>
     else st)"

definition xen_shm_free_shared_memory_receiver :: "kenv \<Rightarrow> shm_st \<Rightarrow> shm_st" where
  "xen_shm_free_shared_memory_receiver env st =
    (case unmapped_area (inst st) of
       None \<Rightarrow> st
     | Some a \<Rightarrow> (snd (kdo env (K_free_vm_area a) st))\<lparr>meta := None\<rparr>)"

text \<open>The grant of the header page is unmapped; the page is out of reach when that succeeds.\<close>

definition unmap_header :: "kenv \<Rightarrow> nat \<Rightarrow> shm_st \<Rightarrow> int \<times> shm_st" where
  "unmap_header env addr st =
    (let (a, st) = kdo env (K_unmap_grant addr (grant_map_handle0 (inst st))) st
     in (k_status a, if k_status a = 0 then st\<lparr>meta := None\<rparr> else st))"

subsection \<open>Giving everything back\<close>

text \<open>The grants of the offerer are ended from the last page to the first; \<open>False\<close> when one of them
  is still in use by the receiver.\<close>

function end_grants :: "kenv \<Rightarrow> shm_st \<Rightarrow> (bool \<times> shm_st) option" where
  "end_grants env st =
    (if pages_count (inst st) \<noteq> 0
     then do {
       m \<leftarrow> meta st;
       ref \<leftarrow> nth_opt (grant_refs m) (unat (pages_count (inst st)) - 1);
       let (a, st) = kdo env (K_end_access ref) st;
       if k_ret a \<noteq> 0 then end_grants env (upd_inst (\<lambda>d. d\<lparr>pages_count := pages_count d - 1\<rparr>) st)
       else Some (False, st)
     }
     else Some (True, st))"
  by pat_completeness auto
termination
proof (relation "measure (\<lambda>(env, st). unat (pages_count (inst st)))", simp, clarsimp simp: kdo_def)
  fix st :: shm_st
  assume "pages_count (inst st) \<noteq> 0"
  then show "unat (pages_count (inst st) - 1) < unat (pages_count (inst st))"
    by (simp add: unat_sub unat_gt_0 word_le_nat_alt Suc_le_eq)
qed

declare end_grants.simps [simp del]

definition free_receiver_header :: "kenv \<Rightarrow> shm_st \<Rightarrow> int \<times> shm_st" where
  "free_receiver_header env st =
    (let (status, st) = unmap_header env (shared_memory (inst st)) st
     in if status = 0
        then let st = upd_inst (\<lambda>d. d\<lparr>pages_count := pages_count d - 1\<rparr>) st;
                 st = xen_shm_close_ec_receiver env st
             in (0, xen_shm_free_shared_memory_receiver env st)
        else (-1, st))"

text \<open>The argument \<^verbatim>\<open>first\<close> only selects a message.\<close>

definition xen_shm_prepare_free :: "kenv \<Rightarrow> shm_st \<Rightarrow> (int \<times> shm_st) option" where
  "xen_shm_prepare_free env st =
    (case state (inst st) of
       XEN_SHM_STATE_OPENED \<Rightarrow> Some (0, st)
     | XEN_SHM_STATE_OFFERER \<Rightarrow>
         do {
           (done, st) \<leftarrow> end_grants env st;
           if done
           then let st = xen_shm_close_ec_offerer env st
                in Some (0, xen_shm_free_shared_memory_offerer env st)
           else Some (-1, st)
         }
     | XEN_SHM_STATE_RECEIVER_MAPPED \<Rightarrow>
         do {
           st \<leftarrow> (if \<not> use_ptemod (inst st)
                  then xen_shm_unmap_receiver_grant_pages env 0 (int (unat (pages_count (inst st))) - 1) st
                  else Some st);
           Some (free_receiver_header env st)
         }
     | XEN_SHM_STATE_RECEIVER \<Rightarrow> Some (free_receiver_header env st))"

subsection \<open>Notifications of the memory manager\<close>

definition xen_shm_mn_invl_range_start :: "kenv \<Rightarrow> nat \<Rightarrow> nat \<Rightarrow> shm_st \<Rightarrow> shm_st option" where
  "xen_shm_mn_invl_range_start env start end_addr st =
    (case user_mem (inst st) of
       None \<Rightarrow> Some st
     | Some v \<Rightarrow>
         if start \<ge> vm_end v \<or> vm_start v \<ge> end_addr then Some st
         else
           let mstart = max start (vm_start v);
               mend = min end_addr (vm_end v)
           in xen_shm_unmap_receiver_grant_pages env (int ((mstart - vm_start v) div PAGE_SIZE))
                (int ((mend - mstart) div PAGE_SIZE)) st)"

definition xen_shm_mn_invl_page :: "kenv \<Rightarrow> nat \<Rightarrow> shm_st \<Rightarrow> shm_st option" where
  "xen_shm_mn_invl_page env address st = xen_shm_mn_invl_range_start env address (address + PAGE_SIZE) st"

definition xen_shm_mn_release :: "kenv \<Rightarrow> shm_st \<Rightarrow> shm_st option" where
  "xen_shm_mn_release env st =
    (case user_mem (inst st) of
       None \<Rightarrow> Some st
     | Some v \<Rightarrow> xen_shm_unmap_receiver_grant_pages env 0 (int (unat (pages_count (inst st))) - 1) st)"

section \<open>The allocation order\<close>

lemma alloc_order_bounds:
  "alloc_order k p = (order, t) \<Longrightarrow> t = 0 \<and> p < 2 ^ (order - k) \<and> k \<le> order \<and> (p \<noteq> 0 \<longrightarrow> 2 ^ (order - k) \<le> 2 * p)"
proof (induction k p rule: alloc_order.induct)
  case (1 k p)
  show ?case
  proof (cases "p = 0")
    case True
    with "1.prems" show ?thesis by (simp add: alloc_order.simps [of k 0])
  next
    case False
    with "1.prems" have rec: "alloc_order (k + 1) (p div 2) = (order, t)"
      by (simp add: alloc_order.simps [of k p])
    note ih = "1.IH" [OF False this]
    from ih have "order - k = Suc (order - (k + 1))" by linarith
    moreover have "order = k + 1 \<and> p = 1" if "p div 2 = 0"
      using that rec False by (auto simp: alloc_order.simps [of _ 0])
    ultimately show ?thesis
      using ih False by (cases "p div 2 = 0") auto
  qed
qed

section \<open>The pages of a receiver\<close>

definition mapped_pages :: "xen_shm_instance_data \<Rightarrow> nat \<Rightarrow> nat \<Rightarrow> nat list" where
  "mapped_pages d a b = filter (\<lambda>i. uo_handle (unmap_ops d ! i) \<noteq> NO_HANDLE) [a..<b]"

lemma unmap_page_simps [simp]:
  "pages_count (inst (unmap_page env i st)) = pages_count (inst st)"
  "length (unmap_ops (inst (unmap_page env i st))) = length (unmap_ops (inst st))"
  "state (inst (unmap_page env i st)) = state (inst st)"
  "use_ptemod (inst (unmap_page env i st)) = use_ptemod (inst st)"
  "shared_memory (inst (unmap_page env i st)) = shared_memory (inst st)"
  "unmapped_area (inst (unmap_page env i st)) = unmapped_area (inst st)"
  "meta (unmap_page env i st) = meta st"
  "ktrace (unmap_page env i st)
     = ktrace st @ [K_unmap_refs i (unmap_ops (inst st) ! i) (use_ptemod (inst st))]"
  "j \<noteq> i \<Longrightarrow> unmap_ops (inst (unmap_page env i st)) ! j = unmap_ops (inst st) ! j"
  "i < length (unmap_ops (inst st)) \<Longrightarrow>
     unmap_ops (inst (unmap_page env i st)) ! i = (unmap_ops (inst st) ! i)\<lparr>uo_handle := NO_HANDLE\<rparr>"
  by (simp_all add: unmap_page_def page_unmapped_def split_beta)

lemma mapped_pages_after_unmap: "i < a \<Longrightarrow> mapped_pages (inst (unmap_page env i st)) a b = mapped_pages (inst st) a b"
  by (auto simp: mapped_pages_def intro!: filter_cong)

lemma mapped_pages_Cons:
  "a < b \<Longrightarrow> mapped_pages d a b =
    (if uo_handle (unmap_ops d ! a) \<noteq> NO_HANDLE then a # mapped_pages d (Suc a) b else mapped_pages d (Suc a) b)"
  by (simp add: mapped_pages_def upt_conv_Cons)

lemma unmap_pages_step:
  fixes env :: kenv
  assumes "0 < nb" "a < length (unmap_ops (inst st))"
  defines "m \<equiv> uo_handle (unmap_ops (inst st) ! a) \<noteq> NO_HANDLE"
  defines "st1 \<equiv> if m then unmap_page env a st else st"
  shows "xen_shm_unmap_receiver_grant_pages env (int a) nb st =
    (if int (Suc a) \<ge> int (unat (pages_count (inst st))) - 1 then Some st1
     else xen_shm_unmap_receiver_grant_pages env (int (Suc a)) (if m then nb - 1 else nb) st1)"
  using assms(1,2) unfolding m_def st1_def
  by (subst xen_shm_unmap_receiver_grant_pages.simps) (simp add: Let_def add.commute)

text \<open>The loop unmaps the first \<open>nb\<close> pages that are still mapped, from the given offset on.\<close>

lemma unmap_pages_fold:
  assumes "a < b" "b = unat (pages_count (inst st)) - 1" "b \<le> length (unmap_ops (inst st))"
  shows "xen_shm_unmap_receiver_grant_pages env (int a) nb st =
    Some (fold (unmap_page env) (take (nat nb) (mapped_pages (inst st) a b)) st)"
  using assms
proof (induction "b - a" arbitrary: a nb st rule: less_induct)
  case less
  show ?case
  proof (cases "nb > 0")
    case True
    define m where "m = (uo_handle (unmap_ops (inst st) ! a) \<noteq> NO_HANDLE)"
    define st1 where "st1 = (if m then unmap_page env a st else st)"
    define nb1 where "nb1 = (if m then nb - 1 else nb)"
    have pc: "pages_count (inst st1) = pages_count (inst st)"
      "length (unmap_ops (inst st1)) = length (unmap_ops (inst st))"
      and mp: "mapped_pages (inst st1) (Suc a) b = mapped_pages (inst st) (Suc a) b"
      by (simp_all add: st1_def mapped_pages_after_unmap)
    have step: "xen_shm_unmap_receiver_grant_pages env (int a) nb st =
        (if Suc a \<ge> b then Some st1 else xen_shm_unmap_receiver_grant_pages env (int (Suc a)) nb1 st1)"
    proof -
      have "int (Suc a) \<ge> int (unat (pages_count (inst st))) - 1 \<longleftrightarrow> Suc a \<ge> b"
        using less.prems by linarith
      then show ?thesis
        using unmap_pages_step [OF True, of a st env] less.prems
        unfolding m_def [symmetric] st1_def [symmetric] nb1_def [symmetric] by (simp del: of_nat_Suc)
    qed
    have tk: "take (nat nb) (mapped_pages (inst st) a b) =
        (if m then a # take (nat nb1) (mapped_pages (inst st) (Suc a) b)
         else take (nat nb1) (mapped_pages (inst st) (Suc a) b))"
      using True less.prems(1)
      by (simp add: mapped_pages_Cons m_def [symmetric] nb1_def take_Cons' nat_diff_distrib)
    show ?thesis
    proof (cases "Suc a \<ge> b")
      case True
      then have "mapped_pages (inst st) (Suc a) b = []" by (simp add: mapped_pages_def)
      with True tk step show ?thesis by (simp add: st1_def)
    next
      case False
      have "xen_shm_unmap_receiver_grant_pages env (int (Suc a)) nb1 st1 =
          Some (fold (unmap_page env) (take (nat nb1) (mapped_pages (inst st1) (Suc a) b)) st1)"
        by (rule less.hyps) (use False less.prems pc in auto)
      with False step have "xen_shm_unmap_receiver_grant_pages env (int a) nb st =
          Some (fold (unmap_page env) (take (nat nb1) (mapped_pages (inst st) (Suc a) b)) st1)"
        by (simp only: mp if_False)
      then show ?thesis unfolding tk by (simp add: st1_def)
    qed
  next
    case False
    then show ?thesis by (simp add: xen_shm_unmap_receiver_grant_pages.simps)
  qed
qed

text \<open>What a run over the pages changes.\<close>

definition page_frame :: "xen_shm_instance_data \<Rightarrow> xen_shm_instance_data" where
  "page_frame d = d\<lparr>unmap_ops := []\<rparr>"

lemma fold_unmap_page_all:
  assumes "distinct xs" "\<forall>i \<in> set xs. i < length (unmap_ops (inst st))"
  shows "page_frame (inst (fold (unmap_page env) xs st)) = page_frame (inst st)
    \<and> meta (fold (unmap_page env) xs st) = meta st
    \<and> length (unmap_ops (inst (fold (unmap_page env) xs st))) = length (unmap_ops (inst st))
    \<and> ktrace (fold (unmap_page env) xs st)
        = ktrace st @ map (\<lambda>i. K_unmap_refs i (unmap_ops (inst st) ! i) (use_ptemod (inst st))) xs
    \<and> (\<forall>i. uo_handle (unmap_ops (inst (fold (unmap_page env) xs st)) ! i) =
        (if i \<in> set xs then NO_HANDLE else uo_handle (unmap_ops (inst st) ! i)))"
  using assms
proof (induction xs arbitrary: st)
  case (Cons x xs)
  let ?st1 = "unmap_page env x st"
  have x: "x < length (unmap_ops (inst st))" "x \<notin> set xs" "distinct xs"
    "\<forall>i \<in> set xs. i < length (unmap_ops (inst ?st1))"
    using Cons.prems by auto
  note ih = Cons.IH [OF x(3,4)]
  have fr: "page_frame (inst ?st1) = page_frame (inst st)"
    by (simp add: page_frame_def unmap_page_def page_unmapped_def split_beta)
  have "map (\<lambda>i. K_unmap_refs i (unmap_ops (inst ?st1) ! i) (use_ptemod (inst ?st1))) xs
      = map (\<lambda>i. K_unmap_refs i (unmap_ops (inst st) ! i) (use_ptemod (inst st))) xs"
    using x(2) by (intro map_cong) (auto intro!: unmap_page_simps(9))
  moreover have "uo_handle (unmap_ops (inst (fold (unmap_page env) xs ?st1)) ! i) =
      (if i \<in> set (x # xs) then NO_HANDLE else uo_handle (unmap_ops (inst st) ! i))" for i
    using ih x(1,2) by (cases "i = x") auto
  ultimately show ?case using ih fr by simp
qed simp

lemmas fold_unmap_page = fold_unmap_page_all [THEN conjunct1]
  fold_unmap_page_all [THEN conjunct2, THEN conjunct1]
  fold_unmap_page_all [THEN conjunct2, THEN conjunct2, THEN conjunct1]
  fold_unmap_page_all [THEN conjunct2, THEN conjunct2, THEN conjunct2, THEN conjunct1]
  fold_unmap_page_all [THEN conjunct2, THEN conjunct2, THEN conjunct2, THEN conjunct2, THEN spec]

text \<open>Unmapping all the pages of a receiver.\<close>

lemma unmap_all_pages:
  assumes "2 \<le> unat (pages_count (inst st))" "unat (pages_count (inst st)) - 1 \<le> length (unmap_ops (inst st))"
  defines "b \<equiv> unat (pages_count (inst st)) - 1"
  shows "\<exists>st'. xen_shm_unmap_receiver_grant_pages env 0 (int (unat (pages_count (inst st))) - 1) st = Some st'
    \<and> page_frame (inst st') = page_frame (inst st) \<and> meta st' = meta st
    \<and> length (unmap_ops (inst st')) = length (unmap_ops (inst st))
    \<and> ktrace st' = ktrace st @ map (\<lambda>i. K_unmap_refs i (unmap_ops (inst st) ! i) (use_ptemod (inst st)))
        (mapped_pages (inst st) 0 b)
    \<and> mapped_pages (inst st') 0 b = []"
proof -
  let ?xs = "mapped_pages (inst st) 0 b"
  have len: "length ?xs \<le> b" unfolding mapped_pages_def using length_filter_le [of _ "[0..<b]"] by simp
  have "xen_shm_unmap_receiver_grant_pages env (int 0) (int b) st =
      Some (fold (unmap_page env) (take (nat (int b)) ?xs) st)"
    by (rule unmap_pages_fold) (use assms in auto)
  moreover have "int (unat (pages_count (inst st))) - 1 = int b" using assms(1) unfolding b_def by linarith
  ultimately have run: "xen_shm_unmap_receiver_grant_pages env 0 (int (unat (pages_count (inst st))) - 1) st
      = Some (fold (unmap_page env) ?xs st)"
    using len by simp
  have xs: "distinct ?xs" "\<forall>i \<in> set ?xs. i < length (unmap_ops (inst st))"
    using assms by (auto simp: mapped_pages_def)
  note f = fold_unmap_page [OF xs, of env]
  have "mapped_pages (inst (fold (unmap_page env) ?xs st)) 0 b = []"
    using f(5) by (auto simp: mapped_pages_def filter_empty_conv)
  with run f show ?thesis by blast
qed

section \<open>The grants of an offerer\<close>

text \<open>The calls that end the grants of the pages \<open>k\<close> to \<open>p - 1\<close>, the last one first.\<close>

definition ended_calls :: "u32 list \<Rightarrow> nat \<Rightarrow> nat \<Rightarrow> kcall list" where
  "ended_calls refs p k = map K_end_access (rev (drop k (take p refs)))"

lemma ended_calls_self [simp]: "ended_calls refs p p = []"
  by (simp add: ended_calls_def)

lemma ended_calls_first:
  assumes "k \<le> p" "p < length refs"
  shows "ended_calls refs (Suc p) k = K_end_access (refs ! p) # ended_calls refs p k"
  using assms by (simp add: ended_calls_def take_Suc_conv_app_nth)

text \<open>A run that ended the grants of the pages \<open>k\<close> to \<open>p - 1\<close> after the calls \<open>h\<close>: every one of these
  calls succeeded, and the one for the page below failed unless there is none.\<close>

definition grants_ended :: "kenv \<Rightarrow> kcall list \<Rightarrow> u32 list \<Rightarrow> nat \<Rightarrow> nat \<Rightarrow> bool" where
  "grants_ended env h refs p k \<longleftrightarrow> k \<le> p
     \<and> (\<forall>i. k \<le> i \<and> i < p \<longrightarrow>
          k_ret (kanswer env (h @ ended_calls refs p (Suc i)) (K_end_access (refs ! i))) \<noteq> 0)
     \<and> (k \<noteq> 0 \<longrightarrow> k_ret (kanswer env (h @ ended_calls refs p k) (K_end_access (refs ! (k - 1)))) = 0)"

lemma grants_ended_Suc:
  assumes ok: "k_ret (kanswer env h (K_end_access (refs ! p))) \<noteq> 0" and p: "p < length refs"
    and run: "grants_ended env (h @ [K_end_access (refs ! p)]) refs p k"
  shows "grants_ended env h refs (Suc p) k"
proof -
  have k: "k \<le> p" using run by (simp add: grants_ended_def)
  have e: "h @ ended_calls refs (Suc p) i = (h @ [K_end_access (refs ! p)]) @ ended_calls refs p i" if "i \<le> p" for i
    using ended_calls_first [OF that p] by simp
  show ?thesis
    unfolding grants_ended_def
  proof (intro conjI allI impI)
    fix i assume i: "k \<le> i \<and> i < Suc p"
    show "k_ret (kanswer env (h @ ended_calls refs (Suc p) (Suc i)) (K_end_access (refs ! i))) \<noteq> 0"
    proof (cases "i = p")
      case True
      then show ?thesis using ok by (simp add: ended_calls_def)
    next
      case False
      with i have "Suc i \<le> p" by simp
      from e [OF this] show ?thesis using run i False by (simp add: grants_ended_def)
    qed
  next
    show "k \<le> Suc p" using k by simp
    assume "k \<noteq> 0"
    with run e [OF k] show "k_ret (kanswer env (h @ ended_calls refs (Suc p) k) (K_end_access (refs ! (k - 1)))) = 0"
      by (simp add: grants_ended_def)
  qed
qed

lemma end_grants_run:
  assumes "meta st = Some m" "unat (pages_count (inst st)) = p" "p \<le> length (grant_refs m)"
  shows "\<exists>k st'. end_grants env st = Some (k = 0, st') \<and> grants_ended env (ktrace st) (grant_refs m) p k
    \<and> inst st' = (inst st)\<lparr>pages_count := of_nat k\<rparr> \<and> meta st' = Some m
    \<and> ktrace st' = ktrace st @ ended_calls (grant_refs m) p k
        @ (if k = 0 then [] else [K_end_access (grant_refs m ! (k - 1))])"
  using assms
proof (induction p arbitrary: st)
  case 0
  then have "pages_count (inst st) = 0" by (simp add: unat_eq_0)
  then show ?case
    using 0 by (intro exI [of _ 0] exI [of _ st]) (auto simp: end_grants.simps [of env st] grants_ended_def)
next
  case (Suc p)
  let ?ref = "grant_refs m ! p" and ?d = "inst st"
  have nz: "pages_count ?d \<noteq> 0" using Suc.prems(2) by auto
  let ?st1 = "st\<lparr>ktrace := ktrace st @ [K_end_access ?ref]\<rparr>"
  let ?st2 = "upd_inst (\<lambda>d. d\<lparr>pages_count := pages_count d - 1\<rparr>) ?st1"
  have step: "end_grants env st = (if k_ret (kanswer env (ktrace st) (K_end_access ?ref)) \<noteq> 0
      then end_grants env ?st2 else Some (False, ?st1))"
    using nz Suc.prems by (simp add: end_grants.simps [of env st] kdo_def)
  show ?case
  proof (cases "k_ret (kanswer env (ktrace st) (K_end_access ?ref)) = 0")
    case True
    have "of_nat (unat (pages_count ?d)) = pages_count ?d" by simp
    then have "of_nat (Suc p) = pages_count ?d" unfolding Suc.prems(2) .
    then show ?thesis
      using step True Suc.prems
      by (intro exI [of _ "Suc p"] exI [of _ ?st1]) (simp add: grants_ended_def del: of_nat_Suc)
  next
    case False
    have "unat (pages_count (inst ?st2)) = p"
      using Suc.prems(2) nz by (simp add: unat_sub unat_gt_0 word_le_nat_alt Suc_le_eq)
    from Suc.IH [OF _ this] Suc.prems obtain k st' where
      run: "end_grants env ?st2 = Some (k = 0, st')" "grants_ended env (ktrace ?st2) (grant_refs m) p k"
      and st': "inst st' = (inst ?st2)\<lparr>pages_count := of_nat k\<rparr>" "meta st' = Some m"
        "ktrace st' = ktrace ?st2 @ ended_calls (grant_refs m) p k
          @ (if k = 0 then [] else [K_end_access (grant_refs m ! (k - 1))])"
      by auto
    have k: "k \<le> p" using run(2) by (simp add: grants_ended_def)
    have "ktrace st' = ktrace st @ ended_calls (grant_refs m) (Suc p) k
        @ (if k = 0 then [] else [K_end_access (grant_refs m ! (k - 1))])"
      using st'(3) ended_calls_first [OF k, of "grant_refs m"] Suc.prems(3) by simp
    moreover have "grants_ended env (ktrace st) (grant_refs m) (Suc p) k"
      by (rule grants_ended_Suc) (use False run(2) Suc.prems in auto)
    ultimately show ?thesis
      using step False run(1) st' by (intro exI [of _ k] exI [of _ st']) simp
  qed
qed

section \<open>Properties\<close>

lemma free_receiver_header_run:
  assumes "unmapped_area (inst st) = Some a"
  obtains r st' where "free_receiver_header env st = (r, st')" "r = 0 \<or> r = -1"
    and "ktrace st' = ktrace st @ [K_unmap_grant (shared_memory (inst st)) (grant_map_handle0 (inst st))]
      @ (if r = 0 then [K_unbind_irqhandler (ec_irq (inst st)), K_free_vm_area a] else [])"
    and "r = 0 \<longleftrightarrow> k_status (kanswer env (ktrace st)
      (K_unmap_grant (shared_memory (inst st)) (grant_map_handle0 (inst st)))) = 0"
    and "r = 0 \<Longrightarrow> meta st' = None" "r \<noteq> 0 \<Longrightarrow> inst st' = inst st \<and> meta st' = meta st"
    and "unmap_ops (inst st') = unmap_ops (inst st)"
proof -
  let ?c = "K_unmap_grant (shared_memory (inst st)) (grant_map_handle0 (inst st))"
  show ?thesis
    using that [of "fst (free_receiver_header env st)" "snd (free_receiver_header env st)"] assms
    by (cases "k_status (kanswer env (ktrace st) ?c) = 0")
      (simp_all add: free_receiver_header_def unmap_header_def Let_def split_beta
        xen_shm_free_shared_memory_receiver_def)
qed

text \<open>The block of pages the offerer allocates is large enough for the header page and all the shared
  pages, and at most twice as large; the order used to allocate it is the one remembered for freeing
  it.  When there is no memory, the instance is unchanged and \<^verbatim>\<open>-ENOMEM\<close> is returned.\<close>

theorem allocation_covers_pages:
  assumes "pages_count (inst st) \<noteq> 0"
  shows "\<exists>order r st'. xen_shm_allocate_shared_memory_offerer env st = (r, st')
    \<and> unat (pages_count (inst st)) < 2 ^ order \<and> 2 ^ order \<le> 2 * unat (pages_count (inst st))
    \<and> ktrace st' = ktrace st @ [K_get_free_pages order]
    \<and> (if k_val (kanswer env (ktrace st) (K_get_free_pages order)) = 0
       then r = - ENOMEM \<and> inst st' = inst st \<and> meta st' = meta st
       else r = 0 \<and> offerer_alloc_order (inst st') = order \<and> meta st' = Some (kpage env (ktrace st))
         \<and> shared_memory (inst st') = k_val (kanswer env (ktrace st) (K_get_free_pages order)))"
proof -
  obtain order t where o: "alloc_order 0 (unat (pages_count (inst st))) = (order, t)" by fastforce
  have "unat (pages_count (inst st)) \<noteq> 0" using assms by (simp add: unat_eq_0)
  with alloc_order_bounds [OF o] have t: "t = 0" and b: "unat (pages_count (inst st)) < 2 ^ order"
    "2 ^ order \<le> 2 * unat (pages_count (inst st))" by auto
  show ?thesis
    using b by (intro exI [of _ order]) (simp add: xen_shm_allocate_shared_memory_offerer_def o t Let_def split_beta)
qed

definition small_shm :: "xen_shm_state_t \<Rightarrow> shm_st" where
  "small_shm s = \<lparr>inst = small_inst\<lparr>state := s, pages_count := 3, shared_memory := 8192, unmapped_area := Some 8192,
     ec_irq := 9, local_ec_port := 6\<rparr>, meta = Some small_meta, ktrace = []\<rparr>"

theorem allocation_covers_pages_witness:
  "\<exists>order r st'. xen_shm_allocate_shared_memory_offerer small_kenv (small_shm XEN_SHM_STATE_OPENED) = (r, st')
    \<and> 3 < (2 :: nat) ^ order \<and> (2 :: nat) ^ order \<le> 6"
  using allocation_covers_pages [of "small_shm XEN_SHM_STATE_OPENED" small_kenv]
  by (auto simp: small_shm_def)

text \<open>C29.  The pages of an offerer are freed only after every grant has been ended.  An attempt ends the
  grants from the last page down: the calls for the pages \<open>k\<close> and above succeeded, and if \<open>k\<close> is not 0
  the one below is still in use.  Then the attempt returns -1, no memory is freed, the header page
  stays, and the instance remembers \<open>k\<close>, so that the next attempt goes on from there; if
  \<open>k\<close> is 0 the channel is closed, the pages are freed with the order they were allocated with, and
  0 is returned.\<close>

theorem offerer_frees_after_grants:
  assumes "state (inst st) = XEN_SHM_STATE_OFFERER" "meta st = Some m"
    and "unat (pages_count (inst st)) = p" "p \<le> length (grant_refs m)" "shared_memory (inst st) \<noteq> 0"
  shows "\<exists>k st'. xen_shm_prepare_free env st = Some (if k = 0 then 0 else -1, st')
    \<and> grants_ended env (ktrace st) (grant_refs m) p k
    \<and> inst st' = (inst st)\<lparr>pages_count := of_nat k\<rparr>
    \<and> (if k = 0
       then meta st' = None \<and> ktrace st' = ktrace st @ ended_calls (grant_refs m) p 0
         @ [K_unbind_irqhandler (ec_irq (inst st)),
            K_free_pages (shared_memory (inst st)) (offerer_alloc_order (inst st))]
       else meta st' = Some m \<and> ktrace st' = ktrace st @ ended_calls (grant_refs m) p k
         @ [K_end_access (grant_refs m ! (k - 1))])"
proof -
  obtain k st1 where run: "end_grants env st = Some (k = 0, st1)"
    "grants_ended env (ktrace st) (grant_refs m) p k"
    and st1: "inst st1 = (inst st)\<lparr>pages_count := of_nat k\<rparr>" "meta st1 = Some m"
      "ktrace st1 = ktrace st @ ended_calls (grant_refs m) p k
        @ (if k = 0 then [] else [K_end_access (grant_refs m ! (k - 1))])"
    using end_grants_run [OF assms(2-4), of env] by blast
  show ?thesis
    using run st1 assms(1,5)
    by (intro exI [of _ k])
      (simp add: xen_shm_prepare_free_def xen_shm_free_shared_memory_offerer_def)
qed

theorem offerer_frees_after_grants_witness:
  "\<exists>k st'. xen_shm_prepare_free small_kenv (small_shm XEN_SHM_STATE_OFFERER) = Some (if k = 0 then 0 else -1, st')
    \<and> grants_ended small_kenv [] (replicate 128 7) 3 k"
  using offerer_frees_after_grants [of "small_shm XEN_SHM_STATE_OFFERER" small_meta 3 small_kenv]
  by (auto simp: small_shm_def small_meta_def)



text \<open>An invalidation of any range of user addresses by the memory manager is safe: it makes no access
  outside the array of operations, it unmaps only pages that are still mapped, at most as many
  as the range has and none below its start; and the release notification unmaps all the pages
  that are left.\<close>

theorem invalidation_is_safe:
  assumes "user_mem (inst st) = Some v" "2 \<le> unat (pages_count (inst st))"
    and "unat (pages_count (inst st)) - 1 \<le> length (unmap_ops (inst st))"
    and "vm_end v = vm_start v + (unat (pages_count (inst st)) - 1) * PAGE_SIZE"
  shows "(\<exists>xs st'. xen_shm_mn_invl_range_start env start end_addr st = Some st'
      \<and> st' = fold (unmap_page env) xs st
      \<and> set xs \<subseteq> set (mapped_pages (inst st) ((start - vm_start v) div PAGE_SIZE) (unat (pages_count (inst st)) - 1))
      \<and> distinct xs \<and> length xs \<le> (end_addr - start) div PAGE_SIZE)
    \<and> (\<exists>st'. xen_shm_mn_release env st = Some st'
      \<and> mapped_pages (inst st') 0 (unat (pages_count (inst st)) - 1) = [])"
proof
  let ?b = "unat (pages_count (inst st)) - 1"
  show "\<exists>st'. xen_shm_mn_release env st = Some st' \<and> mapped_pages (inst st') 0 ?b = []"
    using unmap_all_pages [OF assms(2,3), of env] assms(1) by (auto simp: xen_shm_mn_release_def)
  show "\<exists>xs st'. xen_shm_mn_invl_range_start env start end_addr st = Some st' \<and> st' = fold (unmap_page env) xs st
      \<and> set xs \<subseteq> set (mapped_pages (inst st) ((start - vm_start v) div PAGE_SIZE) ?b)
      \<and> distinct xs \<and> length xs \<le> (end_addr - start) div PAGE_SIZE"
  proof (cases "start \<ge> vm_end v \<or> vm_start v \<ge> end_addr")
    case True
    then show ?thesis
      using assms(1) by (intro exI [of _ "[]"]) (simp add: xen_shm_mn_invl_range_start_def)
  next
    case False
    let ?a = "(max start (vm_start v) - vm_start v) div PAGE_SIZE"
    let ?nb = "(min end_addr (vm_end v) - max start (vm_start v)) div PAGE_SIZE"
    have a: "?a = (start - vm_start v) div PAGE_SIZE" by (simp add: max_def)
    have "max start (vm_start v) - vm_start v < ?b * PAGE_SIZE"
      using False assms(2,4) by (cases "start \<le> vm_start v") (auto simp: max_def)
    then have "?a < ?b" by (rule less_mult_imp_div_less)
    from unmap_pages_fold [OF this refl assms(3), of env "int ?nb"]
    have "xen_shm_mn_invl_range_start env start end_addr st
        = Some (fold (unmap_page env) (take ?nb (mapped_pages (inst st) ?a ?b)) st)"
      using False assms(1) by (simp add: xen_shm_mn_invl_range_start_def Let_def)
    moreover have "?nb \<le> (end_addr - start) div PAGE_SIZE" by (intro div_le_mono) auto
    moreover have "length (take ?nb (mapped_pages (inst st) ?a ?b)) \<le> ?nb" by simp
    moreover have "set (take ?nb (mapped_pages (inst st) ?a ?b))
        \<subseteq> set (mapped_pages (inst st) ((start - vm_start v) div PAGE_SIZE) ?b)"
      unfolding a by (rule set_take_subset)
    moreover have "distinct (take ?nb (mapped_pages (inst st) ?a ?b))"
      by (rule distinct_take) (simp add: mapped_pages_def)
    ultimately show ?thesis by (meson le_trans)
  qed
qed

theorem invalidation_is_safe_witness:
  "\<exists>st'. xen_shm_mn_invl_range_start small_kenv 4096 12288
      ((small_shm XEN_SHM_STATE_RECEIVER_MAPPED)\<lparr>inst := (inst (small_shm XEN_SHM_STATE_RECEIVER_MAPPED))
        \<lparr>user_mem := Some \<lparr>vm_start = 8192, vm_end = 16384, vm_write = True, vm_shared = True\<rparr>\<rparr>\<rparr>) = Some st'"
  using invalidation_is_safe [where st = "(small_shm XEN_SHM_STATE_RECEIVER_MAPPED)\<lparr>inst :=
      (inst (small_shm XEN_SHM_STATE_RECEIVER_MAPPED))
        \<lparr>user_mem := Some \<lparr>vm_start = 8192, vm_end = 16384, vm_write = True, vm_shared = True\<rparr>\<rparr>\<rparr>"
      and v = "\<lparr>vm_start = 8192, vm_end = 16384, vm_write = True, vm_shared = True\<rparr>"
      and env = small_kenv and start = 4096 and end_addr = 12288]
  by (auto simp: small_shm_def small_inst_def)

end
