(* ===== verification/Shm_Ioctl.thy ===== *)
theory Shm_Ioctl
  imports Shm_Memory
begin

text \<open>
  The helpers of the two initialising ioctls: an instance becomes the offerer or the receiver of a
  shared memory.
\<close>

section \<open>Definitions\<close>

subsection \<open>Offering\<close>

text \<open>The loop that grants the pages: \<open>Some page\<close> when it is left because the grant of that page is
  negative.  The reference is stored in an unsigned field before it is compared.\<close>

function grant_pages :: "kenv \<Rightarrow> nat \<Rightarrow> shm_st \<Rightarrow> (nat option \<times> shm_st) option" where
  "grant_pages env page st =
    (if page < unat (pages_count (inst st))
     then
       let (a, st) = kdo env (K_grant_access (distant_domid (inst st))
              (shared_memory (inst st) + page * PAGE_SIZE)) st;
           ref = of_int (k_ret a) :: u32
       in do {
         m \<leftarrow> meta st;
         _ \<leftarrow> nth_opt (grant_refs m) page;
         st \<leftarrow> upd_meta (\<lambda>m. m\<lparr>grant_refs := (grant_refs m)[page := ref]\<rparr>) st;
         if ref < 0 then Some (Some page, st) else grant_pages env (page + 1) st
       }
     else Some (None, st))"
  by pat_completeness auto
termination
  by (relation "measure (\<lambda>(env, page, st). unat (pages_count (inst st)) - page)")
    (auto simp: upd_meta_eq_Some kdo_def)

declare grant_pages.simps [simp del]

text \<open>The loop after \<^verbatim>\<open>undo_grant\<close>: the pages below \<open>page\<close>, the last one first.\<close>

fun undo_grants :: "kenv \<Rightarrow> nat \<Rightarrow> shm_st \<Rightarrow> shm_st option" where
  "undo_grants env 0 st = Some st"
| "undo_grants env (Suc page) st =
    do {
      m \<leftarrow> meta st;
      ref \<leftarrow> nth_opt (grant_refs m) page;
      undo_grants env page (snd (kdo env (K_end_access ref) st))
    }"

definition undo_grant :: "kenv \<Rightarrow> nat \<Rightarrow> shm_st \<Rightarrow> shm_st option" where
  "undo_grant env page st =
    do {
      st \<leftarrow> undo_grants env page st;
      Some (xen_shm_free_shared_memory_offerer env st)
    }"

definition resolve_domid :: "u16 \<Rightarrow> xen_shm_instance_data \<Rightarrow> u16" where
  "resolve_domid domid d = (if domid = DOMID_SELF then local_domid d else domid)"

definition xen_shm_ioctl_init_offerer ::
  "kenv \<Rightarrow> xen_shm_ioctlarg_offerer \<Rightarrow> shm_st \<Rightarrow> (int \<times> xen_shm_ioctlarg_offerer \<times> shm_st) option" where
  "xen_shm_ioctl_init_offerer env arg st =
    (if state (inst st) \<noteq> XEN_SHM_STATE_OPENED then Some (- ENOTTY, arg, st)
     else if off_pages_count arg = 0 \<or> unat (off_pages_count arg) > XEN_SHM_MAX_SHARED_PAGES
     then Some (- EINVAL, arg, st)
     else
       let st = upd_inst (\<lambda>d. d\<lparr>distant_domid := resolve_domid (off_dist_domid arg) d,
              pages_count := off_pages_count arg + 1\<rparr>) st;
           (error, st) = xen_shm_allocate_shared_memory_offerer env st
       in if error < 0 then Some (error, arg, st)
       else do {
         st \<leftarrow> upd_meta (\<lambda>m. m\<lparr>offerer_state := XEN_SHM_META_PAGE_STATE_NONE,
                receiver_state := XEN_SHM_META_PAGE_STATE_NONE, ec_mutex_count := 1,
                meta_pages_count := pages_count (inst st)\<rparr>) st;
         (failed, st) \<leftarrow> grant_pages env 0 st;
         (case failed of
            Some page \<Rightarrow>
              do {
                m \<leftarrow> meta st;
                ref \<leftarrow> nth_opt (grant_refs m) page;
                st \<leftarrow> undo_grant env page st;
                Some (sint ref, arg, st)
              }
          | None \<Rightarrow>
              do {
                m \<leftarrow> meta st;
                ref \<leftarrow> nth_opt (grant_refs m) 0;
                let arg = arg\<lparr>off_grant := ref, off_local_domid := local_domid (inst st)\<rparr>;
                let st = upd_inst (\<lambda>d. d\<lparr>first_page_grant := ref\<rparr>) st;
                let (error, st) = xen_shm_open_ec_offerer env st;
                if error \<noteq> 0
                then do {
                  st \<leftarrow> undo_grant env (unat (pages_count (inst st))) st;
                  Some (error, arg, st)
                }
                else do {
                  st \<leftarrow> upd_meta (\<lambda>m. m\<lparr>offerer_ec_port := local_ec_port (inst st)\<rparr>) st;
                  let st = upd_inst (\<lambda>d. d\<lparr>state := XEN_SHM_STATE_OFFERER\<rparr>) st;
                  st \<leftarrow> upd_meta (\<lambda>m. m\<lparr>offerer_state := XEN_SHM_META_PAGE_STATE_OPENED\<rparr>) st;
                  Some (0, arg, st)
                }
              })
       })"

subsection \<open>Receiving\<close>

definition undo_map :: "kenv \<Rightarrow> nat \<Rightarrow> shm_st \<Rightarrow> shm_st" where
  "undo_map env addr st =
    (let (status, st) = unmap_header env addr st in xen_shm_free_shared_memory_receiver env st)"

definition xen_shm_ioctl_init_receiver ::
  "kenv \<Rightarrow> xen_shm_ioctlarg_receiver \<Rightarrow> shm_st \<Rightarrow> (int \<times> shm_st) option" where
  "xen_shm_ioctl_init_receiver env arg st =
    (if state (inst st) \<noteq> XEN_SHM_STATE_OPENED then Some (- ENOTTY, st)
     else if rcv_pages_count arg = 0 \<or> unat (rcv_pages_count arg) > XEN_SHM_MAX_SHARED_PAGES
     then Some (- EINVAL, st)
     else
       let st = upd_inst (\<lambda>d. d\<lparr>distant_domid := resolve_domid (rcv_dist_domid arg) d,
              first_page_grant := rcv_grant arg, pages_count := rcv_pages_count arg + 1\<rparr>) st;
           (a, st) = kdo env (K_alloc_vm_area PAGE_SIZE) st
       in if k_val a = 0
       then Some (- ENOMEM, upd_inst (\<lambda>d. d\<lparr>unmapped_area := None\<rparr>) st)
       else
         let addr = k_val a;
             st = upd_inst (\<lambda>d. d\<lparr>unmapped_area := Some addr, shared_memory := addr\<rparr>) st;
             page = kpage env (ktrace st);
             (b, st) = kdo env (K_map_grant addr (first_page_grant (inst st)) (distant_domid (inst st))) st
         in if k_ret b \<noteq> 0 then Some (- EFAULT, xen_shm_free_shared_memory_receiver env st)
         else if k_status b < 0 then Some (- EINVAL, xen_shm_free_shared_memory_receiver env st)
         else
           let st = (upd_inst (\<lambda>d. d\<lparr>grant_map_handle0 := of_nat (k_val b)\<rparr>) st)\<lparr>meta := Some page\<rparr>
           in do {
             m \<leftarrow> meta st;
             if pages_count (inst st) \<noteq> meta_pages_count m
             then Some (- EINVAL, undo_map env addr st)
             else do {
               (error, st) \<leftarrow> xen_shm_open_ec_receiver env st;
               if error \<noteq> 0 then Some (error, undo_map env addr st)
               else do {
                 let st = upd_inst (\<lambda>d. d\<lparr>state := XEN_SHM_STATE_RECEIVER\<rparr>) st;
                 st \<leftarrow> upd_meta (\<lambda>m. m\<lparr>receiver_state := XEN_SHM_META_PAGE_STATE_OPENED\<rparr>) st;
                 let st = snd (kdo env (K_notify_remote (local_ec_port (inst st))) st);
                 Some (0, st)
               }
             }
           })"

section \<open>The invariant of an instance\<close>

text \<open>The arrays have their declared size; an instance that is not fresh has a header page with room
  for all its grants, and a number of pages in bounds; a receiver keeps the address range of its
  header page, and a mapped receiver the user mapping of its pages.\<close>

definition shm_inv :: "shm_st \<Rightarrow> bool" where
  "shm_inv st \<longleftrightarrow>
     length (map_ops (inst st)) = 128 \<and> length (unmap_ops (inst st)) = 128 \<and> length (kmap_ops (inst st)) = 128
   \<and> (state (inst st) \<noteq> XEN_SHM_STATE_OPENED \<longrightarrow>
        (\<exists>m. meta st = Some m \<and> length (grant_refs m) = 128) \<and> shared_memory (inst st) \<noteq> 0
        \<and> 2 \<le> unat (pages_count (inst st)) \<and> unat (pages_count (inst st)) \<le> 128)
   \<and> (XEN_SHM_STATE_RECEIVER \<le> state (inst st) \<longrightarrow> unmapped_area (inst st) = Some (shared_memory (inst st)))
   \<and> (state (inst st) = XEN_SHM_STATE_RECEIVER_MAPPED \<longrightarrow>
        (\<exists>v. user_mem (inst st) = Some v
          \<and> vm_end v = vm_start v + (unat (pages_count (inst st)) - 1) * PAGE_SIZE))"

text \<open>A header page is large enough for its structure.\<close>

definition env_pages :: "kenv \<Rightarrow> bool" where
  "env_pages env \<longleftrightarrow> (\<forall>h. length (grant_refs (kpage env h)) = 128)"

lemma pages_plus_one:
  assumes "n \<noteq> 0" "unat n \<le> XEN_SHM_MAX_SHARED_PAGES"
  shows "unat (n + 1 :: u8) = unat n + 1" "2 \<le> unat (n + 1 :: u8)" "unat (n + 1 :: u8) \<le> 128"
proof -
  have "0 < unat n" using assms(1) by (simp add: unat_gt_0)
  with assms(2) show "unat (n + 1) = unat n + 1" "2 \<le> unat (n + 1)" "unat (n + 1) \<le> 128"
    by (simp_all add: unat_word_ariths)
qed

section \<open>Offering\<close>

definition grant_calls :: "xen_shm_instance_data \<Rightarrow> nat \<Rightarrow> nat \<Rightarrow> kcall list" where
  "grant_calls d a b = map (\<lambda>i. K_grant_access (distant_domid d) (shared_memory d + i * PAGE_SIZE)) [a..<b]"

text \<open>The references the granting loop stores, as the answers give them after the calls \<open>h\<close>.\<close>

definition granted :: "kenv \<Rightarrow> kcall list \<Rightarrow> xen_shm_instance_data \<Rightarrow> nat \<Rightarrow> nat \<Rightarrow> u32" where
  "granted env h d a i = of_int (k_ret (kanswer env (h @ grant_calls d a i)
     (K_grant_access (distant_domid d) (shared_memory d + i * PAGE_SIZE))))"

lemma grant_calls_Cons:
  "a < b \<Longrightarrow> grant_calls d a b =
    K_grant_access (distant_domid d) (shared_memory d + a * PAGE_SIZE) # grant_calls d (Suc a) b"
  by (simp add: grant_calls_def upt_conv_Cons)

lemma granted_Suc:
  assumes "a < i"
  shows "granted env (h @ [K_grant_access (distant_domid d) (shared_memory d + a * PAGE_SIZE)]) d (Suc a) i
    = granted env h d a i"
  using grant_calls_Cons [OF assms, of d] by (simp add: granted_def)

lemma grant_pages_run:
  assumes "meta st = Some m" "p = unat (pages_count (inst st))" "p \<le> length (grant_refs m)" "page \<le> p"
  shows "\<exists>refs. grant_pages env page st = Some (None, st\<lparr>ktrace := ktrace st @ grant_calls (inst st) page p,
        meta := Some (m\<lparr>grant_refs := refs\<rparr>)\<rparr>)
    \<and> length refs = length (grant_refs m) \<and> (\<forall>i < page. refs ! i = grant_refs m ! i)
    \<and> (\<forall>i. page \<le> i \<and> i < p \<longrightarrow> refs ! i = granted env (ktrace st) (inst st) page i)"
  using assms
proof (induction "p - page" arbitrary: page m st)
  case 0
  then have "grant_pages env page st = Some (None, st)" by (subst grant_pages.simps) simp
  moreover have "st\<lparr>ktrace := ktrace st, meta := Some m\<rparr> = st" using "0.prems"(1) by (cases st) simp
  ultimately show ?case using 0 by (intro exI [of _ "grant_refs m"]) (auto simp: grant_calls_def)
next
  case (Suc x)
  let ?c = "K_grant_access (distant_domid (inst st)) (shared_memory (inst st) + page * PAGE_SIZE)"
  define ref where "ref = (of_int (k_ret (kanswer env (ktrace st) ?c)) :: u32)"
  define m1 where "m1 = m\<lparr>grant_refs := (grant_refs m)[page := ref]\<rparr>"
  define st1 where "st1 = st\<lparr>ktrace := ktrace st @ [?c], meta := Some m1\<rparr>"
  have lt: "page < p" using Suc.hyps(2) by simp
  have step: "grant_pages env page st = grant_pages env (Suc page) st1"
    using lt Suc.prems
    by (simp add: grant_pages.simps [of env page st] kdo_def ref_def m1_def st1_def upd_meta_def)
  have "\<exists>refs. grant_pages env (Suc page) st1 = Some (None, st1\<lparr>
        ktrace := ktrace st1 @ grant_calls (inst st1) (Suc page) p, meta := Some (m1\<lparr>grant_refs := refs\<rparr>)\<rparr>)
    \<and> length refs = length (grant_refs m1) \<and> (\<forall>i < Suc page. refs ! i = grant_refs m1 ! i)
    \<and> (\<forall>i. Suc page \<le> i \<and> i < p \<longrightarrow> refs ! i = granted env (ktrace st1) (inst st1) (Suc page) i)"
    by (rule Suc.hyps(1)) (use Suc.hyps(2) Suc.prems lt in \<open>auto simp: st1_def m1_def\<close>)
  then obtain refs where run: "grant_pages env (Suc page) st1 = Some (None, st1\<lparr>
        ktrace := ktrace st1 @ grant_calls (inst st1) (Suc page) p, meta := Some (m1\<lparr>grant_refs := refs\<rparr>)\<rparr>)"
    and refs: "length refs = length (grant_refs m1)" "\<forall>i < Suc page. refs ! i = grant_refs m1 ! i"
      "\<forall>i. Suc page \<le> i \<and> i < p \<longrightarrow> refs ! i = granted env (ktrace st1) (inst st1) (Suc page) i" by blast
  have old: "refs ! i = grant_refs m ! i" if "i < page" for i
    using refs(2) that by (simp add: m1_def)
  have new: "refs ! i = granted env (ktrace st) (inst st) page i" if "page \<le> i" "i < p" for i
  proof (cases "i = page")
    case True
    then have "refs ! i = ref" using refs(2) lt Suc.prems by (simp add: m1_def)
    then show ?thesis using True by (simp add: ref_def granted_def grant_calls_def)
  next
    case False
    with that have "page < i" by simp
    from granted_Suc [OF this, of env "ktrace st" "inst st"] show ?thesis
      using refs(3) that False by (simp add: st1_def)
  qed
  show ?case
    using run step old new refs(1) grant_calls_Cons [OF lt, of "inst st"]
    by (intro exI [of _ refs]) (simp add: st1_def m1_def)
qed

lemma undo_grants_run:
  assumes "meta st = Some m" "p \<le> length (grant_refs m)"
  shows "undo_grants env p st = Some (st\<lparr>ktrace := ktrace st @ ended_calls (grant_refs m) p 0\<rparr>)"
  using assms
proof (induction p arbitrary: st)
  case (Suc p)
  let ?st = "snd (kdo env (K_end_access (grant_refs m ! p)) st)"
  have "undo_grants env p ?st = Some (?st\<lparr>ktrace := ktrace ?st @ ended_calls (grant_refs m) p 0\<rparr>)"
    using Suc by simp
  then show ?case
    using Suc.prems ended_calls_first [of 0 p "grant_refs m"] by (simp add: kdo_def)
qed simp

text \<open>The state in which the granting loop of an offerer starts, and the one it leaves.\<close>

definition offerer_entry :: "xen_shm_ioctlarg_offerer \<Rightarrow> shm_st \<Rightarrow> shm_st" where
  "offerer_entry arg st = upd_inst (\<lambda>d. d\<lparr>distant_domid := resolve_domid (off_dist_domid arg) d,
     pages_count := off_pages_count arg + 1\<rparr>) st"

definition fresh_header :: "u8 \<Rightarrow> xen_shm_meta_page_data \<Rightarrow> xen_shm_meta_page_data" where
  "fresh_header n m = m\<lparr>offerer_state := XEN_SHM_META_PAGE_STATE_NONE,
     receiver_state := XEN_SHM_META_PAGE_STATE_NONE, ec_mutex_count := 1, meta_pages_count := n\<rparr>"

lemma allocate_run:
  assumes "xen_shm_allocate_shared_memory_offerer env st = (r, st')"
  obtains order addr where "ktrace st' = ktrace st @ [K_get_free_pages order]"
    and "r = - ENOMEM \<and> inst st' = inst st \<and> meta st' = meta st
      \<or> r = 0 \<and> addr \<noteq> 0 \<and> meta st' = Some (kpage env (ktrace st))
        \<and> inst st' = (inst st)\<lparr>offerer_alloc_order := order, shared_memory := addr\<rparr>"
proof -
  obtain order t where "alloc_order 0 (unat (pages_count (inst st))) = (order, t)" by fastforce
  with assms that [of "if t = 2 ^ (order - 1) then order - 1 else order"] show ?thesis
    by (auto simp: xen_shm_allocate_shared_memory_offerer_def Let_def split_beta upd_inst_def split: if_splits)
qed

lemma undo_grant_run:
  assumes "meta st = Some m" "p \<le> length (grant_refs m)" "shared_memory (inst st) \<noteq> 0"
  shows "undo_grant env p st = Some (st\<lparr>ktrace := ktrace st @ ended_calls (grant_refs m) p 0
      @ [K_free_pages (shared_memory (inst st)) (offerer_alloc_order (inst st))], meta := None\<rparr>)"
  using undo_grants_run [OF assms(1,2), of env] assms(3)
  by (simp add: undo_grant_def xen_shm_free_shared_memory_offerer_def kdo_def)

text \<open>The part of the ioctl after the allocation.\<close>

lemma init_offerer_tail:
  assumes op: "state (inst st) = XEN_SHM_STATE_OPENED"
    and args: "off_pages_count arg \<noteq> 0" "unat (off_pages_count arg) \<le> XEN_SHM_MAX_SHARED_PAGES"
    and alloc: "xen_shm_allocate_shared_memory_offerer env (offerer_entry arg st) = (0, st1)"
    and m: "meta st1 = Some m" "length (grant_refs m) = 128"
  defines "p \<equiv> unat (off_pages_count arg) + 1"
  obtains refs st3 e st4 where "length refs = 128"
    and "\<forall>i < p. refs ! i = granted env (ktrace st1) (inst st1) 0 i"
    and "st3 = st1\<lparr>ktrace := ktrace st1 @ grant_calls (inst st1) 0 p,
      meta := Some ((fresh_header (off_pages_count arg + 1) m)\<lparr>grant_refs := refs\<rparr>),
      inst := (inst st1)\<lparr>first_page_grant := refs ! 0\<rparr>\<rparr>"
    and "xen_shm_open_ec_offerer env st3 = (e, st4)"
    and "xen_shm_ioctl_init_offerer env arg st =
      (let arg' = arg\<lparr>off_grant := refs ! 0, off_local_domid := local_domid (inst st1)\<rparr>
       in if e \<noteq> 0 then do { st \<leftarrow> undo_grant env p st4; Some (e, arg', st) }
          else Some (0, arg', st4\<lparr>inst := (inst st4)\<lparr>state := XEN_SHM_STATE_OFFERER\<rparr>,
            meta := Some ((fresh_header (off_pages_count arg + 1) m)\<lparr>grant_refs := refs,
              offerer_ec_port := local_ec_port (inst st4), offerer_state := XEN_SHM_META_PAGE_STATE_OPENED\<rparr>)\<rparr>))"
proof -
  have pc: "pages_count (inst st1) = off_pages_count arg + 1"
    by (rule allocate_run [OF alloc]) (auto simp: offerer_entry_def)
  have p: "unat (pages_count (inst st1)) = p" "0 < p" "p \<le> 128"
    using pages_plus_one [OF args] args unfolding p_def pc by auto
  let ?m0 = "fresh_header (pages_count (inst st1)) m"
  let ?st2 = "st1\<lparr>meta := Some ?m0\<rparr>"
  obtain refs where run: "grant_pages env 0 ?st2 = Some (None, ?st2\<lparr>
        ktrace := ktrace ?st2 @ grant_calls (inst ?st2) 0 p, meta := Some (?m0\<lparr>grant_refs := refs\<rparr>)\<rparr>)"
    and refs: "length refs = 128" "\<forall>i < p. refs ! i = granted env (ktrace st1) (inst st1) 0 i"
    using grant_pages_run [of ?st2 ?m0 p 0 env] p m(2) by (auto simp: fresh_header_def)
  define st3 where "st3 = st1\<lparr>ktrace := ktrace st1 @ grant_calls (inst st1) 0 p,
      meta := Some (?m0\<lparr>grant_refs := refs\<rparr>), inst := (inst st1)\<lparr>first_page_grant := refs ! 0\<rparr>\<rparr>"
  obtain e st4 where ec: "xen_shm_open_ec_offerer env st3 = (e, st4)" by fastforce
  have fr: "ec_frame (inst st4) = ec_frame (inst st3)" "meta st4 = meta st3"
    using open_ec_frame [of env True st3 e st4] ec by (simp_all add: xen_shm_open_ec_offerer_def)
  have p4: "unat (pages_count (inst st4)) = p"
    using ec_frame_fields(2) [OF fr(1)] p(1) by (simp add: st3_def)
  have call: "xen_shm_ioctl_init_offerer env arg st =
      (let arg' = arg\<lparr>off_grant := refs ! 0, off_local_domid := local_domid (inst st1)\<rparr>
       in if e \<noteq> 0 then do { st \<leftarrow> undo_grant env p st4; Some (e, arg', st) }
          else Some (0, arg', st4\<lparr>inst := (inst st4)\<lparr>state := XEN_SHM_STATE_OFFERER\<rparr>,
            meta := Some (?m0\<lparr>grant_refs := refs,
              offerer_ec_port := local_ec_port (inst st4), offerer_state := XEN_SHM_META_PAGE_STATE_OPENED\<rparr>)\<rparr>))"
    using op args alloc m run refs(1) ec [unfolded st3_def] fr(2) p4 p(2)
    by (simp add: xen_shm_ioctl_init_offerer_def offerer_entry_def [symmetric] Let_def
        upd_meta_def fresh_header_def [symmetric] st3_def split: option.splits)
      (auto simp: upd_inst_def upd_meta_def)
  show ?thesis by (rule that [OF refs st3_def [unfolded pc] ec call [unfolded pc]])
qed

text \<open>The two outcomes of the ioctl: everything is set up, or everything obtained is given back.\<close>

definition offered ::
  "kenv \<Rightarrow> xen_shm_ioctlarg_offerer \<Rightarrow> shm_st \<Rightarrow> xen_shm_ioctlarg_offerer \<Rightarrow> shm_st \<Rightarrow> bool" where
  "offered env arg st arg' st' \<longleftrightarrow> (\<exists>m order ecs p.
     state (inst st) = XEN_SHM_STATE_OPENED \<and> state (inst st') = XEN_SHM_STATE_OFFERER
   \<and> unat (off_pages_count arg) \<in> {1..XEN_SHM_MAX_SHARED_PAGES}
   \<and> p = unat (off_pages_count arg) + 1 \<and> unat (pages_count (inst st')) = p
   \<and> distant_domid (inst st') = resolve_domid (off_dist_domid arg) (inst st)
   \<and> meta st' = Some m \<and> offerer_state m = XEN_SHM_META_PAGE_STATE_OPENED
   \<and> receiver_state m = XEN_SHM_META_PAGE_STATE_NONE \<and> ec_mutex_count m = 1
   \<and> meta_pages_count m = pages_count (inst st') \<and> offerer_ec_port m = local_ec_port (inst st')
   \<and> off_grant arg' = grant_refs m ! 0 \<and> off_local_domid arg' = local_domid (inst st')
   \<and> local_domid (inst st') = local_domid (inst st)
   \<and> ktrace st' = ktrace st @ [K_get_free_pages order] @ grant_calls (inst st') 0 p @ ecs
   \<and> (\<forall>i < p. grant_refs m ! i = granted env (ktrace st @ [K_get_free_pages order]) (inst st') 0 i))"

definition offer_undone :: "kenv \<Rightarrow> shm_st \<Rightarrow> shm_st \<Rightarrow> bool" where
  "offer_undone env st st' \<longleftrightarrow> state (inst st') = state (inst st) \<and>
    (ktrace st' = ktrace st
     \<or> (\<exists>order. ktrace st' = ktrace st @ [K_get_free_pages order])
     \<or> (\<exists>order d ecs refs.
          ktrace st' = ktrace st @ [K_get_free_pages order] @ grant_calls d 0 (length refs) @ ecs
            @ map K_end_access (rev refs) @ [K_free_pages (shared_memory d) order]
        \<and> (\<forall>i < length refs. refs ! i = granted env (ktrace st @ [K_get_free_pages order]) d 0 i)
        \<and> ((\<exists>c. ecs = [c]) \<or> (\<exists>c p. ecs = [c, K_bind_irqhandler p, K_evtchn_close p]))
        \<and> meta st' = None))"

lemma grants_cong:
  assumes "distant_domid d' = distant_domid d" "shared_memory d' = shared_memory d"
  shows "grant_calls d' = grant_calls d" "granted env h d' = granted env h d"
  using assms by (simp_all add: grant_calls_def granted_def fun_eq_iff)

lemma ended_calls_all: "p \<le> length refs \<Longrightarrow> ended_calls refs p 0 = map K_end_access (rev (take p refs))"
  by (simp add: ended_calls_def)

text \<open>The state after the attempt to open the channel: \<open>e\<close> is its result and \<open>ecs\<close> its calls.\<close>

definition offer_pending ::
  "kenv \<Rightarrow> xen_shm_ioctlarg_offerer \<Rightarrow> shm_st \<Rightarrow> nat \<Rightarrow> u32 list \<Rightarrow> kcall list \<Rightarrow> int \<Rightarrow> shm_st \<Rightarrow> bool" where
  "offer_pending env arg st order refs ecs e st4 \<longleftrightarrow>
     state (inst st4) = XEN_SHM_STATE_OPENED \<and> pages_count (inst st4) = off_pages_count arg + 1
   \<and> shared_memory (inst st4) \<noteq> 0 \<and> offerer_alloc_order (inst st4) = order
   \<and> local_domid (inst st4) = local_domid (inst st)
   \<and> distant_domid (inst st4) = resolve_domid (off_dist_domid arg) (inst st)
   \<and> length (map_ops (inst st4)) = 128 \<and> length (unmap_ops (inst st4)) = 128 \<and> length (kmap_ops (inst st4)) = 128
   \<and> length refs = 128
   \<and> meta st4 = Some ((fresh_header (off_pages_count arg + 1) (kpage env (ktrace st)))\<lparr>grant_refs := refs\<rparr>)
   \<and> (\<forall>i < unat (off_pages_count arg) + 1.
        refs ! i = granted env (ktrace st @ [K_get_free_pages order]) (inst st4) 0 i)
   \<and> ktrace st4 = ktrace st @ [K_get_free_pages order]
        @ grant_calls (inst st4) 0 (unat (off_pages_count arg) + 1) @ ecs
   \<and> (e = 0 \<or> e = - EIO \<and> ((\<exists>c. ecs = [c]) \<or> (\<exists>c p. ecs = [c, K_bind_irqhandler p, K_evtchn_close p])))"

lemma init_offerer_pending:
  assumes inv: "shm_inv st" and env: "env_pages env" and op: "state (inst st) = XEN_SHM_STATE_OPENED"
    and args: "off_pages_count arg \<noteq> 0" "unat (off_pages_count arg) \<le> XEN_SHM_MAX_SHARED_PAGES"
    and alloc: "xen_shm_allocate_shared_memory_offerer env (offerer_entry arg st) = (0, st1)"
  obtains order refs ecs e st4 where "offer_pending env arg st order refs ecs e st4"
    and "xen_shm_ioctl_init_offerer env arg st =
      (let arg' = arg\<lparr>off_grant := refs ! 0, off_local_domid := local_domid (inst st)\<rparr>
       in if e \<noteq> 0 then do { st \<leftarrow> undo_grant env (unat (off_pages_count arg) + 1) st4; Some (e, arg', st) }
          else Some (0, arg', st4\<lparr>inst := (inst st4)\<lparr>state := XEN_SHM_STATE_OFFERER\<rparr>,
            meta := Some ((fresh_header (off_pages_count arg + 1) (kpage env (ktrace st)))\<lparr>grant_refs := refs,
              offerer_ec_port := local_ec_port (inst st4), offerer_state := XEN_SHM_META_PAGE_STATE_OPENED\<rparr>)\<rparr>))"
proof -
  let ?p = "unat (off_pages_count arg) + 1"
  obtain order addr where tr1: "ktrace st1 = ktrace st @ [K_get_free_pages order]" and addr: "addr \<noteq> 0"
    and m: "meta st1 = Some (kpage env (ktrace st))"
    and d1: "inst st1 = (inst (offerer_entry arg st))\<lparr>offerer_alloc_order := order, shared_memory := addr\<rparr>"
    by (rule allocate_run [OF alloc]) (auto simp: offerer_entry_def)
  obtain refs st3 e st4 where refs: "length refs = 128"
      "\<forall>i < ?p. refs ! i = granted env (ktrace st1) (inst st1) 0 i"
    and st3: "st3 = st1\<lparr>ktrace := ktrace st1 @ grant_calls (inst st1) 0 ?p,
      meta := Some ((fresh_header (off_pages_count arg + 1) (kpage env (ktrace st)))\<lparr>grant_refs := refs\<rparr>),
      inst := (inst st1)\<lparr>first_page_grant := refs ! 0\<rparr>\<rparr>"
    and ec: "xen_shm_open_ec_offerer env st3 = (e, st4)"
    and call: "xen_shm_ioctl_init_offerer env arg st =
      (let arg' = arg\<lparr>off_grant := refs ! 0, off_local_domid := local_domid (inst st1)\<rparr>
       in if e \<noteq> 0 then do { st \<leftarrow> undo_grant env ?p st4; Some (e, arg', st) }
          else Some (0, arg', st4\<lparr>inst := (inst st4)\<lparr>state := XEN_SHM_STATE_OFFERER\<rparr>,
            meta := Some ((fresh_header (off_pages_count arg + 1) (kpage env (ktrace st)))\<lparr>grant_refs := refs,
              offerer_ec_port := local_ec_port (inst st4), offerer_state := XEN_SHM_META_PAGE_STATE_OPENED\<rparr>)\<rparr>))"
    by (rule init_offerer_tail [OF op args alloc m]) (use env in \<open>simp add: env_pages_def\<close>)
  note ec' = ec [unfolded xen_shm_open_ec_offerer_def]
  note fr = open_ec_frame [OF ec']
  note f = ec_frame_fields [OF fr(1)]
  obtain ecs where ecs: "ktrace st4 = ktrace st3 @ ecs"
    "e \<noteq> 0 \<Longrightarrow> (\<exists>c. ecs = [c]) \<or> (\<exists>c p. ecs = [c, K_bind_irqhandler p, K_evtchn_close p])"
    by (rule open_ec_trace [OF ec']) blast
  have dom: "distant_domid (inst st4) = distant_domid (inst st1)" "shared_memory (inst st4) = shared_memory (inst st1)"
    using f by (simp_all add: st3)
  have "local_domid (inst st1) = local_domid (inst st)" using d1 by (simp add: offerer_entry_def)
  moreover have "offer_pending env arg st order refs ecs e st4"
    unfolding offer_pending_def grants_cong [OF dom]
    using f d1 inv op addr refs fr(2,4) ecs tr1 by (auto simp: st3 offerer_entry_def shm_inv_def)
  ultimately show ?thesis using that call by auto
qed

lemma offer_success:
  assumes args: "off_pages_count arg \<noteq> 0" "unat (off_pages_count arg) \<le> XEN_SHM_MAX_SHARED_PAGES"
    and op: "state (inst st) = XEN_SHM_STATE_OPENED" and pend: "offer_pending env arg st order refs ecs 0 st4"
  defines "st' \<equiv> st4\<lparr>inst := (inst st4)\<lparr>state := XEN_SHM_STATE_OFFERER\<rparr>,
      meta := Some ((fresh_header (off_pages_count arg + 1) (kpage env (ktrace st)))\<lparr>grant_refs := refs,
        offerer_ec_port := local_ec_port (inst st4), offerer_state := XEN_SHM_META_PAGE_STATE_OPENED\<rparr>)\<rparr>"
  shows "offered env arg st (arg\<lparr>off_grant := refs ! 0, off_local_domid := local_domid (inst st)\<rparr>) st'" "shm_inv st'"
proof -
  let ?p = "unat (off_pages_count arg) + 1"
  note p = pages_plus_one [OF args]
  have dom: "distant_domid (inst st') = distant_domid (inst st4)" "shared_memory (inst st') = shared_memory (inst st4)"
    by (simp_all add: st'_def)
  show "offered env arg st (arg\<lparr>off_grant := refs ! 0, off_local_domid := local_domid (inst st)\<rparr>) st'"
    unfolding offered_def grants_cong [OF dom]
    by (rule exI [of _ "the (meta st')"], rule exI [of _ order], rule exI [of _ ecs], rule exI [of _ ?p])
      (use p args op pend in \<open>simp add: st'_def fresh_header_def offer_pending_def\<close>)
  show "shm_inv st'"
    using p pend by (simp add: st'_def shm_inv_def fresh_header_def offer_pending_def)
qed

lemma offer_failure:
  assumes args: "off_pages_count arg \<noteq> 0" "unat (off_pages_count arg) \<le> XEN_SHM_MAX_SHARED_PAGES"
    and op: "state (inst st) = XEN_SHM_STATE_OPENED" and pend: "offer_pending env arg st order refs ecs e st4"
    and e: "e \<noteq> 0"
  shows "\<exists>st'. undo_grant env (unat (off_pages_count arg) + 1) st4 = Some st' \<and> shm_inv st' \<and> offer_undone env st st'"
proof -
  let ?p = "unat (off_pages_count arg) + 1"
  define st' where "st' = st4\<lparr>ktrace := ktrace st4 @ ended_calls refs ?p 0
    @ [K_free_pages (shared_memory (inst st4)) order], meta := None\<rparr>"
  have p: "?p \<le> length refs" using pend args(2) by (simp add: offer_pending_def)
  have "undo_grant env ?p st4 = Some st'"
    using undo_grant_run [of st4 "(fresh_header (off_pages_count arg + 1) (kpage env (ktrace st)))\<lparr>grant_refs := refs\<rparr>"
        ?p env] pend p by (simp add: offer_pending_def st'_def)
  moreover have "shm_inv st'" using pend by (simp add: shm_inv_def st'_def offer_pending_def)
  moreover have "ktrace st' = ktrace st @ [K_get_free_pages order] @ grant_calls (inst st4) 0 (length (take ?p refs)) @ ecs
      @ map K_end_access (rev (take ?p refs)) @ [K_free_pages (shared_memory (inst st4)) order]"
    using pend p ended_calls_all [OF p] by (simp add: st'_def offer_pending_def)
  moreover have "\<forall>i < length (take ?p refs).
      take ?p refs ! i = granted env (ktrace st @ [K_get_free_pages order]) (inst st4) 0 i"
    using pend p by (simp add: offer_pending_def)
  moreover have "(\<exists>c. ecs = [c]) \<or> (\<exists>c p. ecs = [c, K_bind_irqhandler p, K_evtchn_close p])"
    using pend e by (simp add: offer_pending_def)
  moreover have "state (inst st') = state (inst st)" "meta st' = None"
    using pend op by (simp_all add: offer_pending_def st'_def)
  ultimately show ?thesis unfolding offer_undone_def by blast
qed

lemma init_offerer_run:
  assumes inv: "shm_inv st" and env: "env_pages env"
  shows "\<exists>r arg' st'. xen_shm_ioctl_init_offerer env arg st = Some (r, arg', st') \<and> shm_inv st'
    \<and> (r = 0 \<and> offered env arg st arg' st' \<or> r < 0 \<and> offer_undone env st st')"
proof (cases "state (inst st) = XEN_SHM_STATE_OPENED \<and> off_pages_count arg \<noteq> 0
    \<and> unat (off_pages_count arg) \<le> XEN_SHM_MAX_SHARED_PAGES")
  case True
  then have op: "state (inst st) = XEN_SHM_STATE_OPENED"
    and args: "off_pages_count arg \<noteq> 0" "unat (off_pages_count arg) \<le> XEN_SHM_MAX_SHARED_PAGES" by auto
  obtain r st1 where alloc: "xen_shm_allocate_shared_memory_offerer env (offerer_entry arg st) = (r, st1)" by fastforce
  obtain order addr where tr: "ktrace st1 = ktrace st @ [K_get_free_pages order]"
    and r: "r = - ENOMEM \<and> inst st1 = inst (offerer_entry arg st) \<or> r = 0"
    by (rule allocate_run [OF alloc]) (auto simp: offerer_entry_def)
  show ?thesis
  proof (cases "r = 0")
    case False
    then have "xen_shm_ioctl_init_offerer env arg st = Some (- ENOMEM, arg, st1)"
      using alloc r op args by (simp add: xen_shm_ioctl_init_offerer_def offerer_entry_def)
    moreover have "shm_inv st1 \<and> offer_undone env st st1"
      using r False tr inv op by (auto simp: shm_inv_def offer_undone_def offerer_entry_def)
    ultimately show ?thesis by simp
  next
    case True
    with init_offerer_pending [OF inv env op args, of st1] alloc obtain order refs ecs e st4 where
      pend: "offer_pending env arg st order refs ecs e st4" and call: "xen_shm_ioctl_init_offerer env arg st =
      (let arg' = arg\<lparr>off_grant := refs ! 0, off_local_domid := local_domid (inst st)\<rparr>
       in if e \<noteq> 0 then do { st \<leftarrow> undo_grant env (unat (off_pages_count arg) + 1) st4; Some (e, arg', st) }
          else Some (0, arg', st4\<lparr>inst := (inst st4)\<lparr>state := XEN_SHM_STATE_OFFERER\<rparr>,
            meta := Some ((fresh_header (off_pages_count arg + 1) (kpage env (ktrace st)))\<lparr>grant_refs := refs,
              offerer_ec_port := local_ec_port (inst st4), offerer_state := XEN_SHM_META_PAGE_STATE_OPENED\<rparr>)\<rparr>))"
      by blast
    have e: "e = 0 \<or> e = - EIO" using pend by (auto simp: offer_pending_def)
    show ?thesis
    proof (cases "e = 0")
      case True
      with pend offer_success [OF args op] call show ?thesis by auto
    next
      case False
      with offer_failure [OF args op pend] e call show ?thesis by auto
    qed
  qed
next
  case False
  then have "\<exists>r. xen_shm_ioctl_init_offerer env arg st = Some (r, arg, st) \<and> r < 0"
    by (auto simp: xen_shm_ioctl_init_offerer_def)
  with inv show ?thesis by (auto simp: offer_undone_def)
qed

section \<open>Receiving\<close>

definition joined :: "kenv \<Rightarrow> xen_shm_ioctlarg_receiver \<Rightarrow> shm_st \<Rightarrow> shm_st \<Rightarrow> bool" where
  "joined env arg st st' \<longleftrightarrow> (\<exists>m addr dom.
     state (inst st) = XEN_SHM_STATE_OPENED \<and> state (inst st') = XEN_SHM_STATE_RECEIVER
   \<and> unat (rcv_pages_count arg) \<in> {1..XEN_SHM_MAX_SHARED_PAGES}
   \<and> unat (pages_count (inst st')) = unat (rcv_pages_count arg) + 1
   \<and> m = kpage env (ktrace st @ [K_alloc_vm_area PAGE_SIZE])
   \<and> meta st' = Some (m\<lparr>receiver_state := XEN_SHM_META_PAGE_STATE_OPENED\<rparr>)
   \<and> meta_pages_count m = pages_count (inst st')
   \<and> shared_memory (inst st') = addr \<and> addr \<noteq> 0 \<and> dist_ec_port (inst st') = offerer_ec_port m
   \<and> dom = resolve_domid (rcv_dist_domid arg) (inst st) \<and> distant_domid (inst st') = dom
   \<and> ktrace st' = ktrace st @ [K_alloc_vm_area PAGE_SIZE, K_map_grant addr (rcv_grant arg) dom,
        K_evtchn_bind_interdomain dom (offerer_ec_port m), K_bind_irqhandler (local_ec_port (inst st')),
        K_notify_remote (local_ec_port (inst st'))])"

definition join_undone :: "shm_st \<Rightarrow> shm_st \<Rightarrow> bool" where
  "join_undone st st' \<longleftrightarrow> state (inst st') = state (inst st) \<and>
    (ktrace st' = ktrace st
     \<or> ktrace st' = ktrace st @ [K_alloc_vm_area PAGE_SIZE]
     \<or> (\<exists>addr ref d. ktrace st' = ktrace st @ [K_alloc_vm_area PAGE_SIZE, K_map_grant addr ref d, K_free_vm_area addr])
     \<or> (\<exists>addr ref d ecs h. ktrace st' = ktrace st @ [K_alloc_vm_area PAGE_SIZE, K_map_grant addr ref d] @ ecs
            @ [K_unmap_grant addr h, K_free_vm_area addr]
          \<and> (ecs = [] \<or> (\<exists>c. ecs = [c]) \<or> (\<exists>c p. ecs = [c, K_bind_irqhandler p, K_evtchn_close p]))))"

lemma undo_map_run:
  assumes "unmapped_area (inst st) = Some addr"
  shows "inst (undo_map env addr st) = inst st" "meta (undo_map env addr st) = None"
    "ktrace (undo_map env addr st) = ktrace st @ [K_unmap_grant addr (grant_map_handle0 (inst st)), K_free_vm_area addr]"
  using assms by (simp_all add: undo_map_def unmap_header_def xen_shm_free_shared_memory_receiver_def Let_def split_beta)

text \<open>The instance with the header page mapped at \<open>addr\<close>, before the channel is opened.\<close>

definition receiver_mapped :: "kenv \<Rightarrow> xen_shm_ioctlarg_receiver \<Rightarrow> shm_st \<Rightarrow> nat \<Rightarrow> u32 \<Rightarrow> shm_st" where
  "receiver_mapped env arg st addr h =
    (let t = ktrace st @ [K_alloc_vm_area PAGE_SIZE]
     in st\<lparr>ktrace := t @ [K_map_grant addr (rcv_grant arg) (resolve_domid (rcv_dist_domid arg) (inst st))],
          inst := (inst st)\<lparr>distant_domid := resolve_domid (rcv_dist_domid arg) (inst st),
            first_page_grant := rcv_grant arg, pages_count := rcv_pages_count arg + 1,
            unmapped_area := Some addr, shared_memory := addr, grant_map_handle0 := h\<rparr>,
          meta := Some (kpage env t)\<rparr>)"

definition receiver_tail :: "kenv \<Rightarrow> nat \<Rightarrow> shm_st \<Rightarrow> (int \<times> shm_st) option" where
  "receiver_tail env addr st =
    do {
      m \<leftarrow> meta st;
      if pages_count (inst st) \<noteq> meta_pages_count m
      then Some (- EINVAL, undo_map env addr st)
      else do {
        (error, st) \<leftarrow> xen_shm_open_ec_receiver env st;
        if error \<noteq> 0 then Some (error, undo_map env addr st)
        else do {
          let st = upd_inst (\<lambda>d. d\<lparr>state := XEN_SHM_STATE_RECEIVER\<rparr>) st;
          st \<leftarrow> upd_meta (\<lambda>m. m\<lparr>receiver_state := XEN_SHM_META_PAGE_STATE_OPENED\<rparr>) st;
          let st = snd (kdo env (K_notify_remote (local_ec_port (inst st))) st);
          Some (0, st)
        }
      }
    }"

lemma init_receiver_cases:
  assumes op: "state (inst st) = XEN_SHM_STATE_OPENED"
    and args: "rcv_pages_count arg \<noteq> 0" "unat (rcv_pages_count arg) \<le> XEN_SHM_MAX_SHARED_PAGES"
  obtains (early) r st' where "xen_shm_ioctl_init_receiver env arg st = Some (r, st')" "r < 0"
      "join_undone st st'" "map_ops (inst st') = map_ops (inst st)" "unmap_ops (inst st') = unmap_ops (inst st)"
      "kmap_ops (inst st') = kmap_ops (inst st)" "state (inst st') = XEN_SHM_STATE_OPENED"
  | (mapped) addr h where "addr \<noteq> 0"
      "xen_shm_ioctl_init_receiver env arg st = receiver_tail env addr (receiver_mapped env arg st addr h)"
proof -
  let ?t = "ktrace st @ [K_alloc_vm_area PAGE_SIZE]"
  let ?addr = "k_val (kanswer env (ktrace st) (K_alloc_vm_area PAGE_SIZE))"
  let ?c = "K_map_grant ?addr (rcv_grant arg) (resolve_domid (rcv_dist_domid arg) (inst st))"
  let ?b = "kanswer env ?t ?c"
  consider "?addr = 0" | "?addr \<noteq> 0" "k_ret ?b \<noteq> 0 \<or> k_status ?b < 0" | "?addr \<noteq> 0" "k_ret ?b = 0" "0 \<le> k_status ?b"
    by linarith
  then show thesis
  proof cases
    case 3
    have "xen_shm_ioctl_init_receiver env arg st
        = receiver_tail env ?addr (receiver_mapped env arg st ?addr (of_nat (k_val ?b)))"
      using 3 op args
      by (simp add: xen_shm_ioctl_init_receiver_def receiver_tail_def receiver_mapped_def Let_def split_beta
          upd_inst_def kdo_def)
    with 3(1) show thesis by (rule mapped)
  next
    case 2
    let ?P = "\<lambda>r st'. r < 0 \<and> join_undone st st' \<and> map_ops (inst st') = map_ops (inst st)
      \<and> unmap_ops (inst st') = unmap_ops (inst st) \<and> kmap_ops (inst st') = kmap_ops (inst st)
      \<and> state (inst st') = XEN_SHM_STATE_OPENED"
    obtain r st' where "xen_shm_ioctl_init_receiver env arg st = Some (r, st')" "?P r st'"
      using 2 op args
      by (cases "k_ret ?b = 0") (simp_all add: xen_shm_ioctl_init_receiver_def Let_def split_beta join_undone_def
        xen_shm_free_shared_memory_receiver_def)
    then show thesis using early by blast
  next
    case 1
    let ?P = "\<lambda>r st'. r < 0 \<and> join_undone st st' \<and> map_ops (inst st') = map_ops (inst st)
      \<and> unmap_ops (inst st') = unmap_ops (inst st) \<and> kmap_ops (inst st') = kmap_ops (inst st)
      \<and> state (inst st') = XEN_SHM_STATE_OPENED"
    obtain r st' where "xen_shm_ioctl_init_receiver env arg st = Some (r, st')" "?P r st'"
      using 1 op args by (simp add: xen_shm_ioctl_init_receiver_def Let_def split_beta join_undone_def)
    then show thesis using early by blast
  qed
qed

text \<open>The instance while the channel is opened: the header page is \<open>m\<close>, mapped at \<open>addr\<close>.\<close>

definition join_pending :: "xen_shm_ioctlarg_receiver \<Rightarrow> shm_st \<Rightarrow> nat \<Rightarrow> xen_shm_meta_page_data \<Rightarrow> shm_st \<Rightarrow> bool" where
  "join_pending arg st addr m st1 \<longleftrightarrow>
     unmapped_area (inst st1) = Some addr \<and> shared_memory (inst st1) = addr \<and> addr \<noteq> 0
   \<and> meta st1 = Some m \<and> length (grant_refs m) = 128
   \<and> pages_count (inst st1) = rcv_pages_count arg + 1 \<and> state (inst st1) = XEN_SHM_STATE_OPENED
   \<and> distant_domid (inst st1) = resolve_domid (rcv_dist_domid arg) (inst st)
   \<and> length (map_ops (inst st1)) = 128 \<and> length (unmap_ops (inst st1)) = 128 \<and> length (kmap_ops (inst st1)) = 128
   \<and> (\<exists>ecs. ktrace st1 = ktrace st @ [K_alloc_vm_area PAGE_SIZE,
        K_map_grant addr (rcv_grant arg) (resolve_domid (rcv_dist_domid arg) (inst st))] @ ecs
      \<and> (ecs = [] \<or> (\<exists>c. ecs = [c]) \<or> (\<exists>c p. ecs = [c, K_bind_irqhandler p, K_evtchn_close p])
        \<or> ecs = [K_evtchn_bind_interdomain (distant_domid (inst st1)) (dist_ec_port (inst st1)),
             K_bind_irqhandler (local_ec_port (inst st1))]))"

lemma open_ec_receiver_trace:
  assumes "xen_shm_open_ec env False st = (r, st')"
  shows "dist_ec_port (inst st') = dist_ec_port (inst st)"
    "r = 0 \<Longrightarrow> ktrace st' = ktrace st @ [K_evtchn_bind_interdomain (distant_domid (inst st)) (dist_ec_port (inst st)),
       K_bind_irqhandler (local_ec_port (inst st'))]"
    "r \<noteq> 0 \<Longrightarrow> \<exists>ecs. ktrace st' = ktrace st @ ecs
       \<and> ((\<exists>c. ecs = [c]) \<or> (\<exists>c p. ecs = [c, K_bind_irqhandler p, K_evtchn_close p]))"
  using assms by (auto simp: xen_shm_open_ec_def Let_def split_beta split: if_splits)

lemma join_abandoned:
  assumes pend: "join_pending arg st addr m st1" and op: "state (inst st) = XEN_SHM_STATE_OPENED"
    and tr: "ktrace st1 = ktrace st @ [K_alloc_vm_area PAGE_SIZE,
        K_map_grant addr (rcv_grant arg) (resolve_domid (rcv_dist_domid arg) (inst st))] @ ecs"
    and ecs: "ecs = [] \<or> (\<exists>c. ecs = [c]) \<or> (\<exists>c p. ecs = [c, K_bind_irqhandler p, K_evtchn_close p])"
  shows "shm_inv (undo_map env addr st1)" "join_undone st (undo_map env addr st1)"
proof -
  have ua: "unmapped_area (inst st1) = Some addr" using pend by (simp add: join_pending_def)
  show "shm_inv (undo_map env addr st1)"
    using pend by (simp add: undo_map_run [OF ua] shm_inv_def join_pending_def)
  have "ktrace (undo_map env addr st1) = ktrace st @ [K_alloc_vm_area PAGE_SIZE,
      K_map_grant addr (rcv_grant arg) (resolve_domid (rcv_dist_domid arg) (inst st))] @ ecs
      @ [K_unmap_grant addr (grant_map_handle0 (inst st1)), K_free_vm_area addr]"
    by (simp add: undo_map_run [OF ua] tr)
  with ecs show "join_undone st (undo_map env addr st1)"
    unfolding join_undone_def using pend op by (simp add: undo_map_run [OF ua] join_pending_def)
qed

lemma join_completed:
  assumes args: "rcv_pages_count arg \<noteq> 0" "unat (rcv_pages_count arg) \<le> XEN_SHM_MAX_SHARED_PAGES"
    and op: "state (inst st) = XEN_SHM_STATE_OPENED" and pend: "join_pending arg st addr m st3"
    and m: "m = kpage env (ktrace st @ [K_alloc_vm_area PAGE_SIZE])"
    and pc: "pages_count (inst st3) = meta_pages_count m" and dp: "dist_ec_port (inst st3) = offerer_ec_port m"
    and tr: "ktrace st3 = ktrace st @ [K_alloc_vm_area PAGE_SIZE,
        K_map_grant addr (rcv_grant arg) (resolve_domid (rcv_dist_domid arg) (inst st)),
        K_evtchn_bind_interdomain (resolve_domid (rcv_dist_domid arg) (inst st)) (offerer_ec_port m),
        K_bind_irqhandler (local_ec_port (inst st3))]"
  defines "st' \<equiv> (upd_inst (\<lambda>d. d\<lparr>state := XEN_SHM_STATE_RECEIVER\<rparr>) st3)\<lparr>
        meta := Some (m\<lparr>receiver_state := XEN_SHM_META_PAGE_STATE_OPENED\<rparr>),
        ktrace := ktrace st3 @ [K_notify_remote (local_ec_port (inst st3))]\<rparr>"
  shows "shm_inv st'" "joined env arg st st'"
proof -
  note p = pages_plus_one [OF args]
  show "shm_inv st'" using pend p by (simp add: st'_def shm_inv_def join_pending_def)
  have facts: "pages_count (inst st3) = rcv_pages_count arg + 1" "shared_memory (inst st3) = addr" "addr \<noteq> 0"
      "distant_domid (inst st3) = resolve_domid (rcv_dist_domid arg) (inst st)"
    using pend by (simp_all add: join_pending_def)
  have "1 \<le> unat (rcv_pages_count arg)" using args(1) by (simp add: unat_gt_0 Suc_le_eq)
  then show "joined env arg st st'"
    unfolding joined_def using facts p pc dp tr op args(2) m by (simp add: st'_def)
qed

lemma receiver_tail_run:
  assumes inv: "shm_inv st" and env: "env_pages env" and op: "state (inst st) = XEN_SHM_STATE_OPENED"
    and args: "rcv_pages_count arg \<noteq> 0" "unat (rcv_pages_count arg) \<le> XEN_SHM_MAX_SHARED_PAGES"
    and addr: "addr \<noteq> 0"
  shows "\<exists>r st'. receiver_tail env addr (receiver_mapped env arg st addr h) = Some (r, st') \<and> shm_inv st'
    \<and> (r = 0 \<and> joined env arg st st' \<or> r < 0 \<and> join_undone st st')"
proof -
  let ?m = "kpage env (ktrace st @ [K_alloc_vm_area PAGE_SIZE])"
  define st1 where "st1 = receiver_mapped env arg st addr h"
  have tr1: "ktrace st1 = ktrace st @ [K_alloc_vm_area PAGE_SIZE,
      K_map_grant addr (rcv_grant arg) (resolve_domid (rcv_dist_domid arg) (inst st))]"
    and pend1: "join_pending arg st addr ?m st1" and dom1: "distant_domid (inst st1) = resolve_domid (rcv_dist_domid arg) (inst st)"
    using inv op env addr by (simp_all add: st1_def receiver_mapped_def Let_def shm_inv_def join_pending_def env_pages_def)
  define st2 where "st2 = upd_inst (\<lambda>d. d\<lparr>dist_ec_port := offerer_ec_port ?m\<rparr>) st1"
  obtain e st3 where ec: "xen_shm_open_ec env False st2 = (e, st3)" by fastforce
  note fr = open_ec_frame [OF ec] note tr3 = open_ec_receiver_trace [OF ec]
  have dp: "dist_ec_port (inst st3) = offerer_ec_port ?m" using tr3(1) by (simp add: st2_def)
  have "\<exists>ecs. ktrace st3 = ktrace st1 @ ecs
      \<and> (ecs = [] \<or> (\<exists>c. ecs = [c]) \<or> (\<exists>c p. ecs = [c, K_bind_irqhandler p, K_evtchn_close p])
        \<or> ecs = [K_evtchn_bind_interdomain (distant_domid (inst st3)) (dist_ec_port (inst st3)),
             K_bind_irqhandler (local_ec_port (inst st3))])"
    using tr3 ec_frame_fields(10) [OF fr(1)] by (cases "e = 0") (auto simp: st2_def)
  then have pend3: "join_pending arg st addr ?m st3"
    using pend1 ec_frame_fields [OF fr(1)] fr(2) tr1 by (auto simp: st2_def join_pending_def)
  have run: "receiver_tail env addr st1 = (if pages_count (inst st1) \<noteq> meta_pages_count ?m
      then Some (- EINVAL, undo_map env addr st1)
      else if e \<noteq> 0 then Some (e, undo_map env addr st3)
      else Some (0, (upd_inst (\<lambda>d. d\<lparr>state := XEN_SHM_STATE_RECEIVER\<rparr>) st3)\<lparr>
        meta := Some (?m\<lparr>receiver_state := XEN_SHM_META_PAGE_STATE_OPENED\<rparr>),
        ktrace := ktrace st3 @ [K_notify_remote (local_ec_port (inst st3))]\<rparr>))"
    using pend1 pend3 ec
    by (simp add: receiver_tail_def xen_shm_open_ec_receiver_def join_pending_def flip: st2_def)
      (simp add: upd_meta_def kdo_def)
  consider "pages_count (inst st1) \<noteq> meta_pages_count ?m" | "pages_count (inst st1) = meta_pages_count ?m" "e \<noteq> 0"
    | "pages_count (inst st1) = meta_pages_count ?m" "e = 0" by blast
  then show ?thesis
  proof cases
    case 1
    then show ?thesis
      using run join_abandoned [OF pend1 op, of "[]" env] tr1 by (simp add: st1_def)
  next
    case 2
    then obtain ecs where "ktrace st3 = ktrace st1 @ ecs"
      "(\<exists>c. ecs = [c]) \<or> (\<exists>c p. ecs = [c, K_bind_irqhandler p, K_evtchn_close p])"
      using tr3(3) by (auto simp: st2_def)
    with 2 show ?thesis
      using run join_abandoned [OF pend3 op, of ecs env] tr1 fr(4) by (auto simp: st1_def)
  next
    case 3
    have "pages_count (inst st3) = meta_pages_count ?m"
      using 3 pend1 pend3 by (simp add: join_pending_def)
    note join_completed [OF args op pend3 refl this dp]
    with 3 show ?thesis using run tr3(2) tr1 dom1 by (simp add: st1_def st2_def)
  qed
qed

lemma init_receiver_run:
  assumes inv: "shm_inv st" and env: "env_pages env"
  shows "\<exists>r st'. xen_shm_ioctl_init_receiver env arg st = Some (r, st') \<and> shm_inv st'
    \<and> (r = 0 \<and> joined env arg st st' \<or> r < 0 \<and> join_undone st st')"
proof (cases "state (inst st) = XEN_SHM_STATE_OPENED \<and> rcv_pages_count arg \<noteq> 0
    \<and> unat (rcv_pages_count arg) \<le> XEN_SHM_MAX_SHARED_PAGES")
  case True
  then have op: "state (inst st) = XEN_SHM_STATE_OPENED"
    and args: "rcv_pages_count arg \<noteq> 0" "unat (rcv_pages_count arg) \<le> XEN_SHM_MAX_SHARED_PAGES" by auto
  show ?thesis
  proof (rule init_receiver_cases [OF op args, of env], goal_cases)
    case (1 r st')
    then show ?case using inv by (auto simp: shm_inv_def)
  next
    case (2 addr h)
    then show ?case using receiver_tail_run [OF inv env op args] by simp
  qed
next
  case False
  then have "\<exists>r. xen_shm_ioctl_init_receiver env arg st = Some (r, st) \<and> r < 0"
    by (auto simp: xen_shm_ioctl_init_receiver_def)
  with inv show ?thesis by (auto simp: join_undone_def)
qed

section \<open>Properties\<close>


lemma small_shm_inv: "shm_inv (small_shm XEN_SHM_STATE_OPENED)" "env_pages small_kenv"
  by (simp_all add: shm_inv_def small_shm_def small_inst_def env_pages_def small_kenv_def small_meta_def)




end
