(* ===== verification/Shm_Wait.thy ===== *)
theory Shm_Wait
  imports Shm_Ioctl Pipe_Types "HOL-Library.Signed_Division"
begin

text \<open>
  The helpers of the ioctls by which an instance waits for a signal of its peer and sends one.
\<close>

section \<open>Definitions\<close>

subsection \<open>Waiting\<close>

definition xen_shm_is_broken_pipe :: "xen_shm_meta_page_data \<Rightarrow> bool" where
  "xen_shm_is_broken_pipe m \<longleftrightarrow> offerer_state m = XEN_SHM_META_PAGE_STATE_CLOSED
     \<or> receiver_state m = XEN_SHM_META_PAGE_STATE_CLOSED"

text \<open>
  What happens while a process sleeps on the wait queue: an interrupt of the event channel, a
  write of the peer to the header page followed by a wake-up, and a signal to the process; each
  after some number of jiffies.  \<open>wait_event\<close> is \<^verbatim>\<open>wait_event_interruptible\<close>, or
  \<^verbatim>\<open>wait_event_interruptible_timeout\<close> when a time is given: the condition is tested first and after
  every event; the result is 0 or the remaining time, 0 when the time has run out, and
  \<^verbatim>\<open>-ERESTARTSYS\<close> on a signal.  It is \<open>None\<close> when the process still sleeps after all the events.
\<close>

datatype wait_ev = Ev_irq | Ev_peer "xen_shm_meta_page_data \<Rightarrow> xen_shm_meta_page_data" | Ev_signal

fun wait_event ::
  "kenv \<Rightarrow> (shm_st \<Rightarrow> bool) \<Rightarrow> nat option \<Rightarrow> (nat \<times> wait_ev) list \<Rightarrow> shm_st \<Rightarrow> (int \<times> shm_st) option" where
  "wait_event env c left [] st =
    (if c st then Some (case left of None \<Rightarrow> 0 | Some j \<Rightarrow> int j, st) else None)"
| "wait_event env c left ((dt, e) # evs) st =
    (if c st then Some (case left of None \<Rightarrow> 0 | Some j \<Rightarrow> int j, st)
     else if (case left of None \<Rightarrow> False | Some j \<Rightarrow> j \<le> dt) then Some (0, st)
     else
       let left = map_option (\<lambda>j. j - dt) left
       in case e of
            Ev_irq \<Rightarrow> wait_event env c left evs (xen_shm_event_handler env st)
          | Ev_peer f \<Rightarrow> wait_event env c left evs (st\<lparr>meta := map_option f (meta st)\<rparr>)
          | Ev_signal \<Rightarrow> Some (- ERESTARTSYS, st))"

definition await_cond :: "u8 \<Rightarrow> shm_st \<Rightarrow> bool" where
  "await_cond flags st \<longleftrightarrow>
     (flag_set flags XEN_SHM_IOCTL_AWAIT_USER \<and> user_signal (inst st) \<noteq> 0)
   \<or> (flag_set flags XEN_SHM_IOCTL_AWAIT_INIT \<and> initial_signal (inst st) \<noteq> 0)
   \<or> (flag_set flags XEN_SHM_IOCTL_AWAIT_LATENT_USER \<and> latent_user_signal (inst st) \<noteq> 0)
   \<or> (case meta st of None \<Rightarrow> False | Some m \<Rightarrow> xen_shm_is_broken_pipe m)"

text \<open>A \<^verbatim>\<open>long\<close> assigned to an \<^verbatim>\<open>int\<close> keeps its low 32 bits, and the kernel is compiled so that \<^verbatim>\<open>int\<close>
  arithmetic wraps.\<close>

definition to_int32 :: "int \<Rightarrow> int" where
  "to_int32 i = sint (of_int i :: u32)"

definition await_jiffies :: "kenv \<Rightarrow> u64 \<Rightarrow> u64" where
  "await_jiffies env timeout =
    (let j = timeout * of_nat (hz env) div 1000 in if j = 0 then 1 else j)"

definition await_remaining :: "kenv \<Rightarrow> u64 \<Rightarrow> int \<Rightarrow> u64" where
  "await_remaining env timeout retval =
    (if of_int retval = await_jiffies env timeout then timeout
     else of_int (to_int32 (retval * 1000) sdiv int (hz env)))"

definition inc_mutex :: "shm_st \<Rightarrow> shm_st option" where
  "inc_mutex st = upd_meta (\<lambda>m. m\<lparr>ec_mutex_count := ec_mutex_count m + 1\<rparr>) st"

definition dec_and_test_mutex :: "shm_st \<Rightarrow> (bool \<times> shm_st) option" where
  "dec_and_test_mutex st =
    do {
      st \<leftarrow> upd_meta (\<lambda>m. m\<lparr>ec_mutex_count := ec_mutex_count m - 1\<rparr>) st;
      m \<leftarrow> meta st;
      Some (ec_mutex_count m = 0, st)
    }"

definition unlock_and_return ::
  "bool \<Rightarrow> int \<Rightarrow> xen_shm_ioctlarg_await \<Rightarrow> shm_st \<Rightarrow> (int \<times> xen_shm_ioctlarg_await \<times> shm_st) option" where
  "unlock_and_return mutex_flag retval arg st =
    do {
      st \<leftarrow> (if mutex_flag then inc_mutex st else Some st);
      Some (retval, arg, st)
    }"

definition xen_shm_ioctl_await ::
  "kenv \<Rightarrow> (nat \<times> wait_ev) list \<Rightarrow> xen_shm_ioctlarg_await \<Rightarrow> shm_st
    \<Rightarrow> (int \<times> xen_shm_ioctlarg_await \<times> shm_st) option" where
  "xen_shm_ioctl_await env evs arg st =
    (let flags = request_flags arg;
         mutex_flag = flag_set flags XEN_SHM_IOCTL_AWAIT_MUTEX
     in if state (inst st) = XEN_SHM_STATE_OPENED then Some (- ENOTTY, arg, st)
     else do {
       m \<leftarrow> meta st;
       if xen_shm_is_broken_pipe m then Some (- EPIPE, arg, st)
       else do {
         (free, st) \<leftarrow> (if mutex_flag then dec_and_test_mutex st else Some (True, st));
         if \<not> free
         then do {
           st \<leftarrow> inc_mutex st;
           Some (- EDEADLK, arg, st)
         }
         else do {
         let st = upd_inst (\<lambda>d. d\<lparr>user_signal := 0\<rparr>) st;
         (r, st) \<leftarrow> wait_event env (await_cond flags)
                      (if timeout_ms arg = 0 then None else Some (unat (await_jiffies env (timeout_ms arg)))) evs st;
         let retval = to_int32 r;
         if retval < 0 then unlock_and_return mutex_flag retval arg st
         else do {
           let arg = (if timeout_ms arg = 0 then arg
                      else arg\<lparr>remaining_ms := await_remaining env (timeout_ms arg) retval\<rparr>);
           let st = (if flag_set flags XEN_SHM_IOCTL_AWAIT_USER \<or> flag_set flags XEN_SHM_IOCTL_AWAIT_LATENT_USER
                     then upd_inst (\<lambda>d. d\<lparr>latent_user_signal := 0\<rparr>) st else st);
           m \<leftarrow> meta st;
           unlock_and_return mutex_flag (if xen_shm_is_broken_pipe m then - EPIPE else 0) arg st
         }
         }
       }
     })"

subsection \<open>Signalling\<close>

definition xen_shm_ioctl_ssig :: "kenv \<Rightarrow> shm_st \<Rightarrow> (int \<times> shm_st) option" where
  "xen_shm_ioctl_ssig env st =
    (if state (inst st) = XEN_SHM_STATE_OPENED then Some (- ENOTTY, st)
     else do {
       m \<leftarrow> meta st;
       if xen_shm_is_broken_pipe m then Some (- EPIPE, st)
       else Some (0, snd (kdo env (K_notify_remote (local_ec_port (inst st))) st))
     })"

section \<open>Facts\<close>

lemma wait_event_invariant:
  assumes "wait_event env c left evs st = Some (r, st')" "P st"
    and "\<And>st. P st \<Longrightarrow> P (xen_shm_event_handler env st)"
    and "\<And>st dt f. (dt, Ev_peer f) \<in> set evs \<Longrightarrow> P st \<Longrightarrow> P (st\<lparr>meta := map_option f (meta st)\<rparr>)"
  shows "P st'"
  using assms
proof (induction evs arbitrary: left st)
  case (Cons ev evs)
  obtain dt e where ev: "ev = (dt, e)" by (cases ev)
  let ?left = "map_option (\<lambda>j. j - dt) left"
  show ?case
  proof (cases "c st \<or> (case left of None \<Rightarrow> False | Some j \<Rightarrow> j \<le> dt) \<or> e = Ev_signal")
    case True
    with Cons.prems(1,2) show ?thesis by (auto simp: ev Let_def split: if_splits)
  next
    case False
    then obtain st1 where next1: "wait_event env c ?left evs st1 = Some (r, st')" "P st1"
    proof (cases e)
      case (Ev_peer f)
      with False Cons.prems(1,2) Cons.prems(4) [of dt f st] that show ?thesis by (auto simp: ev Let_def)
    qed (use Cons.prems in \<open>auto simp: ev Let_def\<close>)
    show ?thesis by (rule Cons.IH [OF next1 Cons.prems(3)]) (use Cons.prems(4) in auto)
  qed
qed (simp split: if_splits)

lemma wait_event_result:
  assumes "wait_event env c left evs st = Some (r, st')" "left \<noteq> Some 0"
  shows "r = - ERESTARTSYS \<and> Ev_signal \<in> snd ` set evs
    \<or> c st' \<and> (case left of None \<Rightarrow> r = 0 | Some j \<Rightarrow> 0 < r \<and> r \<le> int j)
    \<or> \<not> c st' \<and> left \<noteq> None \<and> r = 0"
  using assms
proof (induction evs arbitrary: left st)
  case (Cons ev evs)
  obtain dt e where ev: "ev = (dt, e)" by (cases ev)
  let ?left = "map_option (\<lambda>j. j - dt) left"
  show ?case
  proof (cases "c st \<or> (case left of None \<Rightarrow> False | Some j \<Rightarrow> j \<le> dt) \<or> e = Ev_signal")
    case True
    with Cons.prems show ?thesis by (auto simp: ev Let_def split: if_splits option.splits)
  next
    case False
    then obtain st1 where next1: "wait_event env c ?left evs st1 = Some (r, st')"
      using Cons.prems by (cases e) (auto simp: ev Let_def)
    have left: "?left \<noteq> Some 0" using False by (auto split: option.splits)
    from Cons.IH [OF next1 left] show ?thesis
      by (auto simp: ev split: option.splits)
  qed
qed (auto split: if_splits option.splits)

text \<open>A sleeping process is woken by the peer closing its side, by a signal, and, when it waits for a
  user signal, by the interrupts after the initial one.\<close>

definition irqs_needed :: "shm_st \<Rightarrow> nat" where
  "irqs_needed st = (if initial_signal (inst st) = 0 then 2 else 1)"

definition wakes_up :: "u8 \<Rightarrow> (nat \<times> wait_ev) list \<Rightarrow> shm_st \<Rightarrow> bool" where
  "wakes_up flags evs st \<longleftrightarrow>
     (\<exists>dt f. (dt, Ev_peer f) \<in> set evs \<and> (\<forall>m. xen_shm_is_broken_pipe (f m)))
   \<or> Ev_signal \<in> snd ` set evs
   \<or> (flag_set flags XEN_SHM_IOCTL_AWAIT_USER \<or> flag_set flags XEN_SHM_IOCTL_AWAIT_LATENT_USER)
     \<and> irqs_needed st \<le> length (filter (\<lambda>e. snd e = Ev_irq) evs)"

lemma broken_cond:
  "\<forall>m. xen_shm_is_broken_pipe (f m) \<Longrightarrow> meta st \<noteq> None \<Longrightarrow>
    await_cond flags (st\<lparr>meta := map_option f (meta st)\<rparr>)"
  by (auto simp: await_cond_def)

lemma wait_event_holds: "c st \<Longrightarrow> wait_event env c left evs st \<noteq> None"
  by (cases evs) auto

lemma signalled_cond:
  assumes "flag_set flags XEN_SHM_IOCTL_AWAIT_USER \<or> flag_set flags XEN_SHM_IOCTL_AWAIT_LATENT_USER"
    and "initial_signal (inst st) \<noteq> 0"
  shows "await_cond flags (xen_shm_event_handler env st)"
  using assms by (auto simp: await_cond_def xen_shm_event_handler_def Let_def)

lemma wait_event_returns:
  assumes "wakes_up flags evs st" "meta st \<noteq> None"
  shows "wait_event env (await_cond flags) left evs st \<noteq> None"
  using assms
proof (induction evs arbitrary: left st)
  case Nil
  then show ?case by (auto simp: wakes_up_def irqs_needed_def split: if_splits)
next
  case (Cons ev evs)
  obtain dt e where ev: "ev = (dt, e)" by (cases ev)
  let ?left = "map_option (\<lambda>j. j - dt) left"
  have next1: "wait_event env (await_cond flags) ?left evs st1 \<noteq> None"
    if "e = Ev_irq \<and> st1 = xen_shm_event_handler env st
      \<or> (\<exists>f. e = Ev_peer f \<and> st1 = st\<lparr>meta := map_option f (meta st)\<rparr>)" for st1
  proof (cases "await_cond flags st1 \<or> wakes_up flags evs st1")
    case True
    moreover have "meta st1 \<noteq> None" using that Cons.prems(2) by auto
    ultimately show ?thesis using Cons.IH wait_event_holds by blast
  next
    case False
    note that1 = that
    have "initial_signal (inst (xen_shm_event_handler env st)) \<noteq> 0"
      by (simp add: xen_shm_event_handler_def Let_def)
    moreover have "\<not> (\<forall>m. xen_shm_is_broken_pipe (f m))" if "e = Ev_peer f" for f
      using that broken_cond [of f st flags] False that1 Cons.prems(2) by auto
    ultimately have "False"
      using False that Cons.prems signalled_cond [of flags st env]
      by (auto simp: wakes_up_def ev irqs_needed_def split: if_splits) blast+
    then show ?thesis ..
  qed
  show ?case
    using next1 by (cases e) (auto simp: ev Let_def)
qed

text \<open>The state in which the call goes to sleep, and what it does after waking up with the result \<open>w\<close>.\<close>

definition await_entry :: "u8 \<Rightarrow> xen_shm_meta_page_data \<Rightarrow> shm_st \<Rightarrow> shm_st" where
  "await_entry flags m st = upd_inst (\<lambda>d. d\<lparr>user_signal := 0\<rparr>)
     (if flag_set flags XEN_SHM_IOCTL_AWAIT_MUTEX
      then st\<lparr>meta := Some (m\<lparr>ec_mutex_count := ec_mutex_count m - 1\<rparr>)\<rparr> else st)"

definition await_result :: "int \<Rightarrow> xen_shm_meta_page_data \<Rightarrow> int" where
  "await_result w m1 = (if to_int32 w < 0 then to_int32 w else if xen_shm_is_broken_pipe m1 then - EPIPE else 0)"

definition await_finish ::
  "kenv \<Rightarrow> xen_shm_ioctlarg_await \<Rightarrow> int \<times> shm_st \<Rightarrow> (int \<times> xen_shm_ioctlarg_await \<times> shm_st) option" where
  "await_finish env arg = (\<lambda>(w, st1).
     let flags = request_flags arg; mutex_flag = flag_set flags XEN_SHM_IOCTL_AWAIT_MUTEX
     in if to_int32 w < 0 then unlock_and_return mutex_flag (to_int32 w) arg st1
     else do {
       let arg = (if timeout_ms arg = 0 then arg
                  else arg\<lparr>remaining_ms := await_remaining env (timeout_ms arg) (to_int32 w)\<rparr>);
       let st = (if flag_set flags XEN_SHM_IOCTL_AWAIT_USER \<or> flag_set flags XEN_SHM_IOCTL_AWAIT_LATENT_USER
                 then upd_inst (\<lambda>d. d\<lparr>latent_user_signal := 0\<rparr>) st1 else st1);
       m \<leftarrow> meta st;
       unlock_and_return mutex_flag (if xen_shm_is_broken_pipe m then - EPIPE else 0) arg st
     })"

abbreviation (input) await_timeout :: "kenv \<Rightarrow> xen_shm_ioctlarg_await \<Rightarrow> nat option" where
  "await_timeout env arg \<equiv>
     (if timeout_ms arg = 0 then None else Some (unat (await_jiffies env (timeout_ms arg))))"

lemma await_sleeps:
  assumes "state (inst st) \<noteq> XEN_SHM_STATE_OPENED" "meta st = Some m" "\<not> xen_shm_is_broken_pipe m"
    and "flag_set (request_flags arg) XEN_SHM_IOCTL_AWAIT_MUTEX \<longrightarrow> ec_mutex_count m = 1"
  shows "xen_shm_ioctl_await env evs arg st =
    Option.bind (wait_event env (await_cond (request_flags arg)) (await_timeout env arg) evs
      (await_entry (request_flags arg) m st)) (await_finish env arg)"
  using assms
  by (cases "flag_set (request_flags arg) XEN_SHM_IOCTL_AWAIT_MUTEX")
    (simp_all add: xen_shm_ioctl_await_def await_finish_def Let_def dec_and_test_mutex_def upd_meta_def
      await_entry_def split_def)

lemma await_finish_run:
  assumes "await_finish env arg (w, st1) = Some (r, arg', st')" "meta st1 = Some m1"
  shows "r = await_result w m1"
    and "meta st' = Some (if flag_set (request_flags arg) XEN_SHM_IOCTL_AWAIT_MUTEX
         then m1\<lparr>ec_mutex_count := ec_mutex_count m1 + 1\<rparr> else m1)"
    and "ktrace st' = ktrace st1" "state (inst st') = state (inst st1)"
    and "arg' = (if to_int32 w < 0 \<or> timeout_ms arg = 0 then arg
      else arg\<lparr>remaining_ms := await_remaining env (timeout_ms arg) (to_int32 w)\<rparr>)"
  using assms
  by (auto simp: await_finish_def unlock_and_return_def inc_mutex_def upd_meta_def await_result_def Let_def
      split: if_splits)

lemma await_cases:
  assumes inv: "shm_inv st" and call: "xen_shm_ioctl_await env evs arg st = Some (r, arg', st')"
  obtains (fresh) "state (inst st) = XEN_SHM_STATE_OPENED" "r = - ENOTTY" "arg' = arg" "st' = st"
  | (broken) m where "state (inst st) \<noteq> XEN_SHM_STATE_OPENED" "meta st = Some m" "xen_shm_is_broken_pipe m"
      "r = - EPIPE" "arg' = arg" "st' = st"
  | (locked) m where "state (inst st) \<noteq> XEN_SHM_STATE_OPENED" "meta st = Some m" "\<not> xen_shm_is_broken_pipe m"
      "flag_set (request_flags arg) XEN_SHM_IOCTL_AWAIT_MUTEX" "ec_mutex_count m \<noteq> 1" "r = - EDEADLK"
      "arg' = arg" "st' = st"
  | (slept) m w st1 m1 where "state (inst st) \<noteq> XEN_SHM_STATE_OPENED" "meta st = Some m"
      "\<not> xen_shm_is_broken_pipe m"
      "flag_set (request_flags arg) XEN_SHM_IOCTL_AWAIT_MUTEX \<longrightarrow> ec_mutex_count m = 1"
      "wait_event env (await_cond (request_flags arg)) (await_timeout env arg) evs
         (await_entry (request_flags arg) m st) = Some (w, st1)"
      "meta st1 = Some m1" "await_finish env arg (w, st1) = Some (r, arg', st')"
proof -
  let ?mx = "flag_set (request_flags arg) XEN_SHM_IOCTL_AWAIT_MUTEX"
  show thesis
  proof (cases "state (inst st) = XEN_SHM_STATE_OPENED")
    case True
    with call show thesis by (intro fresh) (simp_all add: xen_shm_ioctl_await_def Let_def)
  next
    case live: False
    then obtain m where m: "meta st = Some m" using inv by (auto simp: shm_inv_def)
    consider "xen_shm_is_broken_pipe m" | "\<not> xen_shm_is_broken_pipe m" "?mx" "ec_mutex_count m \<noteq> 1"
      | "\<not> xen_shm_is_broken_pipe m" "?mx \<longrightarrow> ec_mutex_count m = 1" by blast
    then show thesis
    proof cases
      case 1
      with live m call show thesis by (intro broken [of m]) (simp_all add: xen_shm_ioctl_await_def Let_def)
    next
      case l: 2
      have "st\<lparr>meta := Some m\<rparr> = st" using m by (cases st) simp
      with l live m call show thesis
        by (intro locked [of m]) (simp_all add: xen_shm_ioctl_await_def Let_def dec_and_test_mutex_def
            inc_mutex_def upd_meta_def)
    next
      case s: 3
      obtain w st1 where w: "wait_event env (await_cond (request_flags arg)) (await_timeout env arg) evs
          (await_entry (request_flags arg) m st) = Some (w, st1)"
        and fin: "await_finish env arg (w, st1) = Some (r, arg', st')"
        using call unfolding await_sleeps [OF live m s] bind_eq_Some_conv by auto
      have "meta st1 \<noteq> None"
        by (rule wait_event_invariant [OF w, of "\<lambda>st. meta st \<noteq> None"]) (use m in \<open>auto simp: await_entry_def\<close>)
      then obtain m1 where m1: "meta st1 = Some m1" by auto
      show thesis by (rule slept [OF live m s w m1 fin])
    qed
  qed
qed

lemma to_int32_small: "- (2 ^ 31) \<le> i \<Longrightarrow> i < 2 ^ 31 \<Longrightarrow> to_int32 i = i"
  by (simp add: to_int32_def signed_of_int signed_take_bit_int_eq_self)

subsection \<open>Times\<close>

text \<open>Timeouts for which the arithmetic of the code does not wrap: at most 2147483 jiffies, and a
  clock of at most 1000 ticks a second.\<close>

definition sane_timeout :: "kenv \<Rightarrow> u64 \<Rightarrow> bool" where
  "sane_timeout env t \<longleftrightarrow> 0 < hz env \<and> hz env \<le> 1000 \<and> unat t * hz env < 2147484 * 1000"

lemma await_jiffies_bounds:
  assumes "sane_timeout env t"
  shows "unat (await_jiffies env t) = max 1 (unat t * hz env div 1000)"
    and "0 < unat (await_jiffies env t)" "unat (await_jiffies env t) < 2147484"
proof -
  have lt: "unat t * hz env < 2 ^ 64" and hzlt: "hz env < 2 ^ 64"
    using assms by (auto simp: sane_timeout_def)
  have "unat (t * of_nat (hz env) div 1000) = unat t * hz env div 1000"
    using lt hzlt by (simp add: unat_div unat_word_ariths unat_of_nat)
  then show eq: "unat (await_jiffies env t) = max 1 (unat t * hz env div 1000)"
    by (simp add: await_jiffies_def Let_def word_unat_eq_iff)
  show "0 < unat (await_jiffies env t)" "unat (await_jiffies env t) < 2147484"
    using assms by (auto simp: eq sane_timeout_def)
qed

lemma await_remaining_bounds:
  assumes sane: "sane_timeout env t" and w: "0 \<le> w" "w \<le> int (unat (await_jiffies env t))"
  shows "await_remaining env t w \<le> t" "t \<noteq> 0 \<Longrightarrow> await_remaining env t w = 0 \<longleftrightarrow> w = 0"
proof -
  let ?j = "await_jiffies env t"
  obtain n where n: "w = int n" using w(1) nonneg_int_cases by blast
  have nj: "n \<le> unat ?j" using w(2) unfolding n of_nat_le_iff .
  have small: "n < 2147484" using nj await_jiffies_bounds(3) [OF sane] by simp
  have hz: "0 < hz env" "hz env \<le> 1000" using sane by (auto simp: sane_timeout_def)
  have eq: "of_int w = ?j \<longleftrightarrow> n = unat ?j"
    using small by (auto simp: n word_unat_eq_iff unat_of_nat)
  have "to_int32 (w * 1000) = int (n * 1000)"
    using small by (subst to_int32_small) (auto simp: n)
  moreover have "int (n * 1000) sdiv int (hz env) = int (n * 1000 div hz env)"
    using hz by (simp add: signed_divide_int_def sgn_if zdiv_int)
  ultimately have rem: "n \<noteq> unat ?j \<Longrightarrow> await_remaining env t w = of_nat (n * 1000 div hz env)"
    unfolding await_remaining_def eq by (simp only: if_False of_int_of_nat_eq)
  have urem: "n \<noteq> unat ?j \<Longrightarrow> unat (await_remaining env t w) = n * 1000 div hz env"
  proof -
    assume ne: "n \<noteq> unat ?j"
    have "n * 1000 div hz env \<le> n * 1000" by simp
    also have "\<dots> < 2 ^ 64" using small by simp
    finally have "n * 1000 div hz env < 2 ^ 64" .
    then show ?thesis using rem [OF ne] small by (simp add: unat_of_nat)
  qed
  have le: "n * 1000 div hz env \<le> unat t" if "n \<noteq> unat ?j"
  proof -
    have "n = 0 \<or> n < unat t * hz env div 1000"
      using nj that await_jiffies_bounds(1) [OF sane] by linarith
    then have "n * 1000 \<le> unat t * hz env" by (auto simp: less_eq_div_iff_mult_less_eq dest: less_imp_le)
    then show ?thesis using hz(1) by (metis div_le_mono div_mult_self_is_m)
  qed
  show "await_remaining env t w \<le> t"
  proof (cases "n = unat ?j")
    case True
    then show ?thesis using eq by (simp add: await_remaining_def)
  next
    case False
    then show ?thesis using urem le by (simp add: word_le_nat_alt)
  qed
  show "await_remaining env t w = 0 \<longleftrightarrow> w = 0" if "t \<noteq> 0"
  proof (cases "n = unat ?j")
    case True
    then have "0 < n" using await_jiffies_bounds(2) [OF sane] by simp
    then have "w \<noteq> 0" by (simp add: n)
    then show ?thesis using True eq that by (simp add: await_remaining_def)
  next
    case False
    have "n * 1000 div hz env = 0 \<longleftrightarrow> n = 0" using hz by (auto simp: div_eq_0_iff)
    then show ?thesis using urem [OF False] by (simp add: unat_eq_zero [symmetric] n del: unat_eq_zero)
  qed
qed

section \<open>Properties\<close>

lemma await_outcome_slept:
  assumes w: "wait_event env (await_cond (request_flags arg)) (await_timeout env arg) evs
      (await_entry (request_flags arg) m st) = Some (w, st1)"
    and m1: "meta st1 = Some m1" and fin: "await_finish env arg (w, st1) = Some (r, arg', st')"
    and sane: "timeout_ms arg \<noteq> 0 \<longrightarrow> sane_timeout env (timeout_ms arg)"
  shows "to_int32 w = w" "r = (if w < 0 then w else if xen_shm_is_broken_pipe m1 then - EPIPE else 0)"
    and "w = - ERESTARTSYS \<and> Ev_signal \<in> snd ` set evs
      \<or> 0 \<le> w \<and> (await_cond (request_flags arg) st1 \<or> timeout_ms arg \<noteq> 0 \<and> w = 0)"
    and "timeout_ms arg \<noteq> 0 \<Longrightarrow> w \<le> int (unat (await_jiffies env (timeout_ms arg)))"
proof -
  have ne: "await_timeout env arg \<noteq> Some 0"
    using sane await_jiffies_bounds(2) [of env "timeout_ms arg"] by auto
  note res = wait_event_result [OF w ne]
  show "w = - ERESTARTSYS \<and> Ev_signal \<in> snd ` set evs
      \<or> 0 \<le> w \<and> (await_cond (request_flags arg) st1 \<or> timeout_ms arg \<noteq> 0 \<and> w = 0)"
    using res by (auto split: if_splits)
  show le: "timeout_ms arg \<noteq> 0 \<Longrightarrow> w \<le> int (unat (await_jiffies env (timeout_ms arg)))"
  proof -
    assume "timeout_ms arg \<noteq> 0"
    with res have "w \<le> 0 \<or> w \<le> int (unat (await_jiffies env (timeout_ms arg)))" by auto
    then show ?thesis by linarith
  qed
  have "- 512 \<le> w" using res by (auto split: if_splits)
  moreover have "w < 2 ^ 31"
  proof (cases "timeout_ms arg = 0")
    case True
    then show ?thesis using res by auto
  next
    case False
    then have "unat (await_jiffies env (timeout_ms arg)) < 2147484" using sane await_jiffies_bounds(3) by blast
    then have "int (unat (await_jiffies env (timeout_ms arg))) < int 2147484" by (simp only: of_nat_less_iff)
    with le [OF False] have "w < int 2147484" by (rule le_less_trans)
    then show ?thesis by simp
  qed
  ultimately show small: "to_int32 w = w" by (intro to_int32_small) auto
  show "r = (if w < 0 then w else if xen_shm_is_broken_pipe m1 then - EPIPE else 0)"
    using await_finish_run(1) [OF fin m1] by (simp add: await_result_def small)
qed

lemma latent_from_user:
  assumes "wait_event env c left evs (await_entry flags m st) = Some (w, st1)"
    and "latent_user_signal (inst st1) \<noteq> 0"
  shows "latent_user_signal (inst st) \<noteq> 0 \<or> user_signal (inst st1) \<noteq> 0"
proof -
  let ?P = "\<lambda>s. latent_user_signal (inst s) \<noteq> 0 \<longrightarrow> latent_user_signal (inst st) \<noteq> 0 \<or> user_signal (inst s) \<noteq> 0"
  have "?P st1"
    by (rule wait_event_invariant [OF assms(1), of ?P])
      (auto simp: await_entry_def xen_shm_event_handler_def Let_def)
  with assms(2) show ?thesis by simp
qed

text \<open>C31.  What the return value of a wait tells, for timeouts in the range in which the arithmetic does
  not wrap.  -ENOTTY: the instance is fresh, nothing was done.  -EPIPE: one of the two sides is
  closed.  -EDEADLK: exclusive waiting was asked for and another waiter holds the mutex, nothing was done.
  -ERESTARTSYS: a signal arrived.  0: neither side is closed, and either a requested event happened
  (a user signal since the call, the initial signal, a user signal pending from before) or the time is over
  and no time remains.  There is no other return value.\<close>

theorem await_outcome:
  assumes inv: "shm_inv st" and call: "xen_shm_ioctl_await env evs arg st = Some (r, arg', st')"
    and sane: "timeout_ms arg \<noteq> 0 \<longrightarrow> sane_timeout env (timeout_ms arg)"
  defines "asked \<equiv> flag_set (request_flags arg)"
  shows "r = - ENOTTY \<and> state (inst st) = XEN_SHM_STATE_OPENED \<and> st' = st
    \<or> r = - EPIPE \<and> (\<exists>m. meta st' = Some m \<and> xen_shm_is_broken_pipe m)
    \<or> r = - EDEADLK \<and> asked XEN_SHM_IOCTL_AWAIT_MUTEX \<and> st' = st \<and> (\<exists>m. meta st = Some m \<and> ec_mutex_count m \<noteq> 1)
    \<or> r = - ERESTARTSYS \<and> Ev_signal \<in> snd ` set evs
    \<or> r = 0 \<and> (\<exists>m. meta st' = Some m \<and> \<not> xen_shm_is_broken_pipe m)
      \<and> ((asked XEN_SHM_IOCTL_AWAIT_USER \<or> asked XEN_SHM_IOCTL_AWAIT_LATENT_USER) \<and> user_signal (inst st') \<noteq> 0
       \<or> asked XEN_SHM_IOCTL_AWAIT_INIT \<and> initial_signal (inst st') \<noteq> 0
       \<or> asked XEN_SHM_IOCTL_AWAIT_LATENT_USER \<and> latent_user_signal (inst st) \<noteq> 0
       \<or> timeout_ms arg \<noteq> 0 \<and> remaining_ms arg' = 0)"
  using inv call
proof (cases rule: await_cases)
  case (slept m w st1 m1)
  note out = await_outcome_slept [OF slept(5-7) sane]
  note fin = await_finish_run [OF slept(7,6)]
  have sig: "user_signal (inst st') = user_signal (inst st1)" "initial_signal (inst st') = initial_signal (inst st1)"
    using slept(6,7) by (auto simp: await_finish_def unlock_and_return_def inc_mutex_def upd_meta_def Let_def
        split: if_splits)
  have brk: "\<exists>m. meta st' = Some m \<and> xen_shm_is_broken_pipe m = xen_shm_is_broken_pipe m1"
    using fin(2) by (auto simp: xen_shm_is_broken_pipe_def)
  consider "w = - ERESTARTSYS" "Ev_signal \<in> snd ` set evs" | "0 \<le> w" "xen_shm_is_broken_pipe m1"
    | "0 \<le> w" "\<not> xen_shm_is_broken_pipe m1" "await_cond (request_flags arg) st1"
    | "w = 0" "\<not> xen_shm_is_broken_pipe m1" "timeout_ms arg \<noteq> 0"
    using out(3) by blast
  then show ?thesis
  proof cases
    case 1
    with out(2) show ?thesis by simp
  next
    case 2
    with out(2) brk show ?thesis by auto
  next
    case 3
    with latent_from_user [OF slept(5)] slept(6) have
      "(asked XEN_SHM_IOCTL_AWAIT_USER \<or> asked XEN_SHM_IOCTL_AWAIT_LATENT_USER) \<and> user_signal (inst st1) \<noteq> 0
       \<or> asked XEN_SHM_IOCTL_AWAIT_INIT \<and> initial_signal (inst st1) \<noteq> 0
       \<or> asked XEN_SHM_IOCTL_AWAIT_LATENT_USER \<and> latent_user_signal (inst st) \<noteq> 0"
      by (auto simp: await_cond_def asked_def)
    with 3 out(2) brk sig show ?thesis by auto
  next
    case 4
    then have "remaining_ms arg' = await_remaining env (timeout_ms arg) 0" using fin(5) out(1) by simp
    with 4 sane have "remaining_ms arg' = 0" using await_remaining_bounds(2) [of env "timeout_ms arg" 0] by simp
    with 4 out(2) brk show ?thesis by auto
  qed
qed (auto simp: asked_def)

text \<open>A process that waits for a user signal for 20 ms on a receiver: the initial signal and a user
  signal arrive.\<close>

definition small_await :: xen_shm_ioctlarg_await where
  "small_await = \<lparr>request_flags = XEN_SHM_IOCTL_AWAIT_USER OR XEN_SHM_IOCTL_AWAIT_MUTEX, timeout_ms = 20, remaining_ms = 0\<rparr>"

definition small_events :: "(nat \<times> wait_ev) list" where
  "small_events = [(1, Ev_irq), (2, Ev_irq)]"

lemma small_await_facts:
  "shm_inv (small_shm XEN_SHM_STATE_RECEIVER)" "sane_timeout small_kenv (timeout_ms small_await)"
  "flag_set (request_flags small_await) XEN_SHM_IOCTL_AWAIT_USER"
  "\<not> flag_set (request_flags small_await) XEN_SHM_IOCTL_AWAIT_INIT"
  "\<not> flag_set (request_flags small_await) XEN_SHM_IOCTL_AWAIT_LATENT_USER"
  "flag_set (request_flags small_await) XEN_SHM_IOCTL_AWAIT_MUTEX"
  by (simp_all add: shm_inv_def small_shm_def small_inst_def small_kenv_def small_meta_def sane_timeout_def
      small_await_def flag_set_def)

lemma small_await_run:
  "\<exists>st'. xen_shm_ioctl_await small_kenv small_events small_await (small_shm XEN_SHM_STATE_RECEIVER)
    = Some (0, small_await\<lparr>remaining_ms := 8\<rparr>, st')"
proof -
  let ?st = "small_shm XEN_SHM_STATE_RECEIVER" and ?c = "await_cond (request_flags small_await)"
  have jif: "await_timeout small_kenv small_await = Some 5"
    by (simp add: await_jiffies_def small_kenv_def small_await_def)
  have st: "state (inst ?st) \<noteq> XEN_SHM_STATE_OPENED" "meta ?st = Some small_meta"
    "\<not> xen_shm_is_broken_pipe small_meta" "ec_mutex_count small_meta = 1"
    by (simp_all add: small_shm_def small_meta_def xen_shm_is_broken_pipe_def)
  define st0 where "st0 = await_entry (request_flags small_await) small_meta ?st"
  let ?h = "xen_shm_event_handler small_kenv"
  have wt: "wait_event small_kenv ?c (Some 5) small_events st0 = Some (2, ?h (?h st0))"
    by (simp add: small_events_def await_cond_def small_await_facts st0_def await_entry_def
        xen_shm_event_handler_def Let_def small_shm_def small_inst_def small_meta_def xen_shm_is_broken_pipe_def)
  have mt: "meta (?h (?h st0)) = Some (small_meta\<lparr>ec_mutex_count := 0\<rparr>)"
    by (simp add: st0_def await_entry_def small_await_facts xen_shm_event_handler_def Let_def small_meta_def)
  have rem: "await_remaining small_kenv 20 2 = 8" "to_int32 2 = 2"
    by (simp_all add: await_remaining_def await_jiffies_def small_kenv_def to_int32_small)
  show ?thesis
    using mt st(3)
    by (simp add: await_sleeps [OF st(1-3)] st(4) jif [unfolded if_split] wt st0_def [symmetric]
        await_finish_def Let_def small_await_facts rem unlock_and_return_def inc_mutex_def upd_meta_def
        xen_shm_is_broken_pipe_def) (simp add: small_await_def rem)
qed

theorem await_outcome_witness:
  "\<exists>st'. xen_shm_ioctl_await small_kenv small_events small_await (small_shm XEN_SHM_STATE_RECEIVER)
      = Some (0, small_await\<lparr>remaining_ms := 8\<rparr>, st')
    \<and> (\<exists>m. meta st' = Some m \<and> \<not> xen_shm_is_broken_pipe m) \<and> user_signal (inst st') \<noteq> 0"
proof -
  obtain st' where run: "xen_shm_ioctl_await small_kenv small_events small_await (small_shm XEN_SHM_STATE_RECEIVER)
      = Some (0, small_await\<lparr>remaining_ms := 8\<rparr>, st')" using small_await_run by blast
  show ?thesis
    using await_outcome [OF small_await_facts(1) run] run small_await_facts(2-5) by auto
qed

lemma await_mutex_refused:
  assumes "meta other = Some m" "ec_mutex_count m \<noteq> 1" "state (inst other) \<noteq> XEN_SHM_STATE_OPENED"
    "\<not> xen_shm_is_broken_pipe m" "flag_set (request_flags arg) XEN_SHM_IOCTL_AWAIT_MUTEX"
  shows "xen_shm_ioctl_await env evs arg other = Some (- EDEADLK, arg, other)"
proof -
  have "other\<lparr>meta := Some m\<rparr> = other" using assms(1) by (cases other) simp
  then show ?thesis
    using assms by (simp add: xen_shm_ioctl_await_def dec_and_test_mutex_def inc_mutex_def upd_meta_def Let_def)
qed

text \<open>C32.  Exclusive waiting.  Every return path gives the mutex back, provided the peer's writes leave the counter
  as it is; and the call sleeps with the mutex taken: in every state the events lead to
  (that is, at the end of a wait for any condition and any time) an exclusive wait of either side on the header page it leaves there is
  refused with -EDEADLK and changes nothing, unless a side has been closed.\<close>

theorem await_mutex_balanced:
  assumes inv: "shm_inv st" and call: "xen_shm_ioctl_await env evs arg st = Some (r, arg', st')"
    and peer: "\<forall>dt f m. (dt, Ev_peer f) \<in> set evs \<longrightarrow> ec_mutex_count (f m) = ec_mutex_count m"
  shows "map_option ec_mutex_count (meta st') = map_option ec_mutex_count (meta st)
    \<and> (\<forall>m c w st1 m1 other arg2 evs2 left.
        meta st = Some m \<and> ec_mutex_count m = 1 \<and> flag_set (request_flags arg) XEN_SHM_IOCTL_AWAIT_MUTEX
        \<and> wait_event env c left evs (await_entry (request_flags arg) m st) = Some (w, st1)
        \<and> meta st1 = Some m1 \<and> meta other = Some m1 \<and> \<not> xen_shm_is_broken_pipe m1
        \<and> state (inst other) \<noteq> XEN_SHM_STATE_OPENED \<and> flag_set (request_flags arg2) XEN_SHM_IOCTL_AWAIT_MUTEX
        \<longrightarrow> xen_shm_ioctl_await env evs2 arg2 other = Some (- EDEADLK, arg2, other))"
proof -
  let ?mx = "flag_set (request_flags arg) XEN_SHM_IOCTL_AWAIT_MUTEX"
  have held: "map_option ec_mutex_count (meta st1) = Some (if ?mx then 0 else ec_mutex_count m)"
    if "wait_event env c left evs (await_entry (request_flags arg) m st) = Some (w, st1)"
      and "meta st = Some m" "?mx \<longrightarrow> ec_mutex_count m = 1" for c left m w st1
    by (rule wait_event_invariant [OF that(1)]) (use that(2,3) peer in \<open>auto simp: await_entry_def\<close>)
  have "map_option ec_mutex_count (meta st') = map_option ec_mutex_count (meta st)"
    using inv call
  proof (cases rule: await_cases)
    case (slept m w st1 m1)
    with held [OF slept(5,2,4)] await_finish_run(2) [OF slept(7,6)] show ?thesis by auto
  qed simp_all
  moreover have "xen_shm_ioctl_await env evs2 arg2 other = Some (- EDEADLK, arg2, other)"
    if a: "meta st = Some m" "ec_mutex_count m = 1" "?mx"
      "wait_event env c left evs (await_entry (request_flags arg) m st) = Some (w, st1)"
      "meta st1 = Some m1" "meta other = Some m1" "\<not> xen_shm_is_broken_pipe m1"
      "state (inst other) \<noteq> XEN_SHM_STATE_OPENED" "flag_set (request_flags arg2) XEN_SHM_IOCTL_AWAIT_MUTEX"
    for m c w st1 m1 other arg2 evs2 left
    using held [OF a(4,1)] a by (intro await_mutex_refused [OF a(6)]) auto
  ultimately show ?thesis by blast
qed

theorem await_mutex_balanced_witness:
  "\<exists>r arg' st'. xen_shm_ioctl_await small_kenv small_events small_await (small_shm XEN_SHM_STATE_RECEIVER)
      = Some (r, arg', st') \<and> map_option ec_mutex_count (meta st') = Some 1"
proof -
  obtain st' where run: "xen_shm_ioctl_await small_kenv small_events small_await (small_shm XEN_SHM_STATE_RECEIVER)
      = Some (0, small_await\<lparr>remaining_ms := 8\<rparr>, st')" using small_await_run by blast
  have "map_option ec_mutex_count (meta st') =
      map_option ec_mutex_count (meta (small_shm XEN_SHM_STATE_RECEIVER))"
    using await_mutex_balanced [OF small_await_facts(1) run] by (simp add: small_events_def)
  then show ?thesis using run by (simp add: small_shm_def small_meta_def)
qed

text \<open>C34.  The time handed back is never more than the time asked for, for timeouts in the range in which
  the arithmetic does not wrap; when a call that was to wait returns 0 it is 0 exactly when the time has run
  out.\<close>

theorem await_remaining_time:
  assumes inv: "shm_inv st" and call: "xen_shm_ioctl_await env evs arg st = Some (0, arg', st')"
    and t: "timeout_ms arg \<noteq> 0" "sane_timeout env (timeout_ms arg)"
  shows "remaining_ms arg' \<le> timeout_ms arg \<and> timeout_ms arg' = timeout_ms arg \<and> request_flags arg' = request_flags arg
    \<and> (remaining_ms arg' = 0 \<longleftrightarrow> (\<exists>m st1. wait_event env (await_cond (request_flags arg))
          (Some (unat (await_jiffies env (timeout_ms arg)))) evs (await_entry (request_flags arg) m st) = Some (0, st1)
        \<and> meta st = Some m))"
  using inv call
proof (cases rule: await_cases)
  case (slept m w st1 m1)
  note out = await_outcome_slept [OF slept(5-7)]
  have w: "0 \<le> w" "w \<le> int (unat (await_jiffies env (timeout_ms arg)))" "to_int32 w = w"
    using out t by (auto split: if_splits)
  have arg': "arg' = arg\<lparr>remaining_ms := await_remaining env (timeout_ms arg) w\<rparr>"
    using await_finish_run(5) [OF slept(7,6)] w t(1) by simp
  have "w = 0 \<longleftrightarrow> (\<exists>m st1. wait_event env (await_cond (request_flags arg))
          (Some (unat (await_jiffies env (timeout_ms arg)))) evs (await_entry (request_flags arg) m st) = Some (0, st1)
        \<and> meta st = Some m)"
    using slept(2,5) t(1) by auto
  then show ?thesis using await_remaining_bounds [OF t(2) w(1,2)] t(1) by (simp add: arg')
qed simp_all

theorem await_remaining_time_witness:
  "\<exists>arg' st'. xen_shm_ioctl_await small_kenv small_events small_await (small_shm XEN_SHM_STATE_RECEIVER)
      = Some (0, arg', st') \<and> remaining_ms arg' \<le> 20"
proof -
  obtain st' where run: "xen_shm_ioctl_await small_kenv small_events small_await (small_shm XEN_SHM_STATE_RECEIVER)
      = Some (0, small_await\<lparr>remaining_ms := 8\<rparr>, st')" using small_await_run by blast
  have "timeout_ms small_await \<noteq> 0" "timeout_ms small_await = 20" by (simp_all add: small_await_def)
  with await_remaining_time [OF small_await_facts(1) run _ small_await_facts(2)] run show ?thesis by auto
qed

text \<open>C33.  A wait ends: the call returns when the peer closes its side, when a signal arrives, or, if it waits for
  user signals, when an interrupt arrives after the initial one.\<close>

theorem await_returns:
  assumes inv: "shm_inv st" and wake: "wakes_up (request_flags arg) evs st"
  shows "\<exists>r arg' st'. xen_shm_ioctl_await env evs arg st = Some (r, arg', st')"
proof (cases "state (inst st) = XEN_SHM_STATE_OPENED")
  case True
  then show ?thesis by (simp add: xen_shm_ioctl_await_def Let_def)
next
  case live: False
  then obtain m where m: "meta st = Some m" using inv by (auto simp: shm_inv_def)
  let ?mx = "flag_set (request_flags arg) XEN_SHM_IOCTL_AWAIT_MUTEX"
  show ?thesis
  proof (cases "xen_shm_is_broken_pipe m \<or> ?mx \<and> ec_mutex_count m \<noteq> 1")
    case True
    with live m show ?thesis
      by (auto simp: xen_shm_ioctl_await_def Let_def dec_and_test_mutex_def inc_mutex_def upd_meta_def)
  next
    case False
    then have nb: "\<not> xen_shm_is_broken_pipe m" and mx: "?mx \<longrightarrow> ec_mutex_count m = 1" by auto
    let ?st0 = "await_entry (request_flags arg) m st"
    have "wakes_up (request_flags arg) evs ?st0"
      using wake by (cases "initial_signal (inst st) = 0") (simp_all add: wakes_up_def irqs_needed_def await_entry_def)
    moreover have m0: "meta ?st0 \<noteq> None" using m by (simp add: await_entry_def)
    ultimately obtain w st1 where w: "wait_event env (await_cond (request_flags arg)) (await_timeout env arg) evs ?st0
        = Some (w, st1)"
      using wait_event_returns [of "request_flags arg" evs ?st0 env "await_timeout env arg"] by (auto split: if_splits)
    have "meta st1 \<noteq> None" by (rule wait_event_invariant [OF w, of "\<lambda>s. meta s \<noteq> None"]) (use m0 in auto)
    then have "await_finish env arg (w, st1) \<noteq> None"
      by (auto simp: await_finish_def Let_def unlock_and_return_def inc_mutex_def upd_meta_def)
    then show ?thesis unfolding await_sleeps [OF live m nb mx] w by auto
  qed
qed

theorem await_returns_witness:
  "\<exists>r arg' st'. xen_shm_ioctl_await small_kenv small_events small_await (small_shm XEN_SHM_STATE_RECEIVER)
      = Some (r, arg', st')"
proof -
  have "wakes_up (request_flags small_await) small_events (small_shm XEN_SHM_STATE_RECEIVER)"
    using small_await_facts(3) by (simp add: wakes_up_def irqs_needed_def small_events_def)
  with small_await_facts(1) show ?thesis by (rule await_returns)
qed

end
