(* ===== verification/Shm_Mmap.thy ===== *)
theory Shm_Mmap
  imports Shm_Ioctl
begin

text \<open>
  The \<^verbatim>\<open>mmap\<close> operation of the device: an offerer maps its pages into the process, a receiver maps
  the pages granted by the offerer and hands them to the process.
\<close>

section \<open>Definitions\<close>

abbreviation (input) GNTMAP_host_map :: nat where "GNTMAP_host_map \<equiv> 2"
abbreviation (input) GNTMAP_application_map :: nat where "GNTMAP_application_map \<equiv> 8"
abbreviation (input) GNTMAP_contains_pte :: nat where "GNTMAP_contains_pte \<equiv> 16"

text \<open>A \<^verbatim>\<open>for\<close> loop over the elements of a list, whose body may have no result.\<close>

fun for_each :: "('a \<Rightarrow> 's \<Rightarrow> 's option) \<Rightarrow> 'a list \<Rightarrow> 's \<Rightarrow> 's option" where
  "for_each f [] s = Some s"
| "for_each f (x # xs) s = Option.bind (f x s) (for_each f xs)"

text \<open>The number of shared pages, without the header page.\<close>

definition shared_pages :: "xen_shm_instance_data \<Rightarrow> nat" where
  "shared_pages d = unat (pages_count d) - 1"

definition gnttab_set_map_op ::
  "nat \<Rightarrow> nat \<Rightarrow> u32 \<Rightarrow> u16 \<Rightarrow> gnttab_map_grant_ref \<Rightarrow> gnttab_map_grant_ref" where
  "gnttab_set_map_op addr flags ref domid op =
    op\<lparr>mo_addr := addr, mo_flags := flags, mo_ref := ref, mo_dom := domid\<rparr>"

definition gnttab_set_unmap_op :: "nat \<Rightarrow> nat \<Rightarrow> u32 \<Rightarrow> gnttab_unmap_grant_ref \<Rightarrow> gnttab_unmap_grant_ref" where
  "gnttab_set_unmap_op addr flags handle op = op\<lparr>uo_addr := addr, uo_flags := flags, uo_handle := handle\<rparr>"

text \<open>The callback for the page at \<open>addr\<close>; \<open>kmaddr\<close> gives the machine address of its page table entry.\<close>

definition xen_shm_contruct_receiver_k_ops :: "kenv \<Rightarrow> nat \<Rightarrow> shm_st \<Rightarrow> shm_st option" where
  "xen_shm_contruct_receiver_k_ops env addr st =
    do {
      v \<leftarrow> user_mem (inst st);
      m \<leftarrow> meta st;
      let offset = (addr - vm_start v) div PAGE_SIZE;
      let pte_maddr = kmaddr env addr;
      let flags = GNTMAP_host_map + GNTMAP_application_map + GNTMAP_contains_pte;
      ref \<leftarrow> nth_opt (grant_refs m) (offset + 1);
      mo \<leftarrow> nth_opt (map_ops (inst st)) offset;
      uo \<leftarrow> nth_opt (unmap_ops (inst st)) offset;
      Some (upd_inst (\<lambda>d. d\<lparr>
        map_ops := (map_ops d)[offset := gnttab_set_map_op pte_maddr flags ref (distant_domid d) mo],
        unmap_ops := (unmap_ops d)[offset := gnttab_set_unmap_op pte_maddr flags NO_HANDLE uo]\<rparr>) st)
    }"

text \<open>\<^verbatim>\<open>apply_to_page_range\<close> calls the callback for each page of the range; when it fails, for some of them.\<close>

definition apply_to_page_range ::
  "kenv \<Rightarrow> vm_area_struct \<Rightarrow> (nat \<Rightarrow> shm_st \<Rightarrow> shm_st option) \<Rightarrow> shm_st \<Rightarrow> (int \<times> shm_st) option" where
  "apply_to_page_range env v fn st =
    (let size = vm_end v - vm_start v;
         (a, st) = kdo env (K_apply_to_page_range (vm_start v) size) st;
         n = (if k_ret a = 0 then size div PAGE_SIZE else min (k_val a) (size div PAGE_SIZE))
     in do {
       st \<leftarrow> for_each (\<lambda>i. fn (vm_start v + i * PAGE_SIZE)) [0..<n] st;
       Some (k_ret a, st)
     })"

definition construct_kmap_op :: "kenv \<Rightarrow> nat \<Rightarrow> shm_st \<Rightarrow> shm_st option" where
  "construct_kmap_op env offset st =
    do {
      m \<leftarrow> meta st;
      page \<leftarrow> nth_opt (user_pages (inst st)) offset;
      ref \<leftarrow> nth_opt (grant_refs m) (offset + 1);
      ko \<leftarrow> nth_opt (kmap_ops (inst st)) offset;
      Some (upd_inst (\<lambda>d. d\<lparr>kmap_ops := (kmap_ops d)[offset :=
        gnttab_set_map_op (kmaddr env page) (GNTMAP_host_map + GNTMAP_contains_pte) ref (distant_domid d) ko]\<rparr>) st)
    }"

text \<open>Without page table entries: the call of \<^verbatim>\<open>gnttab_set_unmap_op\<close> gives the flags as the address and
  the reference as the flags.\<close>

definition construct_map_op :: "nat \<Rightarrow> shm_st \<Rightarrow> shm_st option" where
  "construct_map_op offset st =
    do {
      m \<leftarrow> meta st;
      page \<leftarrow> nth_opt (user_pages (inst st)) offset;
      ref \<leftarrow> nth_opt (grant_refs m) (offset + 1);
      mo \<leftarrow> nth_opt (map_ops (inst st)) offset;
      uo \<leftarrow> nth_opt (unmap_ops (inst st)) offset;
      Some (upd_inst (\<lambda>d. d\<lparr>
        map_ops := (map_ops d)[offset := gnttab_set_map_op page GNTMAP_host_map ref (distant_domid d) mo],
        unmap_ops := (unmap_ops d)[offset := gnttab_set_unmap_op GNTMAP_host_map (unat ref) NO_HANDLE uo]\<rparr>) st)
    }"

text \<open>\<^verbatim>\<open>gnttab_map_refs\<close> fills in the status and the handle of each of the operations.\<close>

definition gnttab_map_refs :: "kenv \<Rightarrow> shm_st \<Rightarrow> int \<times> shm_st" where
  "gnttab_map_refs env st =
    (let n = shared_pages (inst st);
         res = kmapped env (ktrace st);
         (a, st) = kdo env (K_map_refs (take n (map_ops (inst st))) (use_ptemod (inst st))) st
     in (k_ret a, upd_inst (\<lambda>d. d\<lparr>map_ops :=
          map (\<lambda>(i, op). if i < n then op\<lparr>mo_status := fst (res i), mo_handle := snd (res i)\<rparr> else op)
            (enumerate 0 (map_ops d))\<rparr>) st))"

text \<open>The loop that checks each operation: the error becomes \<^verbatim>\<open>-EINVAL\<close> when one of them failed.\<close>

definition check_map_op :: "nat \<Rightarrow> int \<times> shm_st \<Rightarrow> (int \<times> shm_st) option" where
  "check_map_op offset = (\<lambda>(err, st).
    do {
      mo \<leftarrow> nth_opt (map_ops (inst st)) offset;
      if mo_status mo \<noteq> 0 then Some (- EINVAL, st)
      else do {
        uo \<leftarrow> nth_opt (unmap_ops (inst st)) offset;
        Some (err, upd_inst (\<lambda>d. d\<lparr>unmap_ops := (unmap_ops d)[offset := uo\<lparr>uo_handle := mo_handle mo\<rparr>]\<rparr>) st)
      }
    })"

text \<open>The pages are inserted one by one until one fails.\<close>

fun insert_pages :: "kenv \<Rightarrow> nat \<Rightarrow> nat list \<Rightarrow> shm_st \<Rightarrow> (int \<times> shm_st) option" where
  "insert_pages env start [] st = Some (0, st)"
| "insert_pages env start (offset # offsets) st =
    do {
      page \<leftarrow> nth_opt (user_pages (inst st)) offset;
      let (a, st) = kdo env (K_vm_insert_page (start + offset * PAGE_SIZE) page) st;
      if k_ret a \<noteq> 0 then Some (k_ret a, st) else insert_pages env start offsets st
    }"

definition clean_pages :: "kenv \<Rightarrow> shm_st \<Rightarrow> int \<times> shm_st" where
  "clean_pages env st =
    (let st = upd_inst (\<lambda>d. d\<lparr>user_mem := None\<rparr>) st;
         (a, st) = kdo env (K_free_ballooned (shared_pages (inst st))) st
     in (- EFAULT, st))"

definition clean_page :: "kenv \<Rightarrow> nat \<Rightarrow> shm_st \<Rightarrow> shm_st option" where
  "clean_page env offset st =
    do {
      uo \<leftarrow> nth_opt (unmap_ops (inst st)) offset;
      Some (if uo_handle uo \<noteq> NO_HANDLE then unmap_page env offset st else st)
    }"

definition clean :: "kenv \<Rightarrow> shm_st \<Rightarrow> (int \<times> shm_st) option" where
  "clean env st =
    do {
      st \<leftarrow> for_each (clean_page env) [0..<shared_pages (inst st)] st;
      Some (clean_pages env st)
    }"

definition construct_ops :: "kenv \<Rightarrow> vm_area_struct \<Rightarrow> shm_st \<Rightarrow> (int \<times> shm_st) option" where
  "construct_ops env v st =
    (if use_ptemod (inst st)
     then do {
       (err, st) \<leftarrow> apply_to_page_range env v (xen_shm_contruct_receiver_k_ops env) st;
       if err \<noteq> 0 then Some (err, st)
       else do {
         st \<leftarrow> for_each (construct_kmap_op env) [0..<shared_pages (inst st)] st;
         Some (0, st)
       }
     }
     else do {
       st \<leftarrow> for_each construct_map_op [0..<shared_pages (inst st)] st;
       Some (0, st)
     })"

definition map_receiver_pages :: "kenv \<Rightarrow> vm_area_struct \<Rightarrow> shm_st \<Rightarrow> (int \<times> shm_st) option" where
  "map_receiver_pages env v st =
    do {
      let (err, st) = gnttab_map_refs env st;
      if err \<noteq> 0 then clean env st
      else do {
        (err, st) \<leftarrow> for_each check_map_op [0..<shared_pages (inst st)] (err, st);
        if err \<noteq> 0 then clean env st
        else do {
          (err, st) \<leftarrow> (if \<not> use_ptemod (inst st)
                        then insert_pages env (vm_start v) [0..<shared_pages (inst st)] st
                        else Some (err, st));
          if err \<noteq> 0 then clean env st
          else Some (0, upd_inst (\<lambda>d. d\<lparr>state := XEN_SHM_STATE_RECEIVER_MAPPED\<rparr>) st)
        }
      }
    }"

definition xen_shm_mmap :: "kenv \<Rightarrow> vm_area_struct \<Rightarrow> shm_st \<Rightarrow> (int \<times> shm_st) option" where
  "xen_shm_mmap env v st =
    (if vm_write v \<and> \<not> vm_shared v then Some (- EINVAL, st)
     else case state (inst st) of
       XEN_SHM_STATE_OPENED \<Rightarrow> Some (- ENODATA, st)
     | XEN_SHM_STATE_OFFERER \<Rightarrow>
         if vm_end v - vm_start v \<noteq> shared_pages (inst st) * PAGE_SIZE then Some (- EINVAL, st)
         else
           let (a, st) = kdo env (K_remap_pfn_range (vm_start v) (shared_memory (inst st) + PAGE_SIZE)
                  (vm_end v - vm_start v)) st
           in Some (k_ret a, st)
     | XEN_SHM_STATE_RECEIVER_MAPPED \<Rightarrow> Some (- EPIPE, st)
     | XEN_SHM_STATE_RECEIVER \<Rightarrow>
         if (vm_end v - vm_start v) div PAGE_SIZE \<noteq> shared_pages (inst st) then Some (- EINVAL, st)
         else do {
           let pages = kballoon env (ktrace st);
           let (a, st) = kdo env (K_alloc_ballooned (shared_pages (inst st))) st;
           if k_ret a \<noteq> 0 then Some (clean_pages env st)
           else do {
             let st = upd_inst (\<lambda>d. d\<lparr>user_pages := pages, user_mem := Some v\<rparr>) st;
             (err, st) \<leftarrow> construct_ops env v st;
             if err \<noteq> 0 then Some (clean_pages env st)
             else map_receiver_pages env v st
           }
         })"

section \<open>Facts\<close>

lemma for_each_upt:
  assumes "I a s" "a \<le> n" "\<And>i s. a \<le> i \<Longrightarrow> i < n \<Longrightarrow> I i s \<Longrightarrow> \<exists>s'. f i s = Some s' \<and> I (Suc i) s'"
  shows "\<exists>s'. for_each f [a..<n] s = Some s' \<and> I n s'"
  using assms
proof (induction "n - a" arbitrary: a s)
  case (Suc x)
  then have lt: "a < n" by simp
  obtain s1 where s1: "f a s = Some s1" "I (Suc a) s1" using Suc.prems(1,3) lt by blast
  have "\<exists>s'. for_each f [Suc a..<n] s1 = Some s' \<and> I n s'"
    by (rule Suc.hyps(1)) (use Suc.hyps(2) Suc.prems(3) s1(2) lt in auto)
  then show ?case using s1(1) lt by (simp add: upt_rec)
qed simp

text \<open>What the operations of a mapping leave alone: everything but the three arrays.\<close>

definition ops_frame :: "xen_shm_instance_data \<Rightarrow> xen_shm_instance_data" where
  "ops_frame d = d\<lparr>map_ops := [], unmap_ops := [], kmap_ops := []\<rparr>"

definition same_but_ops :: "shm_st \<Rightarrow> shm_st \<Rightarrow> bool" where
  "same_but_ops st st' \<longleftrightarrow> ops_frame (inst st') = ops_frame (inst st) \<and> meta st' = meta st
     \<and> length (map_ops (inst st')) = length (map_ops (inst st))
     \<and> length (unmap_ops (inst st')) = length (unmap_ops (inst st))
     \<and> length (kmap_ops (inst st')) = length (kmap_ops (inst st))"

lemma same_but_ops_refl [simp]: "same_but_ops st st"
  by (simp add: same_but_ops_def)

lemma same_but_ops_trans: "same_but_ops a b \<Longrightarrow> same_but_ops b c \<Longrightarrow> same_but_ops a c"
  by (simp add: same_but_ops_def)

lemma same_but_ops_fields:
  assumes "same_but_ops st st'"
  shows "state (inst st') = state (inst st)" "pages_count (inst st') = pages_count (inst st)"
    "use_ptemod (inst st') = use_ptemod (inst st)" "user_mem (inst st') = user_mem (inst st)"
    "user_pages (inst st') = user_pages (inst st)" "distant_domid (inst st') = distant_domid (inst st)"
    "shared_memory (inst st') = shared_memory (inst st)" "unmapped_area (inst st') = unmapped_area (inst st)"
    "shared_pages (inst st') = shared_pages (inst st)" "meta st' = meta st"
proof -
  have e: "ops_frame (inst st') = ops_frame (inst st)" using assms by (simp add: same_but_ops_def)
  show "state (inst st') = state (inst st)" "use_ptemod (inst st') = use_ptemod (inst st)"
    "user_mem (inst st') = user_mem (inst st)" "user_pages (inst st') = user_pages (inst st)"
    "distant_domid (inst st') = distant_domid (inst st)" "shared_memory (inst st') = shared_memory (inst st)"
    "unmapped_area (inst st') = unmapped_area (inst st)"
    using arg_cong [OF e, of state] arg_cong [OF e, of use_ptemod] arg_cong [OF e, of user_mem]
      arg_cong [OF e, of user_pages] arg_cong [OF e, of distant_domid] arg_cong [OF e, of shared_memory]
      arg_cong [OF e, of unmapped_area]
    by (simp_all add: ops_frame_def)
  show pc: "pages_count (inst st') = pages_count (inst st)"
    using arg_cong [OF e, of pages_count] by (simp add: ops_frame_def)
  then show "shared_pages (inst st') = shared_pages (inst st)" by (simp add: shared_pages_def)
  show "meta st' = meta st" using assms by (simp add: same_but_ops_def)
qed

text \<open>The first \<open>k\<close> pages have operations for the references of the header page, not mapped yet.\<close>

definition ops_built :: "nat \<Rightarrow> shm_st \<Rightarrow> bool" where
  "ops_built k st \<longleftrightarrow> (\<exists>m. meta st = Some m \<and> (\<forall>i < k.
      mo_ref (map_ops (inst st) ! i) = grant_refs m ! (i + 1)
    \<and> mo_dom (map_ops (inst st) ! i) = distant_domid (inst st)
    \<and> uo_handle (unmap_ops (inst st) ! i) = NO_HANDLE))"

text \<open>The state of a receiver that maps its pages: the arrays have their size and the header page has a
  reference for every page.\<close>

definition mapping_wf :: "shm_st \<Rightarrow> bool" where
  "mapping_wf st \<longleftrightarrow> shared_pages (inst st) < 128 \<and> length (map_ops (inst st)) = 128
     \<and> length (unmap_ops (inst st)) = 128 \<and> length (kmap_ops (inst st)) = 128
     \<and> length (user_pages (inst st)) = 128
     \<and> (\<exists>m. meta st = Some m \<and> length (grant_refs m) = 128)"

lemma mapping_wf_same: "mapping_wf st \<Longrightarrow> same_but_ops st st' \<Longrightarrow> mapping_wf st'"
  using same_but_ops_fields [of st st'] by (simp add: mapping_wf_def same_but_ops_def)

lemma construct_map_ops_run:
  assumes "mapping_wf st"
  shows "\<exists>st'. for_each construct_map_op [0..<shared_pages (inst st)] st = Some st'
    \<and> same_but_ops st st' \<and> ktrace st' = ktrace st \<and> ops_built (shared_pages (inst st)) st'"
proof (rule for_each_upt [where I = "\<lambda>k s. same_but_ops st s \<and> ktrace s = ktrace st \<and> ops_built k s"])
  show "same_but_ops st st \<and> ktrace st = ktrace st \<and> ops_built 0 st"
    using assms by (auto simp: ops_built_def mapping_wf_def)
next
  fix i s
  assume i: "i < shared_pages (inst st)" and I: "same_but_ops st s \<and> ktrace s = ktrace st \<and> ops_built i s"
  then have wf: "mapping_wf s" using assms mapping_wf_same by blast
  then obtain m where m: "meta s = Some m" "length (grant_refs m) = 128" by (auto simp: mapping_wf_def)
  have i128: "i + 1 < 128" using i assms by (simp add: mapping_wf_def)
  show "\<exists>s'. construct_map_op i s = Some s' \<and> same_but_ops st s' \<and> ktrace s' = ktrace st \<and> ops_built (Suc i) s'"
    using I wf m i128
    by (auto simp: construct_map_op_def mapping_wf_def same_but_ops_def ops_frame_def ops_built_def
        gnttab_set_map_op_def gnttab_set_unmap_op_def nth_list_update less_Suc_eq)
qed simp

lemma contruct_k_ops_run:
  assumes wf: "mapping_wf st" and v: "user_mem (inst st) = Some v" and n: "n \<le> shared_pages (inst st)"
  shows "\<exists>st'. for_each (\<lambda>i. xen_shm_contruct_receiver_k_ops env (vm_start v + i * PAGE_SIZE)) [0..<n] st = Some st'
    \<and> same_but_ops st st' \<and> ktrace st' = ktrace st \<and> ops_built n st'"
proof (rule for_each_upt [where I = "\<lambda>k s. same_but_ops st s \<and> ktrace s = ktrace st \<and> ops_built k s"])
  show "same_but_ops st st \<and> ktrace st = ktrace st \<and> ops_built 0 st"
    using wf by (auto simp: ops_built_def mapping_wf_def)
next
  fix i s
  assume i: "i < n" and I: "same_but_ops st s \<and> ktrace s = ktrace st \<and> ops_built i s"
  then have wfs: "mapping_wf s" using wf mapping_wf_same by blast
  then obtain m where m: "meta s = Some m" "length (grant_refs m) = 128" by (auto simp: mapping_wf_def)
  have i128: "i + 1 < 128" using i n wf by (simp add: mapping_wf_def)
  have vs: "user_mem (inst s) = Some v" using same_but_ops_fields(4) I v by metis
  show "\<exists>s'. xen_shm_contruct_receiver_k_ops env (vm_start v + i * PAGE_SIZE) s = Some s'
      \<and> same_but_ops st s' \<and> ktrace s' = ktrace st \<and> ops_built (Suc i) s'"
    using I wfs m i128 vs
    by (auto simp: xen_shm_contruct_receiver_k_ops_def mapping_wf_def same_but_ops_def ops_frame_def ops_built_def
        gnttab_set_map_op_def gnttab_set_unmap_op_def nth_list_update less_Suc_eq Let_def)
qed simp

lemma construct_kmap_ops_run:
  assumes wf: "mapping_wf st" and built: "ops_built n st"
  shows "\<exists>st'. for_each (construct_kmap_op env) [0..<shared_pages (inst st)] st = Some st'
    \<and> same_but_ops st st' \<and> ktrace st' = ktrace st \<and> ops_built n st'"
proof (rule for_each_upt [where I = "\<lambda>k s. same_but_ops st s \<and> ktrace s = ktrace st \<and> ops_built n s"])
  fix i s
  assume i: "i < shared_pages (inst st)" and I: "same_but_ops st s \<and> ktrace s = ktrace st \<and> ops_built n s"
  then have wfs: "mapping_wf s" using wf mapping_wf_same by blast
  then obtain m where m: "meta s = Some m" "length (grant_refs m) = 128" by (auto simp: mapping_wf_def)
  have i128: "i + 1 < 128" using i wf by (simp add: mapping_wf_def)
  show "\<exists>s'. construct_kmap_op env i s = Some s' \<and> same_but_ops st s' \<and> ktrace s' = ktrace st \<and> ops_built n s'"
    using I wfs m i128
    by (auto simp: construct_kmap_op_def mapping_wf_def same_but_ops_def ops_frame_def ops_built_def)
qed (use built in simp_all)

text \<open>A range of whole pages, as every user mapping is.\<close>

definition page_range :: "vm_area_struct \<Rightarrow> nat \<Rightarrow> bool" where
  "page_range v n \<longleftrightarrow> vm_end v = vm_start v + n * PAGE_SIZE"

lemma construct_ops_run:
  assumes wf: "mapping_wf st" and v: "user_mem (inst st) = Some v" "page_range v (shared_pages (inst st))"
  shows "\<exists>err st' h. construct_ops env v st = Some (err, st') \<and> same_but_ops st st' \<and> ktrace st' = ktrace st @ h
    \<and> h = (if use_ptemod (inst st) then [K_apply_to_page_range (vm_start v) (vm_end v - vm_start v)] else [])
    \<and> (err = 0 \<longrightarrow> ops_built (shared_pages (inst st)) st')"
proof (cases "use_ptemod (inst st)")
  case False
  then show ?thesis using construct_map_ops_run [OF wf] by (auto simp: construct_ops_def)
next
  case pt: True
  let ?n = "shared_pages (inst st)"
  let ?a = "K_apply_to_page_range (vm_start v) (vm_end v - vm_start v)"
  define st1 where "st1 = snd (kdo env ?a st)"
  let ?err = "k_ret (kanswer env (ktrace st) ?a)"
  let ?k = "if ?err = 0 then ?n else min (k_val (kanswer env (ktrace st) ?a)) ?n"
  have size: "(vm_end v - vm_start v) div PAGE_SIZE = ?n" using v(2) by (simp add: page_range_def)
  have st1: "same_but_ops st st1" "ktrace st1 = ktrace st @ [?a]" "mapping_wf st1" "user_mem (inst st1) = Some v"
    using wf v by (simp_all add: st1_def same_but_ops_def mapping_wf_def)
  have "?k \<le> shared_pages (inst st1)" by (simp add: st1_def)
  then obtain st2 where st2: "for_each (\<lambda>i. xen_shm_contruct_receiver_k_ops env (vm_start v + i * PAGE_SIZE)) [0..<?k] st1 = Some st2"
    "same_but_ops st1 st2" "ktrace st2 = ktrace st1" "ops_built ?k st2"
    using contruct_k_ops_run [OF st1(3,4)] by blast
  have app: "apply_to_page_range env v (xen_shm_contruct_receiver_k_ops env) st = Some (?err, st2)"
    using st2(1) unfolding apply_to_page_range_def st1_def
    by (cases "?err = 0") (simp_all add: split_beta Let_def size del: upt_Suc)
  have same2: "same_but_ops st st2" by (rule same_but_ops_trans [OF st1(1) st2(2)])
  show ?thesis
  proof (cases "?err = 0")
    case False
    then show ?thesis using app same2 st2(3) st1(2) pt by (auto simp: construct_ops_def)
  next
    case True
    have wf2: "mapping_wf st2" by (rule mapping_wf_same [OF wf same2])
    have "ops_built ?n st2" using st2(4) True by simp
    from construct_kmap_ops_run [OF wf2 this, of env] obtain st3 where
      st3: "for_each (construct_kmap_op env) [0..<shared_pages (inst st2)] st2 = Some st3"
        "same_but_ops st2 st3" "ktrace st3 = ktrace st2" "ops_built ?n st3" by blast
    then show ?thesis
      using app True same_but_ops_trans [OF same2 st3(2)] st2(3) st1(2) pt by (auto simp: construct_ops_def)
  qed
qed

text \<open>The result of the operation \<open>i\<close> of the mapping call after the calls \<open>h\<close>.\<close>

lemma map_refs_run:
  assumes "gnttab_map_refs env st = (err, st')" "mapping_wf st"
  defines "n \<equiv> shared_pages (inst st)"
  defines "c \<equiv> K_map_refs (take n (map_ops (inst st))) (use_ptemod (inst st))"
  shows "err = k_ret (kanswer env (ktrace st) c)" "ktrace st' = ktrace st @ [c]" "same_but_ops st st'"
    "unmap_ops (inst st') = unmap_ops (inst st)"
    "i < n \<Longrightarrow> mo_status (map_ops (inst st') ! i) = fst (kmapped env (ktrace st) i)"
    "i < n \<Longrightarrow> mo_handle (map_ops (inst st') ! i) = snd (kmapped env (ktrace st) i)"
proof -
  let ?res = "kmapped env (ktrace st)"
  have st': "st' = upd_inst (\<lambda>d. d\<lparr>map_ops := map (\<lambda>(i, op). if i < n
      then op\<lparr>mo_status := fst (?res i), mo_handle := snd (?res i)\<rparr> else op) (enumerate 0 (map_ops d))\<rparr>)
    (snd (kdo env c st))" and err: "err = k_ret (kanswer env (ktrace st) c)"
    using assms(1) by (simp_all add: gnttab_map_refs_def Let_def split_beta n_def c_def)
  show "err = k_ret (kanswer env (ktrace st) c)" by (rule err)
  show "ktrace st' = ktrace st @ [c]" "same_but_ops st st'" "unmap_ops (inst st') = unmap_ops (inst st)"
    by (simp_all add: st' same_but_ops_def ops_frame_def)
  assume "i < n"
  moreover then have "i < length (map_ops (inst st))" using assms(2) by (simp add: mapping_wf_def n_def)
  ultimately show "mo_status (map_ops (inst st') ! i) = fst (?res i)" "mo_handle (map_ops (inst st') ! i) = snd (?res i)"
    by (simp_all add: st' nth_enumerate_eq)
qed

text \<open>The unmap operations hold the handles of the first \<open>k\<close> operations that succeeded, and none for the
  others up to \<open>n\<close>; \<open>res\<close> gives the status and the handle of each.\<close>

definition handles_kept :: "(nat \<Rightarrow> int \<times> u32) \<Rightarrow> nat \<Rightarrow> nat \<Rightarrow> xen_shm_instance_data \<Rightarrow> bool" where
  "handles_kept res k n d \<longleftrightarrow> (\<forall>i < n. uo_handle (unmap_ops d ! i) =
     (if i < k \<and> fst (res i) = 0 then snd (res i) else NO_HANDLE))"

lemma check_map_ops_run:
  assumes wf: "mapping_wf st" and n: "n = shared_pages (inst st)" and fresh: "handles_kept res 0 n (inst st)"
    and res: "\<And>i. i < n \<Longrightarrow> mo_status (map_ops (inst st) ! i) = fst (res i)
      \<and> mo_handle (map_ops (inst st) ! i) = snd (res i)"
  shows "\<exists>err st'. for_each check_map_op [0..<n] (0, st) = Some (err, st') \<and> same_but_ops st st'
    \<and> ktrace st' = ktrace st \<and> handles_kept res n n (inst st') \<and> (err = 0 \<longleftrightarrow> (\<forall>i < n. fst (res i) = 0))"
proof -
  let ?I = "\<lambda>k (err, s). same_but_ops st s \<and> ktrace s = ktrace st \<and> map_ops (inst s) = map_ops (inst st)
    \<and> handles_kept res k n (inst s) \<and> (err = 0 \<longleftrightarrow> (\<forall>i < k. fst (res i) = 0))"
  have "\<exists>x. for_each check_map_op [0..<n] (0, st) = Some x \<and> ?I n x"
  proof (rule for_each_upt [where I = ?I])
    show "?I 0 (0, st)" using fresh by simp
  next
    fix i and s :: "int \<times> shm_st"
    assume i: "i < n" and I: "?I i s"
    obtain err s1 where s: "s = (err, s1)" by (cases s)
    have wfs: "mapping_wf s1" using I wf mapping_wf_same by (auto simp: s)
    have len: "i < 128" using i n wf by (simp add: mapping_wf_def)
    show "\<exists>s'. check_map_op i s = Some s' \<and> ?I (Suc i) s'"
      using I wfs len i res [OF i]
      by (auto simp: s check_map_op_def mapping_wf_def same_but_ops_def ops_frame_def handles_kept_def
          nth_list_update less_Suc_eq)
  qed simp
  then show ?thesis by auto
qed

definition insert_calls :: "nat \<Rightarrow> xen_shm_instance_data \<Rightarrow> nat list \<Rightarrow> kcall list" where
  "insert_calls start d xs = map (\<lambda>i. K_vm_insert_page (start + i * PAGE_SIZE) (user_pages d ! i)) xs"

lemma insert_pages_run:
  assumes "\<And>i. i \<in> set xs \<Longrightarrow> i < length (user_pages (inst st))"
  shows "\<exists>err k. insert_pages env start xs st
      = Some (err, st\<lparr>ktrace := ktrace st @ insert_calls start (inst st) (take k xs)\<rparr>)
    \<and> k \<le> length xs \<and> (err = 0 \<longrightarrow> k = length xs)"
  using assms
proof (induction xs arbitrary: st)
  case Nil
  then show ?case by (auto simp: insert_calls_def intro!: exI [of _ 0])
next
  case (Cons x xs)
  let ?c = "K_vm_insert_page (start + x * PAGE_SIZE) (user_pages (inst st) ! x)"
  let ?st1 = "st\<lparr>ktrace := ktrace st @ [?c]\<rparr>"
  show ?case
  proof (cases "k_ret (kanswer env (ktrace st) ?c) = 0")
    case False
    then show ?thesis using Cons.prems
      by (intro exI [of _ "k_ret (kanswer env (ktrace st) ?c)"] exI [of _ 1])
        (simp add: kdo_def insert_calls_def)
  next
    case True
    obtain err k where IH: "insert_pages env start xs ?st1
        = Some (err, ?st1\<lparr>ktrace := ktrace ?st1 @ insert_calls start (inst ?st1) (take k xs)\<rparr>)"
      "k \<le> length xs" "err = 0 \<longrightarrow> k = length xs"
      using Cons.IH [of ?st1] Cons.prems by auto
    then show ?thesis using True Cons.prems
      by (intro exI [of _ err] exI [of _ "Suc k"]) (simp add: kdo_def insert_calls_def)
  qed
qed

definition unmap_calls :: "xen_shm_instance_data \<Rightarrow> nat list \<Rightarrow> kcall list" where
  "unmap_calls d xs = map (\<lambda>i. K_unmap_refs i (unmap_ops d ! i) (use_ptemod d)) xs"

lemma ops_frame_user_mem: "ops_frame (d\<lparr>user_mem := None\<rparr>) = (ops_frame d)\<lparr>user_mem := None\<rparr>"
  by (simp add: ops_frame_def)

lemma clean_run:
  assumes wf: "mapping_wf st" and n: "n = shared_pages (inst st)"
  shows "\<exists>st'. clean env st = Some (- EFAULT, st') \<and> same_but_ops (upd_inst (\<lambda>d. d\<lparr>user_mem := None\<rparr>) st) st'
    \<and> ktrace st' = ktrace st @ unmap_calls (inst st) (mapped_pages (inst st) 0 n) @ [K_free_ballooned n]
    \<and> mapped_pages (inst st') 0 n = []"
proof -
  let ?I = "\<lambda>k s. same_but_ops st s
    \<and> ktrace s = ktrace st @ unmap_calls (inst st) (mapped_pages (inst st) 0 k)
    \<and> (\<forall>i < k. uo_handle (unmap_ops (inst s) ! i) = NO_HANDLE)
    \<and> (\<forall>i. k \<le> i \<longrightarrow> unmap_ops (inst s) ! i = unmap_ops (inst st) ! i)"
  have "\<exists>s. for_each (clean_page env) [0..<n] st = Some s \<and> ?I n s"
  proof (rule for_each_upt [where I = ?I])
    show "?I 0 st" by (simp add: unmap_calls_def mapped_pages_def)
  next
    fix i s
    assume i: "i < n" and I: "?I i s"
    have wfs: "mapping_wf s" using I wf mapping_wf_same by blast
    have pt: "use_ptemod (inst s) = use_ptemod (inst st)" using I same_but_ops_fields(3) by blast
    have len: "i < 128" using i n wf by (simp add: mapping_wf_def)
    show "\<exists>s'. clean_page env i s = Some s' \<and> ?I (Suc i) s'"
      using I wfs len pt
      by (auto simp: clean_page_def unmap_page_def page_unmapped_def mapping_wf_def same_but_ops_def ops_frame_def
          mapped_pages_def unmap_calls_def nth_list_update less_Suc_eq split_beta)
  qed simp
  then obtain s where s: "for_each (clean_page env) [0..<n] st = Some s" "?I n s" by blast
  have "shared_pages (inst s) = n" using s(2) same_but_ops_fields(9) n by blast
  then have np: "shared_pages ((inst s)\<lparr>user_mem := None\<rparr>) = n" by (simp add: shared_pages_def)
  have fr: "ops_frame ((inst s)\<lparr>user_mem := None\<rparr>) = ops_frame ((inst st)\<lparr>user_mem := None\<rparr>)"
    using s(2) ops_frame_user_mem [of "inst s"] ops_frame_user_mem [of "inst st"] by (simp add: same_but_ops_def)
  show ?thesis
    using s np fr
    by (auto simp: clean_def n [symmetric] clean_pages_def Let_def split_beta same_but_ops_def mapped_pages_def)
qed

section \<open>The outcomes\<close>

text \<open>The array of user pages has its declared size, and a successful mapping has a valid handle.\<close>

definition env_maps :: "kenv \<Rightarrow> bool" where
  "env_maps env \<longleftrightarrow> (\<forall>h. length (kballoon env h) = 128)
     \<and> (\<forall>h i. fst (kmapped env h i) = 0 \<longrightarrow> snd (kmapped env h i) \<noteq> NO_HANDLE)"

text \<open>The operations \<open>ops\<close> map the shared pages that the header page of \<open>st\<close> names, from the other domain.\<close>

definition maps_header_refs :: "gnttab_map_grant_ref list \<Rightarrow> shm_st \<Rightarrow> bool" where
  "maps_header_refs ops st \<longleftrightarrow> (\<exists>m. meta st = Some m \<and> length ops = shared_pages (inst st)
     \<and> (\<forall>i < length ops. mo_ref (ops ! i) = grant_refs m ! (i + 1) \<and> mo_dom (ops ! i) = distant_domid (inst st)))"

text \<open>\<open>pre\<close> are the calls before the mapping call, \<open>ops\<close> its operations.\<close>

definition mmap_done :: "kenv \<Rightarrow> vm_area_struct \<Rightarrow> kcall list \<Rightarrow> gnttab_map_grant_ref list \<Rightarrow> shm_st \<Rightarrow> shm_st \<Rightarrow> bool" where
  "mmap_done env v pre ops st st' \<longleftrightarrow> (let n = shared_pages (inst st); h = ktrace st @ pre in
     maps_header_refs ops st \<and> state (inst st') = XEN_SHM_STATE_RECEIVER_MAPPED \<and> user_mem (inst st') = Some v
   \<and> (\<forall>i < n. fst (kmapped env h i) = 0 \<and> uo_handle (unmap_ops (inst st') ! i) = snd (kmapped env h i))
   \<and> ktrace st' = h @ [K_map_refs ops (use_ptemod (inst st))]
       @ (if use_ptemod (inst st) then [] else insert_calls (vm_start v) (inst st') [0..<n]))"

text \<open>\<open>ins\<close> are the calls after the mapping call that insert pages: the pages that were mapped are unmapped.\<close>

definition mmap_undone :: "kenv \<Rightarrow> kcall list \<Rightarrow> gnttab_map_grant_ref list \<Rightarrow> kcall list \<Rightarrow> shm_st \<Rightarrow> shm_st \<Rightarrow> bool" where
  "mmap_undone env pre ops ins st st' \<longleftrightarrow> (let n = shared_pages (inst st); h = ktrace st @ pre;
       c = K_map_refs ops (use_ptemod (inst st)) in
     maps_header_refs ops st \<and> state (inst st') = state (inst st) \<and> user_mem (inst st') = None
   \<and> mapped_pages (inst st') 0 n = []
   \<and> (\<exists>uops. ktrace st' = h @ [c] @ ins
         @ map (\<lambda>i. K_unmap_refs i (uops i) (use_ptemod (inst st)))
             (filter (\<lambda>i. k_ret (kanswer env h c) = 0 \<and> fst (kmapped env h i) = 0) [0..<n])
         @ [K_free_ballooned n]
       \<and> (\<forall>i < n. k_ret (kanswer env h c) = 0 \<and> fst (kmapped env h i) = 0 \<longrightarrow>
            uo_handle (uops i) = snd (kmapped env h i))))"

lemma same_but_ops_upd:
  assumes "same_but_ops st s"
  shows "same_but_ops (upd_inst (\<lambda>d. d\<lparr>user_mem := x\<rparr>) st) (upd_inst (\<lambda>d. d\<lparr>user_mem := x\<rparr>) s)"
    "same_but_ops (upd_inst (\<lambda>d. d\<lparr>state := y\<rparr>) st) (upd_inst (\<lambda>d. d\<lparr>state := y\<rparr>) s)"
proof -
  have "ops_frame (d\<lparr>user_mem := x\<rparr>) = (ops_frame d)\<lparr>user_mem := x\<rparr>"
    "ops_frame (d\<lparr>state := y\<rparr>) = (ops_frame d)\<lparr>state := y\<rparr>" for d
    by (simp_all add: ops_frame_def)
  then show "same_but_ops (upd_inst (\<lambda>d. d\<lparr>user_mem := x\<rparr>) st) (upd_inst (\<lambda>d. d\<lparr>user_mem := x\<rparr>) s)"
    "same_but_ops (upd_inst (\<lambda>d. d\<lparr>state := y\<rparr>) st) (upd_inst (\<lambda>d. d\<lparr>state := y\<rparr>) s)"
    using assms by (simp_all add: same_but_ops_def)
qed

lemma cleaned_undone:
  assumes wf: "mapping_wf st" and n: "n = shared_pages (inst st)" and refs: "maps_header_refs ops st"
    and same: "same_but_ops st s" and c: "c = K_map_refs ops (use_ptemod (inst st))"
    and tr: "ktrace s = ktrace st @ [c] @ ins"
    and kept: "handles_kept (kmapped env (ktrace st)) k n (inst s)" "k_ret (kanswer env (ktrace st) c) = 0 \<and> k = n
      \<or> k_ret (kanswer env (ktrace st) c) \<noteq> 0 \<and> k = 0"
    and env: "env_maps env"
  shows "\<exists>st'. clean env s = Some (- EFAULT, st') \<and> mmap_undone env [] ops ins st st'
    \<and> same_but_ops (upd_inst (\<lambda>d. d\<lparr>user_mem := None\<rparr>) s) st'"
proof -
  let ?res = "kmapped env (ktrace st)"
  have wfs: "mapping_wf s" by (rule mapping_wf_same [OF wf same])
  note fld = same_but_ops_fields [OF same]
  obtain st' where cl: "clean env s = Some (- EFAULT, st')"
      "same_but_ops (upd_inst (\<lambda>d. d\<lparr>user_mem := None\<rparr>) s) st'"
      "ktrace st' = ktrace s @ unmap_calls (inst s) (mapped_pages (inst s) 0 n) @ [K_free_ballooned n]"
      "mapped_pages (inst st') 0 n = []"
    using clean_run [OF wfs, of n env] n fld(9) by auto
  have ok: "fst (?res i) = 0 \<Longrightarrow> snd (?res i) \<noteq> NO_HANDLE" for i using env by (simp add: env_maps_def)
  have mp: "mapped_pages (inst s) 0 n = filter (\<lambda>i. k_ret (kanswer env (ktrace st) c) = 0 \<and> fst (?res i) = 0) [0..<n]"
    unfolding mapped_pages_def using kept ok by (intro filter_cong) (auto simp: handles_kept_def)
  have "state (inst st') = state (inst st)" "user_mem (inst st') = None"
    using same_but_ops_fields(1,4) [OF cl(2)] fld(1) by simp_all
  moreover have "ktrace st' = ktrace st @ [c] @ ins
      @ map (\<lambda>i. K_unmap_refs i (unmap_ops (inst s) ! i) (use_ptemod (inst st)))
          (filter (\<lambda>i. k_ret (kanswer env (ktrace st) c) = 0 \<and> fst (?res i) = 0) [0..<n]) @ [K_free_ballooned n]"
    using cl(3) tr by (simp add: mp unmap_calls_def fld(3))
  moreover have "\<forall>i < n. k_ret (kanswer env (ktrace st) c) = 0 \<and> fst (?res i) = 0 \<longrightarrow>
      uo_handle (unmap_ops (inst s) ! i) = snd (?res i)"
    using kept by (auto simp: handles_kept_def)
  ultimately have "mmap_undone env [] ops ins st st'"
    unfolding mmap_undone_def Let_def n [symmetric] append_Nil2 c [symmetric] using refs cl(4) by blast
  then show ?thesis using cl(1,2) by blast
qed

text \<open>Both outcomes of mapping the pages of a receiver, when all the operations are built.\<close>

definition map_post :: "kenv \<Rightarrow> vm_area_struct \<Rightarrow> gnttab_map_grant_ref list \<Rightarrow> shm_st \<Rightarrow> int \<Rightarrow> shm_st \<Rightarrow> bool" where
  "map_post env v ops st r st' \<longleftrightarrow>
     r = 0 \<and> mmap_done env v [] ops st st'
        \<and> same_but_ops (upd_inst (\<lambda>d. d\<lparr>state := XEN_SHM_STATE_RECEIVER_MAPPED\<rparr>) st) st'
   \<or> r = - EFAULT \<and> (\<exists>ins. mmap_undone env [] ops ins st st')
        \<and> same_but_ops (upd_inst (\<lambda>d. d\<lparr>user_mem := None\<rparr>) st) st'"

lemma cleaned_post:
  assumes "mapping_wf st" "n = shared_pages (inst st)" "maps_header_refs ops st" "same_but_ops st s"
    and "c = K_map_refs ops (use_ptemod (inst st))" "ktrace s = ktrace st @ [c] @ ins"
    and "handles_kept (kmapped env (ktrace st)) k n (inst s)" "k_ret (kanswer env (ktrace st) c) = 0 \<and> k = n
      \<or> k_ret (kanswer env (ktrace st) c) \<noteq> 0 \<and> k = 0" "env_maps env"
  shows "\<exists>r st'. clean env s = Some (r, st') \<and> map_post env v ops st r st'"
  using cleaned_undone [OF assms] same_but_ops_trans [OF same_but_ops_upd(1) [OF assms(4)]]
  unfolding map_post_def by metis

lemma insert_stage:
  assumes "mapping_wf st" "n = shared_pages (inst st)"
  obtains err st' q where "(if \<not> use_ptemod (inst st) then insert_pages env start [0..<n] st else Some (0, st)) = Some (err, st')"
    "inst st' = inst st" "meta st' = meta st" "ktrace st' = ktrace st @ q"
    "err = 0 \<longrightarrow> q = (if use_ptemod (inst st) then [] else insert_calls start (inst st) [0..<n])"
proof -
  have "i < length (user_pages (inst st))" if "i \<in> set [0..<n]" for i
    using assms that by (simp add: mapping_wf_def)
  from insert_pages_run [OF this, where env = env and start = start] that show ?thesis
    by (cases "use_ptemod (inst st)") fastforce+
qed

text \<open>All pages are mapped; they are inserted into the process if need be.\<close>

lemma map_receiver_tail:
  assumes wf: "mapping_wf st" and n: "n = shared_pages (inst st)" and refs: "maps_header_refs ops st"
    and same: "same_but_ops st s" and c: "c = K_map_refs ops (use_ptemod (inst st))" and tr: "ktrace s = ktrace st @ [c]"
    and kept: "handles_kept (kmapped env (ktrace st)) n n (inst s)" and c0: "k_ret (kanswer env (ktrace st) c) = 0"
    and ok: "\<forall>i < n. fst (kmapped env (ktrace st) i) = 0" and v: "user_mem (inst st) = Some v" and env: "env_maps env"
  shows "\<exists>r st'. Option.bind (if \<not> use_ptemod (inst s) then insert_pages env (vm_start v) [0..<n] s else Some (0, s))
      (\<lambda>(err, s). if err \<noteq> 0 then clean env s
        else Some (0, upd_inst (\<lambda>d. d\<lparr>state := XEN_SHM_STATE_RECEIVER_MAPPED\<rparr>) s)) = Some (r, st')
    \<and> map_post env v ops st r st'"
proof -
  note f = same_but_ops_fields [OF same]
  have "n = shared_pages (inst s)" using f(9) n by simp
  then obtain err t q where ins: "(if \<not> use_ptemod (inst s) then insert_pages env (vm_start v) [0..<n] s else Some (0, s))
      = Some (err, t)" "inst t = inst s" "meta t = meta s" "ktrace t = ktrace s @ q"
      "err = 0 \<longrightarrow> q = (if use_ptemod (inst s) then [] else insert_calls (vm_start v) (inst s) [0..<n])"
    by (rule insert_stage [OF mapping_wf_same [OF wf same], of n env "vm_start v"])
  have samet: "same_but_ops st t" using same ins(2,3) by (simp add: same_but_ops_def)
  show ?thesis
  proof (cases "err = 0")
    case False
    have "ktrace t = ktrace st @ [c] @ q" "handles_kept (kmapped env (ktrace st)) n n (inst t)"
      using tr kept ins(2,4) by simp_all
    from cleaned_post [OF wf n refs samet c this _ env] c0 False ins(1) show ?thesis by simp
  next
    case True
    let ?t = "upd_inst (\<lambda>d. d\<lparr>state := XEN_SHM_STATE_RECEIVER_MAPPED\<rparr>) t"
    have "user_mem (inst t) = Some v" using same_but_ops_fields(4) [OF samet] v by simp
    then have "mmap_done env v [] ops st ?t"
      using refs ok kept tr ins(2,4,5) True f(3)
      by (simp add: mmap_done_def Let_def n [symmetric] handles_kept_def c insert_calls_def)
    then have "map_post env v ops st 0 ?t" using same_but_ops_upd(2) [OF samet] by (simp add: map_post_def)
    then show ?thesis unfolding ins(1) using True by simp
  qed
qed

lemma map_receiver_pages_run:
  assumes wf: "mapping_wf st" and built: "ops_built (shared_pages (inst st)) st"
    and v: "user_mem (inst st) = Some v" and env: "env_maps env"
  shows "\<exists>r st' ops. map_receiver_pages env v st = Some (r, st') \<and> map_post env v ops st r st'"
proof -
  define n where "n = shared_pages (inst st)"
  define ops where "ops = take n (map_ops (inst st))"
  define c where "c = K_map_refs ops (use_ptemod (inst st))"
  let ?res = "kmapped env (ktrace st)"
  obtain err st1 where mr: "gnttab_map_refs env st = (err, st1)" by fastforce
  note mrr = map_refs_run [OF mr wf, folded n_def, folded ops_def, folded c_def]
  have refs: "maps_header_refs ops st"
    using built wf by (auto simp: maps_header_refs_def ops_built_def ops_def n_def [symmetric] mapping_wf_def)
  have wf1: "mapping_wf st1" by (rule mapping_wf_same [OF wf mrr(3)])
  have n1: "n = shared_pages (inst st1)" using same_but_ops_fields(9) [OF mrr(3)] n_def by simp
  have kept0: "handles_kept ?res 0 n (inst st1)"
    using built mrr(4) by (auto simp: handles_kept_def ops_built_def n_def)
  note undone = cleaned_post [OF wf n_def refs _ c_def _ _ _ env]
  show ?thesis
  proof (cases "err = 0")
    case False
    then have "map_receiver_pages env v st = clean env st1" using mr by (simp add: map_receiver_pages_def)
    with undone [OF mrr(3) _ kept0, of "[]"] mrr(1,2) False show ?thesis by fastforce
  next
    case e0: True
    obtain err2 st2 where ck: "for_each check_map_op [0..<n] (0, st1) = Some (err2, st2)" "same_but_ops st1 st2"
        "ktrace st2 = ktrace st1" "handles_kept ?res n n (inst st2)" "err2 = 0 \<longleftrightarrow> (\<forall>i < n. fst (?res i) = 0)"
      using check_map_ops_run [OF wf1 n1 kept0] mrr(5,6) by blast
    have same2: "same_but_ops st st2" by (rule same_but_ops_trans [OF mrr(3) ck(2)])
    have tr2: "ktrace st2 = ktrace st @ [c]" and k0: "k_ret (kanswer env (ktrace st) c) = 0"
      using e0 mrr(1,2) ck(3) by simp_all
    show ?thesis
    proof (cases "err2 = 0")
      case False
      then have "map_receiver_pages env v st = clean env st2" using mr e0 ck(1) n1 by (simp add: map_receiver_pages_def)
      with undone [OF same2 _ ck(4), of "[]"] tr2 k0 show ?thesis by fastforce
    next
      case True
      have n2: "shared_pages (inst st2) = n" using same_but_ops_fields(9) [OF same2] n_def by simp
      have ok: "\<forall>i < n. fst (?res i) = 0" using ck(5) True by simp
      from map_receiver_tail [OF wf n_def refs same2 c_def tr2 ck(4) k0 ok v env]
      show ?thesis using mr e0 ck(1) True n1 [symmetric] n2 by (auto simp: map_receiver_pages_def)
    qed
  qed
qed

lemma mmap_outcome_shift:
  assumes "ktrace st = ktrace st0 @ pre" "shared_pages (inst st) = shared_pages (inst st0)" "meta st = meta st0"
    "distant_domid (inst st) = distant_domid (inst st0)" "use_ptemod (inst st) = use_ptemod (inst st0)"
    "state (inst st) = state (inst st0)"
  shows "mmap_done env v [] ops st st' \<Longrightarrow> mmap_done env v pre ops st0 st'"
    "mmap_undone env [] ops ins st st' \<Longrightarrow> mmap_undone env pre ops ins st0 st'"
  using assms by (simp_all add: mmap_done_def mmap_undone_def maps_header_refs_def Let_def)

text \<open>Given up before the mapping call: the ballooned pages are handed back.\<close>

definition mmap_given_up :: "shm_st \<Rightarrow> shm_st \<Rightarrow> bool" where
  "mmap_given_up st st' \<longleftrightarrow> (\<exists>pre. ktrace st' = ktrace st @ pre @ [K_free_ballooned (shared_pages (inst st))]
     \<and> (\<forall>ops pt. K_map_refs ops pt \<notin> set pre) \<and> state (inst st') = state (inst st) \<and> user_mem (inst st') = None)"

lemma shm_inv_mmap:
  assumes "shm_inv st" "state (inst st) = XEN_SHM_STATE_RECEIVER" "meta st' = meta st"
    and "shared_memory (inst st') = shared_memory (inst st)" "pages_count (inst st') = pages_count (inst st)"
    "unmapped_area (inst st') = unmapped_area (inst st)" "length (map_ops (inst st')) = 128"
    "length (unmap_ops (inst st')) = 128" "length (kmap_ops (inst st')) = 128"
    and "state (inst st') = XEN_SHM_STATE_RECEIVER \<or> state (inst st') = XEN_SHM_STATE_RECEIVER_MAPPED
      \<and> user_mem (inst st') = Some v \<and> page_range v (shared_pages (inst st))"
  shows "shm_inv st'"
  using assms by (auto simp: shm_inv_def page_range_def shared_pages_def)

lemma given_up_run:
  assumes inv: "shm_inv st" "state (inst st) = XEN_SHM_STATE_RECEIVER" and wf: "length (map_ops (inst s)) = 128"
    "length (unmap_ops (inst s)) = 128" "length (kmap_ops (inst s)) = 128"
    and same: "meta s = meta st" "shared_memory (inst s) = shared_memory (inst st)"
    "pages_count (inst s) = pages_count (inst st)" "unmapped_area (inst s) = unmapped_area (inst st)"
    "state (inst s) = state (inst st)"
    and tr: "ktrace s = ktrace st @ pre" "\<forall>ops pt. K_map_refs ops pt \<notin> set pre"
  shows "\<exists>st'. clean_pages env s = (- EFAULT, st') \<and> shm_inv st' \<and> mmap_given_up st st'"
proof -
  define st' where "st' = snd (clean_pages env s)"
  have st': "clean_pages env s = (- EFAULT, st')" "inst st' = (inst s)\<lparr>user_mem := None\<rparr>"
      "meta st' = meta s" "ktrace st' = ktrace s @ [K_free_ballooned (shared_pages (inst st))]"
    using same(3) by (simp_all add: st'_def clean_pages_def Let_def split_beta shared_pages_def)
  have "shm_inv st'" by (rule shm_inv_mmap [OF inv]) (use st' same wf inv in simp_all)
  moreover have "mmap_given_up st st'" using st' same tr by (auto simp: mmap_given_up_def)
  ultimately show ?thesis using st'(1) by blast
qed

text \<open>The operations are built in the state \<open>s\<close>; what is reached from there, seen from the start of the call.\<close>

lemma mapped_run:
  assumes inv: "shm_inv st" and rcv: "state (inst st) = XEN_SHM_STATE_RECEIVER" and env: "env_maps env"
    and v: "user_mem (inst s) = Some v" "page_range v (shared_pages (inst st))"
    and wf: "mapping_wf s" "ops_built (shared_pages (inst s)) s"
    and base: "meta s = meta st" "shared_memory (inst s) = shared_memory (inst st)"
      "pages_count (inst s) = pages_count (inst st)" "unmapped_area (inst s) = unmapped_area (inst st)"
      "state (inst s) = state (inst st)" "shared_pages (inst s) = shared_pages (inst st)"
      "distant_domid (inst s) = distant_domid (inst st)" "use_ptemod (inst s) = use_ptemod (inst st)"
      "ktrace s = ktrace st @ pre"
  shows "\<exists>r st'. map_receiver_pages env v s = Some (r, st') \<and> shm_inv st'
    \<and> (r = 0 \<and> (\<exists>ops. mmap_done env v pre ops st st') \<or> r = - EFAULT \<and> (\<exists>ops ins. mmap_undone env pre ops ins st st'))"
proof -
  obtain r st' ops where run: "map_receiver_pages env v s = Some (r, st')" "map_post env v ops s r st'"
    using map_receiver_pages_run [OF wf v(1) env] by blast
  note shift = mmap_outcome_shift [OF base(9,6,1,7,8,5)]
  from run(2) consider
    "r = 0" "mmap_done env v [] ops s st'" "same_but_ops (upd_inst (\<lambda>d. d\<lparr>state := XEN_SHM_STATE_RECEIVER_MAPPED\<rparr>) s) st'"
  | ins where "r = - EFAULT" "mmap_undone env [] ops ins s st'" "same_but_ops (upd_inst (\<lambda>d. d\<lparr>user_mem := None\<rparr>) s) st'"
    unfolding map_post_def by blast
  then show ?thesis
  proof cases
    case 1
    have "shm_inv st'"
      by (rule shm_inv_mmap [OF inv rcv, where v = v])
        (use 1(3) same_but_ops_fields [OF 1(3)] base wf(1) v in \<open>auto simp: same_but_ops_def mapping_wf_def\<close>)
    with 1 run(1) shift(1) show ?thesis by blast
  next
    case 2
    have "shm_inv st'"
      by (rule shm_inv_mmap [OF inv rcv, where v = v])
        (use 2(3) same_but_ops_fields [OF 2(3)] base wf(1) rcv in \<open>auto simp: same_but_ops_def mapping_wf_def\<close>)
    with 2 run(1) shift(2) show ?thesis by blast
  qed
qed

lemma receiver_mmap_run:
  assumes inv: "shm_inv st" and rcv: "state (inst st) = XEN_SHM_STATE_RECEIVER" and env: "env_maps env"
    and v: "\<not> (vm_write v \<and> \<not> vm_shared v)" "page_range v (shared_pages (inst st))"
  shows "\<exists>r st'. xen_shm_mmap env v st = Some (r, st') \<and> shm_inv st'
    \<and> (r = 0 \<and> (\<exists>pre ops. mmap_done env v pre ops st st')
       \<or> r = - EFAULT \<and> (mmap_given_up st st' \<or> (\<exists>pre ops ins. mmap_undone env pre ops ins st st')))"
proof -
  let ?n = "shared_pages (inst st)"
  let ?c = "K_alloc_ballooned ?n"
  have size: "(vm_end v - vm_start v) div PAGE_SIZE = ?n" using v(2) by (simp add: page_range_def)
  define st1 where "st1 = snd (kdo env ?c st)"
  define st2 where "st2 = upd_inst (\<lambda>d. d\<lparr>user_pages := kballoon env (ktrace st), user_mem := Some v\<rparr>) st1"
  have call: "xen_shm_mmap env v st = (if k_ret (kanswer env (ktrace st) ?c) \<noteq> 0 then Some (clean_pages env st1)
      else do { (err, s) \<leftarrow> construct_ops env v st2; if err \<noteq> 0 then Some (clean_pages env s)
        else map_receiver_pages env v s })"
    using rcv v(1) size by (auto simp: xen_shm_mmap_def st1_def st2_def Let_def split_beta)
  have n128: "?n < 128" using inv rcv by (auto simp: shm_inv_def shared_pages_def)
  have wf2: "mapping_wf st2"
    using inv rcv n128 env by (auto simp: mapping_wf_def st2_def st1_def shm_inv_def shared_pages_def env_maps_def)
  have um2: "user_mem (inst st2) = Some v" "page_range v (shared_pages (inst st2))"
    using v(2) by (simp_all add: st2_def st1_def shared_pages_def)
  have len: "length (map_ops (inst st)) = 128" "length (unmap_ops (inst st)) = 128" "length (kmap_ops (inst st)) = 128"
    using inv by (auto simp: shm_inv_def)
  show ?thesis
  proof (cases "k_ret (kanswer env (ktrace st) ?c) = 0")
    case False
    then show ?thesis
      using given_up_run [OF inv rcv, of st1 "[?c]" env] call len by (auto simp: st1_def)
  next
    case c0: True
    obtain err s h where cs: "construct_ops env v st2 = Some (err, s)" "same_but_ops st2 s" "ktrace s = ktrace st2 @ h"
        "h = (if use_ptemod (inst st2) then [K_apply_to_page_range (vm_start v) (vm_end v - vm_start v)] else [])"
        "err = 0 \<longrightarrow> ops_built (shared_pages (inst st2)) s"
      using construct_ops_run [OF wf2 um2, of env] by blast
    note f = same_but_ops_fields [OF cs(2)]
    have wfs: "mapping_wf s" by (rule mapping_wf_same [OF wf2 cs(2)])
    have base: "meta s = meta st" "shared_memory (inst s) = shared_memory (inst st)"
        "pages_count (inst s) = pages_count (inst st)" "unmapped_area (inst s) = unmapped_area (inst st)"
        "state (inst s) = state (inst st)" "shared_pages (inst s) = ?n" "distant_domid (inst s) = distant_domid (inst st)"
        "use_ptemod (inst s) = use_ptemod (inst st)" "ktrace s = ktrace st @ ?c # h"
      using f cs(3) by (simp_all add: st2_def st1_def shared_pages_def)
    show ?thesis
    proof (cases "err = 0")
      case False
      have "\<forall>ops pt. K_map_refs ops pt \<notin> set (?c # h)" using cs(4) by auto
      with False show ?thesis
        using given_up_run [OF inv rcv _ _ _ base(1-5,9), of env] wfs call c0 cs(1) by (auto simp: mapping_wf_def)
    next
      case True
      have "ops_built (shared_pages (inst s)) s" using cs(5) True f(9) by simp
      from mapped_run [OF inv rcv env _ v(2) wfs this base] f(4) um2(1) call c0 cs(1) True
      show ?thesis by fastforce
    qed
  qed
qed

section \<open>Properties\<close>

text \<open>C24.  The \<^verbatim>\<open>mmap\<close> of the device on a range of whole pages.  A private writable mapping, a range of the
  wrong size, an instance that is fresh and a receiver that is already mapped are refused without an effect.  An
  offerer maps its memory from the page after the header page on, with the size of the shared pages.  A receiver
  asks to map exactly the pages that the header page names, from the other domain, in one call.  When that
  succeeds, each page keeps the handle the hypervisor gave for it, the pages are inserted in the process in
  order unless the hypervisor changed the page table itself, and the receiver is mapped.  Otherwise the receiver
  stays a receiver without a user mapping: each page that was mapped is unmapped once with its own handle,
  and the ballooned pages are handed back.  The call never touches memory out of bounds and keeps the
  invariant.\<close>

theorem mmap_outcome:
  assumes "shm_inv st" "env_maps env" "vm_end v = vm_start v + k * PAGE_SIZE"
  defines "n \<equiv> shared_pages (inst st)"
  shows "\<exists>r st'. xen_shm_mmap env v st = Some (r, st') \<and> shm_inv st' \<and>
    (if vm_write v \<and> \<not> vm_shared v \<or> state (inst st) = XEN_SHM_STATE_OPENED
        \<or> state (inst st) = XEN_SHM_STATE_RECEIVER_MAPPED \<or> k \<noteq> n
     then r < 0 \<and> st' = st
     else if state (inst st) = XEN_SHM_STATE_OFFERER
     then st' = st\<lparr>ktrace := ktrace st @ [K_remap_pfn_range (vm_start v) (shared_memory (inst st) + PAGE_SIZE) (n * PAGE_SIZE)]\<rparr>
     else r = 0 \<and> (\<exists>pre ops. mmap_done env v pre ops st st')
       \<or> r = - EFAULT \<and> (mmap_given_up st st' \<or> (\<exists>pre ops ins. mmap_undone env pre ops ins st st')))"
proof (cases "vm_write v \<and> \<not> vm_shared v \<or> state (inst st) = XEN_SHM_STATE_OPENED
    \<or> state (inst st) = XEN_SHM_STATE_RECEIVER_MAPPED \<or> k \<noteq> n")
  case True
  then have "\<exists>r < 0. xen_shm_mmap env v st = Some (r, st)"
    using assms(3) by (cases "state (inst st)") (auto simp: xen_shm_mmap_def n_def)
  with True assms(1) show ?thesis by auto
next
  case ok: False
  show ?thesis
  proof (cases "state (inst st) = XEN_SHM_STATE_OFFERER")
    case True
    let ?st' = "st\<lparr>ktrace := ktrace st @ [K_remap_pfn_range (vm_start v) (shared_memory (inst st) + PAGE_SIZE) (n * PAGE_SIZE)]\<rparr>"
    have "shm_inv ?st'" using assms(1) by (simp add: shm_inv_def)
    moreover have "\<exists>r. xen_shm_mmap env v st = Some (r, ?st')"
      using True ok assms(3) by (auto simp: xen_shm_mmap_def n_def kdo_def)
    ultimately show ?thesis using True ok by auto
  next
    case False
    then have rcv: "state (inst st) = XEN_SHM_STATE_RECEIVER" using ok by (cases "state (inst st)") auto
    have range: "page_range v (shared_pages (inst st))" using ok assms(3) by (simp add: page_range_def n_def)
    have shared: "\<not> (vm_write v \<and> \<not> vm_shared v)" using ok by blast
    show ?thesis
      unfolding if_not_P [OF ok] if_not_P [OF False] by (rule receiver_mmap_run [OF assms(1) rcv assms(2) shared range])
  qed
qed

theorem mmap_outcome_witness:
  "\<exists>r st'. xen_shm_mmap small_kenv \<lparr>vm_start = 16384, vm_end = 24576, vm_write = True, vm_shared = True\<rparr>
      (small_shm XEN_SHM_STATE_RECEIVER) = Some (r, st') \<and> shm_inv st' \<and> (r = 0 \<or> r = - EFAULT)"
proof -
  have inv: "shm_inv (small_shm XEN_SHM_STATE_RECEIVER)" "env_maps small_kenv"
    by (simp_all add: shm_inv_def small_shm_def small_inst_def small_meta_def env_maps_def small_kenv_def)
  have "shared_pages (inst (small_shm XEN_SHM_STATE_RECEIVER)) = 2" "state (inst (small_shm XEN_SHM_STATE_RECEIVER)) = XEN_SHM_STATE_RECEIVER"
    by (simp_all add: small_shm_def shared_pages_def)
  with mmap_outcome [OF inv, of "\<lparr>vm_start = 16384, vm_end = 24576, vm_write = True, vm_shared = True\<rparr>" 2]
  show ?thesis by auto
qed

end
