(* ===== verification/Shm_Dispatch.thy ===== *)
theory Shm_Dispatch
  imports Shm_Wait Shm_Mmap
begin

text \<open>
  The \<^verbatim>\<open>ioctl\<close> operation of the device: decoding the command, copying the argument from and to
  the process, and calling the helper.
\<close>

section \<open>Definitions\<close>

text \<open>The encoding of commands by \<^verbatim>\<open>linux/ioctl.h\<close>: the direction in bits 30 and 31, the size of
  the argument in bits 16 to 29, the type in bits 8 to 15, the number below.\<close>

definition IOC :: "u32 \<Rightarrow> u32 \<Rightarrow> u32 \<Rightarrow> u32 \<Rightarrow> u32" where
  "IOC dir type nr sz = push_bit 30 dir OR push_bit 8 type OR nr OR push_bit 16 sz"

definition IOC_TYPE :: "u32 \<Rightarrow> u32" where "IOC_TYPE cmd = drop_bit 8 cmd AND 0xFF"
definition IOC_SIZE :: "u32 \<Rightarrow> u32" where "IOC_SIZE cmd = drop_bit 16 cmd AND 0x3FFF"
definition IOC_DIR :: "u32 \<Rightarrow> u32" where "IOC_DIR cmd = drop_bit 30 cmd AND 3"

abbreviation (input) IOC_NONE :: u32 where "IOC_NONE \<equiv> 0"
abbreviation (input) IOC_WRITE :: u32 where "IOC_WRITE \<equiv> 1"
abbreviation (input) IOC_READ :: u32 where "IOC_READ \<equiv> 2"

text \<open>The sizes of the argument structures with the alignment of a 64 bit machine.\<close>

abbreviation (input) sizeof_offerer :: nat where "sizeof_offerer \<equiv> 12"
abbreviation (input) sizeof_receiver :: nat where "sizeof_receiver \<equiv> 8"
abbreviation (input) sizeof_await :: nat where "sizeof_await \<equiv> 24"
abbreviation (input) sizeof_getdomid :: nat where "sizeof_getdomid \<equiv> 2"

definition XEN_SHM_IOCTL_INIT_OFFERER :: u32 where
  "XEN_SHM_IOCTL_INIT_OFFERER = IOC (IOC_READ OR IOC_WRITE) (of_nat XEN_SHM_MAGIC_NUMBER) 1 (of_nat sizeof_offerer)"
definition XEN_SHM_IOCTL_INIT_RECEIVER :: u32 where
  "XEN_SHM_IOCTL_INIT_RECEIVER = IOC IOC_WRITE (of_nat XEN_SHM_MAGIC_NUMBER) 2 (of_nat sizeof_receiver)"
definition XEN_SHM_IOCTL_WAIT :: u32 where
  "XEN_SHM_IOCTL_WAIT = IOC IOC_NONE (of_nat XEN_SHM_MAGIC_NUMBER) 3 0"
definition XEN_SHM_IOCTL_AWAIT :: u32 where
  "XEN_SHM_IOCTL_AWAIT = IOC (IOC_READ OR IOC_WRITE) (of_nat XEN_SHM_MAGIC_NUMBER) 4 (of_nat sizeof_await)"
definition XEN_SHM_IOCTL_SSIG :: u32 where
  "XEN_SHM_IOCTL_SSIG = IOC IOC_NONE (of_nat XEN_SHM_MAGIC_NUMBER) 5 0"
definition XEN_SHM_IOCTL_GET_DOMID :: u32 where
  "XEN_SHM_IOCTL_GET_DOMID = IOC IOC_READ (of_nat XEN_SHM_MAGIC_NUMBER) 6 (of_nat sizeof_getdomid)"

text \<open>The memory of the process at the argument pointer, read as each of the structures; and what the ioctl
  writes there.\<close>

record user_view =
  uv_offerer :: xen_shm_ioctlarg_offerer
  uv_receiver :: xen_shm_ioctlarg_receiver
  uv_await :: xen_shm_ioctlarg_await

datatype user_out =
    U_nothing
  | U_offerer xen_shm_ioctlarg_offerer
  | U_receiver xen_shm_ioctlarg_receiver
  | U_await xen_shm_ioctlarg_await
  | U_getdomid u16

definition copy_to_user :: "kenv \<Rightarrow> nat \<Rightarrow> user_out \<Rightarrow> shm_st \<Rightarrow> int \<times> user_out \<times> shm_st" where
  "copy_to_user env sz out st =
    (let (a, st) = kdo env (K_copy_to_user sz) st
     in if k_ret a \<noteq> 0 then (- EFAULT, U_nothing, st) else (0, out, st))"

definition test_access :: "kenv \<Rightarrow> u32 \<Rightarrow> shm_st \<Rightarrow> bool \<times> shm_st" where
  "test_access env cmd st =
    (if flag_set (IOC_DIR cmd) IOC_READ
     then let (a, st) = kdo env (K_access_ok True (unat (IOC_SIZE cmd))) st in (k_ret a = 0, st)
     else if flag_set (IOC_DIR cmd) IOC_WRITE
     then let (a, st) = kdo env (K_access_ok False (unat (IOC_SIZE cmd))) st in (k_ret a = 0, st)
     else (False, st))"

definition ioctl_init_offerer :: "kenv \<Rightarrow> user_view \<Rightarrow> shm_st \<Rightarrow> (int \<times> user_out \<times> shm_st) option" where
  "ioctl_init_offerer env u st =
    (let (a, st) = kdo env (K_copy_from_user sizeof_offerer) st
     in if k_ret a \<noteq> 0 then Some (- EFAULT, U_nothing, st)
     else do {
       (retval, karg, st) \<leftarrow> xen_shm_ioctl_init_offerer env (uv_offerer u) st;
       if retval \<noteq> 0 then Some (retval, U_nothing, st)
       else Some (copy_to_user env sizeof_offerer (U_offerer karg) st)
     })"

definition ioctl_init_receiver :: "kenv \<Rightarrow> user_view \<Rightarrow> shm_st \<Rightarrow> (int \<times> user_out \<times> shm_st) option" where
  "ioctl_init_receiver env u st =
    (let (a, st) = kdo env (K_copy_from_user sizeof_receiver) st
     in if k_ret a \<noteq> 0 then Some (- EFAULT, U_nothing, st)
     else do {
       (retval, st) \<leftarrow> xen_shm_ioctl_init_receiver env (uv_receiver u) st;
       if retval \<noteq> 0 then Some (retval, U_nothing, st)
       else Some (copy_to_user env sizeof_receiver (U_receiver (uv_receiver u)) st)
     })"

definition ioctl_await ::
  "kenv \<Rightarrow> user_view \<Rightarrow> (nat \<times> wait_ev) list \<Rightarrow> shm_st \<Rightarrow> (int \<times> user_out \<times> shm_st) option" where
  "ioctl_await env u evs st =
    (let (a, st) = kdo env (K_copy_from_user sizeof_await) st
     in if k_ret a \<noteq> 0 then Some (- EFAULT, U_nothing, st)
     else do {
       (retval, karg, st) \<leftarrow> xen_shm_ioctl_await env evs (uv_await u) st;
       if retval \<noteq> 0 then Some (retval, U_nothing, st)
       else Some (copy_to_user env sizeof_await (U_await karg) st)
     })"

text \<open>\<open>junk\<close> is the content of the field \<^verbatim>\<open>timeout_ms\<close> that the command \<^verbatim>\<open>XEN_SHM_IOCTL_WAIT\<close> leaves
  uninitialised; \<open>evs\<close> are the events during a sleep.\<close>

definition ioctl_switch ::
  "kenv \<Rightarrow> user_view \<Rightarrow> u64 \<Rightarrow> (nat \<times> wait_ev) list \<Rightarrow> u32 \<Rightarrow> shm_st \<Rightarrow> (int \<times> user_out \<times> shm_st) option" where
  "ioctl_switch env u junk evs cmd st =
    (if cmd = XEN_SHM_IOCTL_INIT_OFFERER then ioctl_init_offerer env u st
     else if cmd = XEN_SHM_IOCTL_INIT_RECEIVER then ioctl_init_receiver env u st
     else if cmd = XEN_SHM_IOCTL_WAIT
     then do {
       (retval, karg, st) \<leftarrow> xen_shm_ioctl_await env evs
         \<lparr>request_flags = XEN_SHM_IOCTL_AWAIT_INIT OR XEN_SHM_IOCTL_AWAIT_USER, timeout_ms = junk, remaining_ms = 0\<rparr> st;
       Some (retval, U_nothing, st)
     }
     else if cmd = XEN_SHM_IOCTL_AWAIT then ioctl_await env u evs st
     else if cmd = XEN_SHM_IOCTL_SSIG
     then do {
       (retval, st) \<leftarrow> xen_shm_ioctl_ssig env st;
       Some (retval, U_nothing, st)
     }
     else if cmd = XEN_SHM_IOCTL_GET_DOMID
     then Some (copy_to_user env sizeof_getdomid (U_getdomid (local_domid (inst st))) st)
     else Some (- ENOTTY, U_nothing, st))"

definition xen_shm_ioctl ::
  "kenv \<Rightarrow> user_view \<Rightarrow> u64 \<Rightarrow> (nat \<times> wait_ev) list \<Rightarrow> u32 \<Rightarrow> shm_st \<Rightarrow> (int \<times> user_out \<times> shm_st) option" where
  "xen_shm_ioctl env u junk evs cmd st =
    (if IOC_TYPE cmd \<noteq> of_nat XEN_SHM_MAGIC_NUMBER then Some (- ENOTTY, U_nothing, st)
     else
       let (err, st) = test_access env cmd st
       in if err then Some (- EFAULT, U_nothing, st)
       else ioctl_switch env u junk evs cmd st)"

section \<open>Commands\<close>


lemma ioctl_commands [simp]:
  "XEN_SHM_IOCTL_INIT_OFFERER = 0xC00C5301" "XEN_SHM_IOCTL_INIT_RECEIVER = 0x40085302"
  "XEN_SHM_IOCTL_WAIT = 0x5303" "XEN_SHM_IOCTL_AWAIT = 0xC0185304" "XEN_SHM_IOCTL_SSIG = 0x5305"
  "XEN_SHM_IOCTL_GET_DOMID = 0x80025306"
  by (simp_all add: XEN_SHM_IOCTL_INIT_OFFERER_def XEN_SHM_IOCTL_INIT_RECEIVER_def XEN_SHM_IOCTL_WAIT_def
      XEN_SHM_IOCTL_AWAIT_def XEN_SHM_IOCTL_SSIG_def XEN_SHM_IOCTL_GET_DOMID_def IOC_def)

lemma test_access_simps [simp]:
  "inst (snd (test_access env cmd st)) = inst st" "meta (snd (test_access env cmd st)) = meta st"
  by (simp_all add: test_access_def split_beta)

lemma copy_to_user_simps [simp]:
  "inst (snd (snd (copy_to_user env n out st))) = inst st" "meta (snd (snd (copy_to_user env n out st))) = meta st"
  by (simp_all add: copy_to_user_def split_beta)

section \<open>The invariant\<close>

text \<open>Calls that change neither the instance nor the header page keep the invariant.\<close>

lemma shm_inv_cong: "shm_inv st \<Longrightarrow> inst st' = inst st \<Longrightarrow> meta st' = meta st \<Longrightarrow> shm_inv st'"
  by (simp add: shm_inv_def)

lemma shm_inv_kdo [simp]: "shm_inv (snd (kdo env c st)) = shm_inv st"
  by (simp add: shm_inv_def)

text \<open>The fields of an instance that the invariant reads.\<close>

definition inv_view :: "xen_shm_instance_data \<Rightarrow> _" where
  "inv_view d = (length (map_ops d), length (unmap_ops d), length (kmap_ops d), state d, shared_memory d,
     pages_count d, unmapped_area d, user_mem d)"

lemma shm_inv_view:
  assumes "shm_inv st" "inv_view (inst st') = inv_view (inst st)"
    and "map_option (\<lambda>m. length (grant_refs m)) (meta st') = map_option (\<lambda>m. length (grant_refs m)) (meta st)"
  shows "shm_inv st'"
proof -
  have "(\<exists>m. meta s = Some m \<and> length (grant_refs m) = 128)
      \<longleftrightarrow> map_option (\<lambda>m. length (grant_refs m)) (meta s) = Some 128" for s :: shm_st by auto
  then have "(\<exists>m. meta st' = Some m \<and> length (grant_refs m) = 128) \<longleftrightarrow> (\<exists>m. meta st = Some m \<and> length (grant_refs m) = 128)"
    by (simp only: assms(3))
  with assms(1,2) show ?thesis by (simp add: shm_inv_def inv_view_def)
qed

lemma event_handler_view [simp]:
  "inv_view (inst (xen_shm_event_handler env st)) = inv_view (inst st)"
  "meta (xen_shm_event_handler env st) = meta st"
  by (simp_all add: xen_shm_event_handler_def Let_def inv_view_def)

text \<open>A peer writes to the header page only within its fields.\<close>

definition peer_writes_fields :: "(xen_shm_meta_page_data \<Rightarrow> xen_shm_meta_page_data) \<Rightarrow> bool" where
  "peer_writes_fields f \<longleftrightarrow> (\<forall>m. length (grant_refs (f m)) = length (grant_refs m))"

definition events_wf :: "(nat \<times> wait_ev) list \<Rightarrow> bool" where
  "events_wf evs \<longleftrightarrow> (\<forall>dt f. (dt, Ev_peer f) \<in> set evs \<longrightarrow> peer_writes_fields f)"

definition header_size :: "shm_st \<Rightarrow> nat option" where
  "header_size st = map_option (\<lambda>m. length (grant_refs m)) (meta st)"

lemma await_view:
  assumes inv: "shm_inv st" and evs: "events_wf evs" and call: "xen_shm_ioctl_await env evs arg st = Some (r, arg', st')"
  shows "inv_view (inst st') = inv_view (inst st) \<and> header_size st' = header_size st"
  using inv call
proof (cases rule: await_cases)
  case (slept m w st1 m1)
  have "inv_view (inst st1) = inv_view (inst st) \<and> header_size st1 = header_size st"
  proof (rule wait_event_invariant [OF slept(5)])
    show "inv_view (inst (await_entry (request_flags arg) m st)) = inv_view (inst st)
        \<and> header_size (await_entry (request_flags arg) m st) = header_size st"
      using slept(2) by (simp add: await_entry_def inv_view_def header_size_def)
  next
    fix s dt f
    assume "(dt, Ev_peer f) \<in> set evs" "inv_view (inst s) = inv_view (inst st) \<and> header_size s = header_size st"
    then show "inv_view (inst (s\<lparr>meta := map_option f (meta s)\<rparr>)) = inv_view (inst st)
        \<and> header_size (s\<lparr>meta := map_option f (meta s)\<rparr>) = header_size st"
      using evs by (auto simp: events_wf_def peer_writes_fields_def header_size_def option.map_comp o_def
          cong: option.map_cong)
  qed (simp add: header_size_def)
  moreover have "inv_view (inst st') = inv_view (inst st1)"
    using slept(6,7) by (auto simp: await_finish_def unlock_and_return_def inc_mutex_def upd_meta_def Let_def inv_view_def
        split: if_splits)
  moreover have "header_size st' = header_size st1"
    using await_finish_run(2) [OF slept(7,6)] slept(6) by (auto simp: header_size_def)
  ultimately show ?thesis by simp
qed simp_all

lemma ssig_frame:
  "xen_shm_ioctl_ssig env st = Some (r, st') \<Longrightarrow> inst st' = inst st \<and> meta st' = meta st"
  by (auto simp: xen_shm_ioctl_ssig_def bind_eq_Some_conv split: if_splits)

text \<open>How an ioctl may change the state: not at all, or from fresh to \<open>s\<close>.\<close>

definition becomes :: "xen_shm_state_t \<Rightarrow> shm_st \<Rightarrow> shm_st \<Rightarrow> bool" where
  "becomes s st st' \<longleftrightarrow> state (inst st') = state (inst st) \<or> state (inst st) = XEN_SHM_STATE_OPENED \<and> state (inst st') = s"

lemma becomes_kdo [simp]:
  "becomes s (snd (kdo env c st)) st' = becomes s st st'" "becomes s st (snd (kdo env c st))"
  by (simp_all add: becomes_def)

lemma becomes_refl [simp]: "becomes s st st"
  by (simp add: becomes_def)

lemma copy_to_user_inv:
  assumes "copy_to_user env n out st = (r, out', st')" "shm_inv st"
  shows "shm_inv st'" "inst st' = inst st"
proof -
  have st': "st' = snd (snd (copy_to_user env n out st))" using assms(1) by simp
  show "inst st' = inst st" by (simp add: st')
  show "shm_inv st'" by (rule shm_inv_cong [OF assms(2)]) (simp_all add: st')
qed

lemma ioctl_init_offerer_run:
  assumes "shm_inv st" "env_pages env"
  shows "\<exists>r out st'. ioctl_init_offerer env u st = Some (r, out, st') \<and> shm_inv st'
    \<and> becomes XEN_SHM_STATE_OFFERER st st'"
proof -
  define st1 where "st1 = snd (kdo env (K_copy_from_user sizeof_offerer) st)"
  have inv1: "shm_inv st1" using assms(1) by (simp add: st1_def)
  from init_offerer_run [OF this assms(2), of "uv_offerer u"] obtain r arg' st2
    where run: "xen_shm_ioctl_init_offerer env (uv_offerer u) st1 = Some (r, arg', st2)" "shm_inv st2"
      and "r = 0 \<and> offered env (uv_offerer u) st1 arg' st2 \<or> r < 0 \<and> offer_undone env st1 st2" by blast
  then have b: "becomes XEN_SHM_STATE_OFFERER st st2"
    by (auto simp: becomes_def offered_def offer_undone_def st1_def)
  obtain q out st3 where cp: "copy_to_user env sizeof_offerer (U_offerer arg') st2 = (q, out, st3)"
    by (metis surj_pair)
  note c3 = copy_to_user_inv [OF cp run(2)]
  have "becomes XEN_SHM_STATE_OFFERER st st3" using b c3(2) by (simp add: becomes_def)
  with run b c3(1) cp inv1 show ?thesis
    by (auto simp: ioctl_init_offerer_def split_beta st1_def)
qed

lemma ioctl_init_receiver_run:
  assumes "shm_inv st" "env_pages env"
  shows "\<exists>r out st'. ioctl_init_receiver env u st = Some (r, out, st') \<and> shm_inv st'
    \<and> becomes XEN_SHM_STATE_RECEIVER st st'"
proof -
  define st1 where "st1 = snd (kdo env (K_copy_from_user sizeof_receiver) st)"
  have inv1: "shm_inv st1" using assms(1) by (simp add: st1_def)
  from init_receiver_run [OF this assms(2), of "uv_receiver u"] obtain r st2
    where run: "xen_shm_ioctl_init_receiver env (uv_receiver u) st1 = Some (r, st2)" "shm_inv st2"
      and "r = 0 \<and> joined env (uv_receiver u) st1 st2 \<or> r < 0 \<and> join_undone st1 st2" by blast
  then have b: "becomes XEN_SHM_STATE_RECEIVER st st2"
    by (auto simp: becomes_def joined_def join_undone_def st1_def)
  obtain q out st3 where cp: "copy_to_user env sizeof_receiver (U_receiver (uv_receiver u)) st2 = (q, out, st3)"
    by (metis surj_pair)
  note c3 = copy_to_user_inv [OF cp run(2)]
  have "becomes XEN_SHM_STATE_RECEIVER st st3" using b c3(2) by (simp add: becomes_def)
  with run b c3(1) cp inv1 show ?thesis
    by (auto simp: ioctl_init_receiver_def split_beta st1_def)
qed

lemma await_keeps:
  assumes "shm_inv st" "events_wf evs" "xen_shm_ioctl_await env evs arg st = Some (r, arg', st')"
  shows "shm_inv st'" "state (inst st') = state (inst st)"
proof -
  note v = await_view [OF assms]
  show "shm_inv st'" by (rule shm_inv_view [OF assms(1)]) (use v in \<open>simp_all add: header_size_def\<close>)
  show "state (inst st') = state (inst st)" using v by (simp add: inv_view_def)
qed

lemma ioctl_await_keeps:
  assumes "shm_inv st" "events_wf evs" "ioctl_await env u evs st = Some (r, out, st')"
  shows "shm_inv st' \<and> state (inst st') = state (inst st)"
proof -
  define st1 where "st1 = snd (kdo env (K_copy_from_user sizeof_await) st)"
  have inv1: "shm_inv st1" "state (inst st1) = state (inst st)" using assms(1) by (simp_all add: st1_def)
  show ?thesis
  proof (cases "k_ret (kanswer env (ktrace st) (K_copy_from_user sizeof_await)) = 0")
    case False
    then have "st' = st1" using assms(3) by (simp add: ioctl_await_def split_beta st1_def)
    then show ?thesis using inv1 by simp
  next
    case True
    then obtain q karg st2 where aw: "xen_shm_ioctl_await env evs (uv_await u) st1 = Some (q, karg, st2)"
      and fin: "(if q \<noteq> 0 then Some (q, U_nothing, st2) else Some (copy_to_user env sizeof_await (U_await karg) st2))
        = Some (r, out, st')"
      using assms(3) by (auto simp: ioctl_await_def kdo_def st1_def bind_eq_Some_conv)
    note k = await_keeps [OF inv1(1) assms(2) aw]
    show ?thesis
    proof (cases "q = 0")
      case True
      then have "copy_to_user env sizeof_await (U_await karg) st2 = (r, out, st')" using fin by simp
      from copy_to_user_inv [OF this k(1)] k(2) inv1(2) show ?thesis by simp
    next
      case False
      then have "st' = st2" using fin by simp
      then show ?thesis using k inv1(2) by simp
    qed
  qed
qed

lemma ioctl_run:
  assumes inv: "shm_inv st" and env: "env_pages env" and evs: "events_wf evs"
  shows "case xen_shm_ioctl env u junk evs cmd st of
      None \<Rightarrow> cmd = XEN_SHM_IOCTL_WAIT \<or> cmd = XEN_SHM_IOCTL_AWAIT
    | Some (r, out, st') \<Rightarrow> shm_inv st'
      \<and> (state (inst st') = state (inst st)
         \<or> state (inst st) = XEN_SHM_STATE_OPENED
           \<and> (cmd = XEN_SHM_IOCTL_INIT_OFFERER \<and> state (inst st') = XEN_SHM_STATE_OFFERER
            \<or> cmd = XEN_SHM_IOCTL_INIT_RECEIVER \<and> state (inst st') = XEN_SHM_STATE_RECEIVER))
      \<and> (cmd \<notin> {XEN_SHM_IOCTL_INIT_OFFERER, XEN_SHM_IOCTL_INIT_RECEIVER, XEN_SHM_IOCTL_WAIT, XEN_SHM_IOCTL_AWAIT,
            XEN_SHM_IOCTL_SSIG, XEN_SHM_IOCTL_GET_DOMID} \<longrightarrow> r \<in> {- ENOTTY, - EFAULT} \<and> inst st' = inst st \<and> meta st' = meta st)"
proof -
  obtain err st1 where ta: "test_access env cmd st = (err, st1)" by fastforce
  have same: "inst st1 = inst st" "meta st1 = meta st" using test_access_simps [of env cmd st] by (simp_all add: ta)
  have inv1: "shm_inv st1" by (rule shm_inv_cong [OF inv same])
  have call: "xen_shm_ioctl env u junk evs cmd st = (if IOC_TYPE cmd \<noteq> of_nat XEN_SHM_MAGIC_NUMBER then Some (- ENOTTY, U_nothing, st)
      else if err then Some (- EFAULT, U_nothing, st1) else ioctl_switch env u junk evs cmd st1)"
    by (simp add: xen_shm_ioctl_def ta)
  have st: "state (inst st1) = state (inst st)" by (simp add: same)
  consider "cmd = XEN_SHM_IOCTL_INIT_OFFERER" | "cmd = XEN_SHM_IOCTL_INIT_RECEIVER" | "cmd = XEN_SHM_IOCTL_WAIT"
    | "cmd = XEN_SHM_IOCTL_AWAIT" | "cmd = XEN_SHM_IOCTL_SSIG" | "cmd = XEN_SHM_IOCTL_GET_DOMID"
    | "cmd \<notin> {XEN_SHM_IOCTL_INIT_OFFERER, XEN_SHM_IOCTL_INIT_RECEIVER, XEN_SHM_IOCTL_WAIT, XEN_SHM_IOCTL_AWAIT,
            XEN_SHM_IOCTL_SSIG, XEN_SHM_IOCTL_GET_DOMID}" by blast
  then show ?thesis
  proof cases
    case 1
    then show ?thesis using ioctl_init_offerer_run [OF inv1 env, of u] call inv inv1 st
      by (auto simp: ioctl_switch_def becomes_def)
  next
    case 2
    then show ?thesis using ioctl_init_receiver_run [OF inv1 env, of u] call inv inv1 st
      by (auto simp: ioctl_switch_def becomes_def)
  next
    case 3
    then show ?thesis using await_keeps [OF inv1 evs] call inv inv1 st
      by (auto simp: ioctl_switch_def bind_eq_Some_conv split: option.splits)
  next
    case 4
    then show ?thesis using ioctl_await_keeps [OF inv1 evs] call inv inv1 st
      by (auto simp: ioctl_switch_def split: option.splits)
  next
    case 5
    have "\<exists>r st'. xen_shm_ioctl_ssig env st1 = Some (r, st')"
      using inv1 by (auto simp: xen_shm_ioctl_ssig_def shm_inv_def)
    with 5 show ?thesis using ssig_frame [of env st1] call inv inv1 st shm_inv_cong [OF inv1]
      by (auto simp: ioctl_switch_def)
  next
    case 6
    obtain r out st2 where cp: "copy_to_user env sizeof_getdomid (U_getdomid (local_domid (inst st1))) st1 = (r, out, st2)"
      by (metis surj_pair)
    from copy_to_user_inv [OF cp inv1] 6 call inv inv1 st cp show ?thesis by (simp add: ioctl_switch_def)
  next
    case 7
    then show ?thesis using call inv inv1 same by (simp add: ioctl_switch_def)
  qed
qed

section \<open>Properties\<close>

text \<open>C28.  Every ioctl keeps the invariant of the instance, and the state only moves forward: it changes only when a
  fresh instance is made an offerer or a receiver by the command for that.  A command word other than the six of the
  device is refused and changes nothing.  Every command but the two that wait returns.\<close>

theorem ioctl_keeps_invariant:
  assumes inv: "shm_inv st" and env: "env_pages env" and evs: "events_wf evs"
  shows "case xen_shm_ioctl env u junk evs cmd st of
      None \<Rightarrow> cmd = XEN_SHM_IOCTL_WAIT \<or> cmd = XEN_SHM_IOCTL_AWAIT
    | Some (r, out, st') \<Rightarrow> shm_inv st'
      \<and> (state (inst st') = state (inst st)
         \<or> state (inst st) = XEN_SHM_STATE_OPENED
           \<and> (cmd = XEN_SHM_IOCTL_INIT_OFFERER \<and> state (inst st') = XEN_SHM_STATE_OFFERER
            \<or> cmd = XEN_SHM_IOCTL_INIT_RECEIVER \<and> state (inst st') = XEN_SHM_STATE_RECEIVER))
      \<and> (cmd \<notin> {XEN_SHM_IOCTL_INIT_OFFERER, XEN_SHM_IOCTL_INIT_RECEIVER, XEN_SHM_IOCTL_WAIT, XEN_SHM_IOCTL_AWAIT,
            XEN_SHM_IOCTL_SSIG, XEN_SHM_IOCTL_GET_DOMID} \<longrightarrow> r \<in> {- ENOTTY, - EFAULT} \<and> inst st' = inst st \<and> meta st' = meta st)"
  by (rule ioctl_run [OF assms])

definition small_view :: user_view where
  "small_view = \<lparr>uv_offerer = \<lparr>off_pages_count = 2, off_dist_domid = 5, off_grant = 0, off_local_domid = 0\<rparr>,
     uv_receiver = \<lparr>rcv_pages_count = 2, rcv_dist_domid = 5, rcv_grant = 7\<rparr>, uv_await = small_await\<rparr>"

theorem ioctl_keeps_invariant_witness:
  "case xen_shm_ioctl small_kenv small_view 0 small_events 0x5307 (small_shm XEN_SHM_STATE_OPENED) of
     None \<Rightarrow> False | Some (r, out, st') \<Rightarrow> shm_inv st' \<and> r < 0"
proof -
  have "events_wf small_events" by (simp add: events_wf_def small_events_def)
  from ioctl_keeps_invariant [OF small_shm_inv this, where u = small_view and junk = 0 and cmd = "0x5307"] show ?thesis
    by (auto split: option.splits)
qed

end
