(* ===== verification/Shm_File.thy ===== *)
theory Shm_File
  imports Shm_Dispatch "HOL-Library.Sublist"
begin

text \<open>
  The device as a whole: the instances in the kernel's memory, the queue of instances that could
  not be freed when they were closed, and the file operations \<^verbatim>\<open>open\<close> and \<^verbatim>\<open>release\<close>.  The operations
  on one instance (\<^verbatim>\<open>ioctl\<close>, \<^verbatim>\<open>mmap\<close>, the interrupt, the notifications of the memory manager) are those
  of the other theories, applied to the instance of the file.
\<close>

section \<open>Definitions\<close>

text \<open>Instances and header pages by the address of the instance; the static variables of the module.\<close>

record shm_mod =
  instances :: "nat \<rightharpoonup> xen_shm_instance_data"
  headers :: "nat \<rightharpoonup> xen_shm_meta_page_data"
  xen_shm_delayed_free_queue :: "nat option"
  xen_shm_domid :: u16
  xen_shm_major_number :: nat
  xen_shm_device :: nat
  mtrace :: "kcall list"

definition load_inst :: "nat \<Rightarrow> shm_mod \<Rightarrow> shm_st option" where
  "load_inst p M = map_option (\<lambda>d. \<lparr>inst = d, meta = headers M p, ktrace = mtrace M\<rparr>) (instances M p)"

definition store_inst :: "nat \<Rightarrow> shm_st \<Rightarrow> shm_mod \<Rightarrow> shm_mod" where
  "store_inst p st M = M\<lparr>instances := (instances M)(p \<mapsto> inst st), headers := (headers M)(p := meta st),
     mtrace := ktrace st\<rparr>"

definition mdo :: "kenv \<Rightarrow> kcall \<Rightarrow> shm_mod \<Rightarrow> kans \<times> shm_mod" where
  "mdo env c M = (kanswer env (mtrace M) c, M\<lparr>mtrace := mtrace M @ [c]\<rparr>)"

definition kfree :: "nat \<Rightarrow> shm_mod \<Rightarrow> shm_mod" where
  "kfree p M = M\<lparr>instances := (instances M)(p := None), headers := (headers M)(p := None),
     mtrace := mtrace M @ [K_kfree p]\<rparr>"

definition set_next :: "nat \<Rightarrow> nat option \<Rightarrow> shm_mod \<Rightarrow> shm_mod option" where
  "set_next p n M = map_option (\<lambda>d. M\<lparr>instances := (instances M)(p \<mapsto> d\<lparr>next_delayed := n\<rparr>)\<rparr>) (instances M p)"

subsection \<open>The delayed queue\<close>

definition xen_shm_add_delayed_free :: "nat \<Rightarrow> shm_mod \<Rightarrow> shm_mod option" where
  "xen_shm_add_delayed_free p M =
    do {
      M \<leftarrow> set_next p (xen_shm_delayed_free_queue M) M;
      d \<leftarrow> instances M p;
      Some (M\<lparr>xen_shm_delayed_free_queue := next_delayed d\<rparr>)
    }"

record queue_loc =
  dq_previous :: "nat option"
  dq_current :: "nat option"
  dq_mod :: shm_mod

definition delayed_iter :: "kenv \<Rightarrow> queue_loc \<Rightarrow> queue_loc option" where
  "delayed_iter env l =
    do {
      p \<leftarrow> dq_current l;
      st \<leftarrow> load_inst p (dq_mod l);
      (r, st) \<leftarrow> xen_shm_prepare_free env st;
      let M = store_inst p st (dq_mod l);
      let n = next_delayed (inst st);
      if r = 0
      then do {
        M \<leftarrow> (case dq_previous l of
                None \<Rightarrow> Some (M\<lparr>xen_shm_delayed_free_queue := n\<rparr>)
              | Some q \<Rightarrow> set_next q n M);
        Some (l\<lparr>dq_current := n, dq_mod := kfree p M\<rparr>)
      }
      else Some \<lparr>dq_previous = Some p, dq_current = n, dq_mod = M\<rparr>
    }"

partial_function (option) delayed_loop :: "kenv \<Rightarrow> queue_loc \<Rightarrow> queue_loc option" where
  "delayed_loop env l = (if dq_current l \<noteq> None then Option.bind (delayed_iter env l) (delayed_loop env) else Some l)"

definition xen_shm_free_delayed_queue :: "kenv \<Rightarrow> shm_mod \<Rightarrow> shm_mod option" where
  "xen_shm_free_delayed_queue env M =
    map_option dq_mod (delayed_loop env
      \<lparr>dq_previous = None, dq_current = xen_shm_delayed_free_queue M, dq_mod = M\<rparr>)"

subsection \<open>Opening and closing\<close>

text \<open>\<open>kfresh\<close> is what the memory of the new instance held before.\<close>

definition fresh_instance :: "kenv \<Rightarrow> shm_mod \<Rightarrow> xen_shm_instance_data" where
  "fresh_instance env M = (kfresh env (mtrace M))\<lparr>
     state := XEN_SHM_STATE_OPENED, local_domid := xen_shm_domid M, shared_memory := 0, next_delayed := None,
     unmapped_area := None, user_mem := None, initial_signal := 0, user_signal := 0, latent_user_signal := 0,
     use_ptemod := pv_domain env\<rparr>"

text \<open>The memory of the process is watched when page table entries are used: \<open>False\<close> when that fails.\<close>

definition watch_mm :: "kenv \<Rightarrow> nat \<Rightarrow> shm_mod \<Rightarrow> (bool \<times> shm_mod) option" where
  "watch_mm env p M =
    (let (a, M) = mdo env K_get_task_mm M
     in do {
       d \<leftarrow> instances M p;
       let M = M\<lparr>instances := (instances M)(p \<mapsto> d\<lparr>mm := (if k_val a = 0 then None else Some (k_val a))\<rparr>)\<rparr>;
       if k_val a = 0 then Some (False, M)
       else
         let (b, M) = mdo env (K_mmu_notifier_register (k_val a)) M
         in if k_ret b \<noteq> 0 then Some (False, M)
            else Some (True, snd (mdo env (K_mmput (k_val a)) M))
     })"

text \<open>The result is the return value, the private data of the file and the module.\<close>

definition xen_shm_open :: "kenv \<Rightarrow> shm_mod \<Rightarrow> (int \<times> nat option \<times> shm_mod) option" where
  "xen_shm_open env M =
    (let d = fresh_instance env M;
         (a, M) = mdo env K_kmalloc M;
         p = k_val a
     in if p = 0 then Some (- ENOMEM, None, M)
     else
       let M = M\<lparr>instances := (instances M)(p \<mapsto> d), headers := (headers M)(p := None)\<rparr>
       in do {
         (ok, M) \<leftarrow> (if use_ptemod d then watch_mm env p M else Some (True, M));
         if \<not> ok then Some (- ENOMEM, None, kfree p M)
         else do {
           M \<leftarrow> xen_shm_free_delayed_queue env M;
           Some (0, Some p, M)
         }
       })"

text \<open>The header page says that this side is closed, and both sides are woken.\<close>

definition close_side :: "kenv \<Rightarrow> shm_st \<Rightarrow> shm_st option" where
  "close_side env st =
    (case state (inst st) of
       XEN_SHM_STATE_OPENED \<Rightarrow> Some st
     | XEN_SHM_STATE_OFFERER \<Rightarrow>
         do {
           st \<leftarrow> upd_meta (\<lambda>m. m\<lparr>offerer_state := XEN_SHM_META_PAGE_STATE_CLOSED\<rparr>) st;
           let st = snd (kdo env (K_notify_remote (local_ec_port (inst st))) st);
           Some (snd (kdo env K_wake_up st))
         }
     | _ \<Rightarrow>
         do {
           st \<leftarrow> upd_meta (\<lambda>m. m\<lparr>receiver_state := XEN_SHM_META_PAGE_STATE_CLOSED\<rparr>) st;
           let st = snd (kdo env (K_notify_remote (local_ec_port (inst st))) st);
           Some (snd (kdo env K_wake_up st))
         })"

text \<open>After \<^verbatim>\<open>kfree\<close> the fields \<^verbatim>\<open>use_ptemod\<close> and \<^verbatim>\<open>mm\<close> are read from the freed instance: they are taken to
  have their last values, as the allocator leaves freed memory alone until it is used again.\<close>

definition xen_shm_release :: "kenv \<Rightarrow> nat \<Rightarrow> shm_mod \<Rightarrow> (int \<times> shm_mod) option" where
  "xen_shm_release env p M =
    do {
      M \<leftarrow> xen_shm_free_delayed_queue env M;
      st \<leftarrow> load_inst p M;
      st \<leftarrow> close_side env st;
      (r, st) \<leftarrow> xen_shm_prepare_free env st;
      let M = store_inst p st M;
      if r \<noteq> 0
      then do {
        M \<leftarrow> xen_shm_add_delayed_free p M;
        Some (0, M)
      }
      else
        let M = kfree p M
        in Some (0, if use_ptemod (inst st)
                    then snd (mdo env (K_mmu_notifier_unregister p (case mm (inst st) of None \<Rightarrow> 0 | Some a \<Rightarrow> a)) M)
                    else M)
    }"

section \<open>Giving back an instance\<close>

lemma end_grants_frame:
  "end_grants env st = Some (b, st') \<Longrightarrow> (inst st')\<lparr>pages_count := 0\<rparr> = (inst st)\<lparr>pages_count := 0\<rparr>"
proof (induction env st rule: end_grants.induct)
  case (1 env st)
  show ?case
  proof (cases "pages_count (inst st) = 0")
    case True
    with "1.prems" show ?thesis by (simp add: end_grants.simps [of env st])
  next
    case False
    then obtain m ref where m: "meta st = Some m" "nth_opt (grant_refs m) (unat (pages_count (inst st)) - 1) = Some ref"
      using "1.prems" by (auto simp: end_grants.simps [of env st] bind_eq_Some_conv)
    let ?k = "kdo env (K_end_access ref) st"
    show ?thesis
    proof (cases "k_ret (fst ?k) = 0")
      case True
      with False m "1.prems" show ?thesis by (auto simp: end_grants.simps [of env st] split_beta)
    next
      case ok: False
      have "end_grants env (upd_inst (\<lambda>d. d\<lparr>pages_count := pages_count d - 1\<rparr>) (snd ?k)) = Some (b, st')"
        using False m ok "1.prems" by (simp add: end_grants.simps [of env st] split_beta)
      from "1.IH" [OF False m refl, of "fst ?k" "snd ?k", OF _ _ this] ok show ?thesis by (simp add: kdo_def)
    qed
  qed
qed

lemma unmap_pages_frame:
  "xen_shm_unmap_receiver_grant_pages env offset nb st = Some st' \<Longrightarrow> page_frame (inst st') = page_frame (inst st)"
proof (induction env offset nb st rule: xen_shm_unmap_receiver_grant_pages.induct)
  case (1 env offset nb st)
  have up: "page_frame (inst (unmap_page env i s)) = page_frame (inst s)" for i s
    by (simp add: unmap_page_def page_unmapped_def page_frame_def split_beta)
  show ?case
    using "1.prems" "1.IH" [OF _ _ refl refl refl refl] up
    by (auto simp: xen_shm_unmap_receiver_grant_pages.simps [of env offset nb st] Let_def split: if_splits)
qed

lemma free_receiver_header_frame:
  "(inst (snd (free_receiver_header env st)))\<lparr>pages_count := 0\<rparr> = (inst st)\<lparr>pages_count := 0\<rparr>"
  by (simp add: free_receiver_header_def unmap_header_def Let_def split_beta xen_shm_free_shared_memory_receiver_def
      split: option.splits)

text \<open>What the end of an instance leaves alone: all but the number of pages left and the handles.\<close>

definition free_frame :: "xen_shm_instance_data \<Rightarrow> xen_shm_instance_data" where
  "free_frame d = d\<lparr>pages_count := 0, unmap_ops := []\<rparr>"

lemma free_frame_fields:
  assumes "free_frame d' = free_frame d"
  shows "next_delayed d' = next_delayed d" "state d' = state d" "use_ptemod d' = use_ptemod d" "mm d' = mm d"
    "shared_memory d' = shared_memory d" "unmapped_area d' = unmapped_area d" "user_mem d' = user_mem d"
  using arg_cong [OF assms, of next_delayed] arg_cong [OF assms, of state] arg_cong [OF assms, of use_ptemod]
    arg_cong [OF assms, of mm] arg_cong [OF assms, of shared_memory] arg_cong [OF assms, of unmapped_area]
    arg_cong [OF assms, of user_mem]
  by (simp_all add: free_frame_def)

lemma prepare_free_frame:
  assumes "xen_shm_prepare_free env st = Some (r, st')"
  shows "free_frame (inst st') = free_frame (inst st)"
proof -
  have pc: "free_frame d' = free_frame d" if "d'\<lparr>pages_count := 0\<rparr> = d\<lparr>pages_count := 0\<rparr>" for d d' :: xen_shm_instance_data
    using arg_cong [OF that, of "\<lambda>d. d\<lparr>unmap_ops := []\<rparr>"] by (simp add: free_frame_def)
  have hdr: "free_frame (inst s') = free_frame (inst s)" if "free_receiver_header env s = (q, s')" for s s' q
    by (rule pc) (use free_receiver_header_frame [of env s] in \<open>simp add: that\<close>)
  show ?thesis
  proof (cases "state (inst st)")
    case XEN_SHM_STATE_OPENED
    then show ?thesis using assms by (simp add: xen_shm_prepare_free_def)
  next
    case XEN_SHM_STATE_OFFERER
    then obtain b s where s: "end_grants env st = Some (b, s)" "inst st' = inst s"
      using assms by (auto simp: xen_shm_prepare_free_def bind_eq_Some_conv Let_def xen_shm_free_shared_memory_offerer_def
          split: if_splits)
    then show ?thesis using pc end_grants_frame by metis
  next
    case XEN_SHM_STATE_RECEIVER
    then have "free_receiver_header env st = (r, st')" using assms by (simp add: xen_shm_prepare_free_def)
    then show ?thesis by (rule hdr)
  next
    case XEN_SHM_STATE_RECEIVER_MAPPED
    then obtain s where s: "s = st \<or> xen_shm_unmap_receiver_grant_pages env 0 (int (unat (pages_count (inst st))) - 1) st = Some s"
      and h: "free_receiver_header env s = (r, st')"
      using assms by (auto simp: xen_shm_prepare_free_def bind_eq_Some_conv split: if_splits)
    have fr: "page_frame (inst s) = page_frame (inst st)" using s unmap_pages_frame by blast
    have "free_frame (inst s) = free_frame (inst st)"
      using arg_cong [OF fr, of "\<lambda>d. d\<lparr>pages_count := 0, unmap_ops := []\<rparr>"]
      by (simp add: free_frame_def page_frame_def)
    with hdr [OF h] show ?thesis by simp
  qed
qed

text \<open>An instance whose end can be attempted: the header page of an offerer has all references that are left, and the
  operations of a mapped receiver are in bounds.\<close>

definition freeable :: "shm_st \<Rightarrow> bool" where
  "freeable st \<longleftrightarrow>
     (state (inst st) = XEN_SHM_STATE_OFFERER \<longrightarrow>
        (\<exists>m. meta st = Some m \<and> unat (pages_count (inst st)) \<le> length (grant_refs m)))
   \<and> (state (inst st) = XEN_SHM_STATE_RECEIVER_MAPPED \<longrightarrow>
        2 \<le> unat (pages_count (inst st)) \<and> unat (pages_count (inst st)) - 1 \<le> length (unmap_ops (inst st)))"

lemma freeable_inv: "shm_inv st \<Longrightarrow> freeable st"
  by (auto simp: shm_inv_def freeable_def)

lemma free_receiver_header_result:
  "fst (free_receiver_header env st) = 0 \<or> fst (free_receiver_header env st) = -1
    \<and> inst (snd (free_receiver_header env st)) = inst st \<and> meta (snd (free_receiver_header env st)) = meta st"
  by (simp add: free_receiver_header_def unmap_header_def split_beta Let_def)

lemma prepare_free_run:
  assumes "freeable st"
  shows "\<exists>r st'. xen_shm_prepare_free env st = Some (r, st') \<and> (r = 0 \<or> r = -1 \<and> freeable st')"
proof (cases "state (inst st)")
  case XEN_SHM_STATE_OPENED
  then show ?thesis by (simp add: xen_shm_prepare_free_def)
next
  case off: XEN_SHM_STATE_OFFERER
  then obtain m where m: "meta st = Some m" "unat (pages_count (inst st)) \<le> length (grant_refs m)"
    using assms by (auto simp: freeable_def)
  obtain k st1 where run: "end_grants env st = Some (k = 0, st1)"
      "grants_ended env (ktrace st) (grant_refs m) (unat (pages_count (inst st))) k"
      "inst st1 = (inst st)\<lparr>pages_count := of_nat k\<rparr>" "meta st1 = Some m"
    using end_grants_run [OF m(1) refl m(2), of env] by blast
  have "k \<le> unat (pages_count (inst st))" using run(2) by (simp add: grants_ended_def)
  moreover have "unat (pages_count (inst st)) < 256" using unsigned_less [of "pages_count (inst st)"] by simp
  ultimately have "unat (of_nat k :: u8) = k" by (simp add: unat_of_nat)
  then have "freeable st1" using run(3,4) m \<open>k \<le> unat (pages_count (inst st))\<close> off by (simp add: freeable_def)
  then show ?thesis using off run(1) by (simp add: xen_shm_prepare_free_def)
next
  case XEN_SHM_STATE_RECEIVER
  then show ?thesis
    using free_receiver_header_result [of env st] assms
    by (cases "free_receiver_header env st") (auto simp: xen_shm_prepare_free_def freeable_def)
next
  case mp: XEN_SHM_STATE_RECEIVER_MAPPED
  then have b: "2 \<le> unat (pages_count (inst st))" "unat (pages_count (inst st)) - 1 \<le> length (unmap_ops (inst st))"
    using assms by (auto simp: freeable_def)
  obtain s where s: "(if \<not> use_ptemod (inst st)
        then xen_shm_unmap_receiver_grant_pages env 0 (int (unat (pages_count (inst st))) - 1) st else Some st) = Some s"
      "pages_count (inst s) = pages_count (inst st)" "length (unmap_ops (inst s)) = length (unmap_ops (inst st))"
      "state (inst s) = state (inst st)"
  proof (cases "use_ptemod (inst st)")
    case False
    obtain s where s: "xen_shm_unmap_receiver_grant_pages env 0 (int (unat (pages_count (inst st))) - 1) st = Some s"
        "page_frame (inst s) = page_frame (inst st)" "length (unmap_ops (inst s)) = length (unmap_ops (inst st))"
      using unmap_all_pages [OF b, of env] by blast
    have "pages_count (inst s) = pages_count (inst st)" "state (inst s) = state (inst st)"
      using arg_cong [OF s(2), of pages_count] arg_cong [OF s(2), of state] by (simp_all add: page_frame_def)
    with False s(1,3) show ?thesis by (intro that [of s]) simp_all
  qed (use that in simp)
  have "freeable s" using b s mp by (simp add: freeable_def)
  obtain r st' where h: "free_receiver_header env s = (r, st')" by fastforce
  have "xen_shm_prepare_free env st = Some (r, st')"
    using mp s(1) h by (cases "use_ptemod (inst st)") (simp_all add: xen_shm_prepare_free_def)
  moreover have "r = 0 \<or> r = -1 \<and> freeable st'"
    using free_receiver_header_result [of env s] \<open>freeable s\<close> h by (auto simp: freeable_def)
  ultimately show ?thesis by blast
qed

section \<open>The delayed queue\<close>

text \<open>A path through the instances by their fields \<^verbatim>\<open>next_delayed\<close>, from \<open>q\<close> through \<open>xs\<close> to \<open>e\<close>.\<close>

abbreviation (input) dq_seg ::
    "(nat \<rightharpoonup> xen_shm_instance_data) \<Rightarrow> nat option \<Rightarrow> nat list \<Rightarrow> nat option \<Rightarrow> bool" where
  "dq_seg \<equiv> lseg next_delayed"

lemmas dq_seg_append = lseg_append [where nxt = next_delayed]
lemmas dq_seg_in_heap = lseg_in_heap [where nxt = next_delayed]

lemma dq_seg_last:
  assumes "dq_seg h q (xs @ [x]) e" "x \<notin> set xs" "h x = Some d"
  shows "dq_seg (h(x \<mapsto> d\<lparr>next_delayed := n\<rparr>)) q (xs @ [x]) n"
  using assms(1,2) by (rule lseg_last) simp

text \<open>The queue holds the instances \<open>xs\<close>, in this order.\<close>

definition dq_list :: "shm_mod \<Rightarrow> nat list \<Rightarrow> bool" where
  "dq_list M xs \<longleftrightarrow> dq_seg (instances M) (xen_shm_delayed_free_queue M) xs None \<and> distinct xs"

text \<open>What a sweep is meant to do, on the list of the queued instances: the end of each is attempted in turn,
  those that succeed are freed and the others stay.\<close>

fun sweep :: "kenv \<Rightarrow> nat list \<Rightarrow> shm_mod \<Rightarrow> (nat list \<times> shm_mod) option" where
  "sweep env [] M = Some ([], M)"
| "sweep env (p # ps) M =
    do {
      st \<leftarrow> load_inst p M;
      (r, st) \<leftarrow> xen_shm_prepare_free env st;
      let M = store_inst p st M;
      if r = 0 then sweep env ps (kfree p M)
      else do {
        (zs, M) \<leftarrow> sweep env ps M;
        Some (p # zs, M)
      }
    }"

text \<open>The module without the links of the queue.\<close>

definition unlinked :: "shm_mod \<Rightarrow> shm_mod" where
  "unlinked M = M\<lparr>instances := (\<lambda>p. map_option (\<lambda>d. d\<lparr>next_delayed := None\<rparr>) (instances M p)),
     xen_shm_delayed_free_queue := None\<rparr>"

definition same_queued :: "nat list \<Rightarrow> shm_mod \<Rightarrow> shm_mod \<Rightarrow> bool" where
  "same_queued ps M N \<longleftrightarrow> unlinked M = unlinked N \<and> (\<forall>p \<in> set ps. instances M p = instances N p)"

lemma unlinked_fields:
  assumes "unlinked M = unlinked N"
  shows "headers M = headers N" "mtrace M = mtrace N"
    "map_option (\<lambda>d. d\<lparr>next_delayed := None\<rparr>) (instances M p) = map_option (\<lambda>d. d\<lparr>next_delayed := None\<rparr>) (instances N p)"
  using arg_cong [OF assms, of headers] arg_cong [OF assms, of mtrace] arg_cong [OF assms, of "\<lambda>M. instances M p"]
  by (simp_all add: unlinked_def)

lemma unlinked_eqI:
  assumes "headers M = headers N" "mtrace M = mtrace N" "xen_shm_domid M = xen_shm_domid N"
    "xen_shm_major_number M = xen_shm_major_number N" "xen_shm_device M = xen_shm_device N"
    "\<And>p. map_option (\<lambda>d. d\<lparr>next_delayed := None\<rparr>) (instances M p) = map_option (\<lambda>d. d\<lparr>next_delayed := None\<rparr>) (instances N p)"
  shows "unlinked M = unlinked N"
  using assms by (simp add: unlinked_def)

lemma unlinked_statics:
  assumes "unlinked M = unlinked N"
  shows "xen_shm_domid M = xen_shm_domid N" "xen_shm_major_number M = xen_shm_major_number N"
    "xen_shm_device M = xen_shm_device N"
  using arg_cong [OF assms, of xen_shm_domid] arg_cong [OF assms, of xen_shm_major_number]
    arg_cong [OF assms, of xen_shm_device]
  by (simp_all add: unlinked_def)

text \<open>The operations of a round respect it.\<close>

lemma same_queued_store:
  assumes "same_queued (p # ps) M N" "p \<notin> set ps"
  shows "load_inst p M = load_inst p N" "same_queued ps (store_inst p st M) (store_inst p st N)"
proof -
  have u: "unlinked M = unlinked N" and h: "\<forall>q \<in> set (p # ps). instances M q = instances N q"
    using assms(1) by (auto simp: same_queued_def)
  note f = unlinked_fields [OF u] unlinked_statics [OF u]
  show "load_inst p M = load_inst p N" using f h by (simp add: load_inst_def)
  have "unlinked (store_inst p st M) = unlinked (store_inst p st N)"
    by (rule unlinked_eqI) (use f in \<open>simp_all add: store_inst_def\<close>)
  then show "same_queued ps (store_inst p st M) (store_inst p st N)"
    using h by (simp add: same_queued_def store_inst_def)
qed

lemma same_queued_kfree:
  assumes "same_queued ps M N" "p \<notin> set ps"
  shows "same_queued ps (kfree p M) (kfree p N)"
proof -
  have u: "unlinked M = unlinked N" using assms(1) by (simp add: same_queued_def)
  note f = unlinked_fields [OF u] unlinked_statics [OF u]
  have "unlinked (kfree p M) = unlinked (kfree p N)"
    by (rule unlinked_eqI) (use f in \<open>simp_all add: kfree_def\<close>)
  then show ?thesis using assms by (simp add: same_queued_def kfree_def)
qed

lemma same_queued_links:
  "same_queued ps M N \<Longrightarrow> same_queued ps (M\<lparr>xen_shm_delayed_free_queue := q\<rparr>) N"
  "same_queued ps M N \<Longrightarrow> p \<notin> set ps \<Longrightarrow> set_next p n M = Some M' \<Longrightarrow> same_queued ps M' N"
proof -
  show "same_queued ps M N \<Longrightarrow> same_queued ps (M\<lparr>xen_shm_delayed_free_queue := q\<rparr>) N"
    by (simp add: same_queued_def unlinked_def)
  assume a: "same_queued ps M N" "p \<notin> set ps" "set_next p n M = Some M'"
  then have "unlinked M' = unlinked M" by (intro unlinked_eqI) (auto simp: set_next_def)
  with a show "same_queued ps M' N" by (auto simp: same_queued_def set_next_def)
qed

lemma delayed_loop_induct:
  assumes "delayed_loop env s = Some t" "\<And>s. \<not> dq_current s \<noteq> None \<Longrightarrow> P s s"
    and "\<And>s u t. dq_current s \<noteq> None \<Longrightarrow> delayed_iter env s = Some u \<Longrightarrow> P u t \<Longrightarrow> P s t"
  shows "P s t"
proof -
  let ?P = "\<lambda>env' s t. env' = env \<longrightarrow> P s t"
  have "?P env s t"
    by (rule delayed_loop.raw_induct [where P = ?P, OF _ assms(1)])
      (auto intro: assms(2,3) simp: bind_eq_Some_conv split: if_splits)
  then show ?thesis by blast
qed

interpretation dq: option_loop "\<lambda>l. dq_current l \<noteq> None" "delayed_iter env" "delayed_loop env" for env
  by unfold_locales (rule delayed_loop.simps, rule delayed_loop_induct)

text \<open>A round at the instance \<open>p\<close>, behind the instances \<open>ys\<close> that stay, with \<open>ps\<close> to come.\<close>

definition last_of :: "nat list \<Rightarrow> nat option" where
  "last_of ys = (if ys = [] then None else Some (last ys))"

lemma dq_round:
  assumes seg: "dq_seg (instances M) (xen_shm_delayed_free_queue M) ys (Some p)"
    and cur: "dq_seg (instances M) (Some p) (p # ps) None"
    and dist: "distinct (ys @ p # ps)"
    and run: "load_inst p M = Some st" "xen_shm_prepare_free env st = Some (r, st')"
  defines "M1 \<equiv> store_inst p st' M"
  obtains (freed) n M2 where "r = 0" "delayed_iter env \<lparr>dq_previous = last_of ys, dq_current = Some p, dq_mod = M\<rparr>
        = Some \<lparr>dq_previous = last_of ys, dq_current = n, dq_mod = kfree p M2\<rparr>"
      "M2 = M1\<lparr>xen_shm_delayed_free_queue := n\<rparr> \<and> ys = [] \<or> (\<exists>q \<in> set ys. set_next q n M1 = Some M2)"
      "dq_seg (instances (kfree p M2)) (xen_shm_delayed_free_queue (kfree p M2)) ys n"
      "dq_seg (instances (kfree p M2)) n ps None"
  | (kept) n where "r \<noteq> 0" "delayed_iter env \<lparr>dq_previous = last_of ys, dq_current = Some p, dq_mod = M\<rparr>
        = Some \<lparr>dq_previous = last_of (ys @ [p]), dq_current = n, dq_mod = M1\<rparr>"
      "dq_seg (instances M1) (xen_shm_delayed_free_queue M1) (ys @ [p]) n" "dq_seg (instances M1) n ps None"
proof -
  obtain d where d: "instances M p = Some d" "dq_seg (instances M) (next_delayed d) ps None" "inst st = d"
    using cur run(1) by (auto simp: load_inst_def)
  let ?n = "next_delayed d"
  have nx: "next_delayed (inst st') = ?n" using free_frame_fields(1) [OF prepare_free_frame [OF run(2)]] d(3) by simp
  have p: "p \<notin> set ys" "p \<notin> set ps" using dist by auto
  show thesis
  proof (cases "r = 0")
    case False
    show thesis
      by (rule kept [OF False, of ?n])
        (use False run d nx p seg in \<open>simp_all add: delayed_iter_def last_of_def M1_def store_inst_def dq_seg_append\<close>)
  next
    case r0: True
    show thesis
    proof (cases ys rule: rev_cases)
      case Nil
      show thesis
        by (rule freed [OF r0, of ?n "M1\<lparr>xen_shm_delayed_free_queue := ?n\<rparr>"])
          (use Nil r0 run d nx p in \<open>simp_all add: delayed_iter_def last_of_def M1_def store_inst_def kfree_def Let_def\<close>)
    next
      case (snoc zs q)
      have q: "q \<notin> set zs" "q \<noteq> p" "q \<notin> set ps" using dist snoc by auto
      obtain dq where dq: "instances M q = Some dq" using dq_seg_in_heap [OF seg, of q] snoc by auto
      define M2 where "M2 = M1\<lparr>instances := (instances M1)(q \<mapsto> dq\<lparr>next_delayed := ?n\<rparr>)\<rparr>"
      have M2: "set_next q ?n M1 = Some M2" using dq q by (simp add: set_next_def M2_def M1_def store_inst_def)
      have seg1: "dq_seg (instances M1) (xen_shm_delayed_free_queue M1) (zs @ [q]) (Some p)"
        using seg p snoc by (simp add: M1_def store_inst_def)
      have "instances M1 q = Some dq" using dq q by (simp add: M1_def store_inst_def)
      from dq_seg_last [OF seg1 q(1) this, of ?n]
      have seg2: "dq_seg (instances M2) (xen_shm_delayed_free_queue M2) (zs @ [q]) ?n" by (simp add: M2_def)
      show thesis
      proof (rule freed [OF r0, of ?n M2])
        show "delayed_iter env \<lparr>dq_previous = last_of ys, dq_current = Some p, dq_mod = M\<rparr>
            = Some \<lparr>dq_previous = last_of ys, dq_current = ?n, dq_mod = kfree p M2\<rparr>"
          using r0 run nx M2 snoc by (simp add: delayed_iter_def last_of_def M1_def)
        show "M2 = M1\<lparr>xen_shm_delayed_free_queue := ?n\<rparr> \<and> ys = [] \<or> (\<exists>q \<in> set ys. set_next q ?n M1 = Some M2)"
          using M2 snoc by auto
        show "dq_seg (instances (kfree p M2)) (xen_shm_delayed_free_queue (kfree p M2)) ys ?n"
          using seg2 p snoc by (simp add: kfree_def)
        show "dq_seg (instances (kfree p M2)) ?n ps None"
          using d(2) p q by (simp add: kfree_def M2_def M1_def store_inst_def)
      qed
    qed
  qed
qed

lemma delayed_loop_run:
  assumes "dq_seg (instances M) (xen_shm_delayed_free_queue M) ys c" "dq_seg (instances M) c ps None" "distinct (ys @ ps)"
    and "same_queued ps M N" "sweep env ps N = Some (zs, N')"
  shows "\<exists>l'. delayed_loop env \<lparr>dq_previous = last_of ys, dq_current = c, dq_mod = M\<rparr> = Some l'
    \<and> dq_seg (instances (dq_mod l')) (xen_shm_delayed_free_queue (dq_mod l')) (ys @ zs) None
    \<and> unlinked (dq_mod l') = unlinked N'"
  using assms
proof (induction ps arbitrary: ys c M N zs)
  case Nil
  then show ?case by (auto simp: dq.loop_done same_queued_def)
next
  case (Cons p ps)
  have c: "c = Some p" using Cons.prems(2) by simp
  have np: "p \<notin> set ps" "p \<notin> set ys" using Cons.prems(3) by auto
  obtain st r st' where st: "load_inst p N = Some st" "xen_shm_prepare_free env st = Some (r, st')"
    and rest: "(if r = 0 then sweep env ps (kfree p (store_inst p st' N))
        else Option.bind (sweep env ps (store_inst p st' N)) (\<lambda>(zs, M). Some (p # zs, M))) = Some (zs, N')"
    using Cons.prems(5) by (auto simp: bind_eq_Some_conv Let_def)
  note ls = same_queued_store(1) [OF Cons.prems(4) np(1)] same_queued_store(2) [OF Cons.prems(4) np(1), of st']
  have ld: "load_inst p M = Some st" using ls(1) st(1) by simp
  from Cons.prems(1,2) [unfolded c] Cons.prems(3) ld st(2) show ?case
  proof (cases rule: dq_round)
    case (freed n M2)
    have "same_queued ps M2 (store_inst p st' N)"
    proof -
      from freed(3) consider "M2 = (store_inst p st' M)\<lparr>xen_shm_delayed_free_queue := n\<rparr>"
        | q where "q \<in> set ys" "set_next q n (store_inst p st' M) = Some M2" by blast
      then show ?thesis
      proof cases
        case 1
        then show ?thesis using same_queued_links(1) [OF ls(2)] by simp
      next
        case 2
        moreover have "q \<notin> set ps" using 2(1) Cons.prems(3) by auto
        ultimately show ?thesis using same_queued_links(2) [OF ls(2)] by blast
      qed
    qed
    then have "same_queued ps (kfree p M2) (kfree p (store_inst p st' N))" by (rule same_queued_kfree [OF _ np(1)])
    moreover have "sweep env ps (kfree p (store_inst p st' N)) = Some (zs, N')" using rest freed(1) by simp
    moreover have "distinct (ys @ ps)" using Cons.prems(3) by simp
    ultimately have "\<exists>l'. delayed_loop env \<lparr>dq_previous = last_of ys, dq_current = n, dq_mod = kfree p M2\<rparr> = Some l'
        \<and> dq_seg (instances (dq_mod l')) (xen_shm_delayed_free_queue (dq_mod l')) (ys @ zs) None
        \<and> unlinked (dq_mod l') = unlinked N'"
      using Cons.IH [OF freed(4,5)] by blast
    then show ?thesis using freed(2) by (simp add: c dq.loop_step)
  next
    case (kept n)
    obtain zs1 where zs1: "sweep env ps (store_inst p st' N) = Some (zs1, N')" "zs = p # zs1"
      using rest kept(1) by (auto simp: bind_eq_Some_conv)
    have "distinct ((ys @ [p]) @ ps)" using Cons.prems(3) by simp
    from Cons.IH [OF kept(3,4) this ls(2) zs1(1)] kept(2) zs1(2) show ?thesis by (simp add: c dq.loop_step)
  qed
qed

lemma sweep_total:
  assumes "\<And>p. p \<in> set ps \<Longrightarrow> \<exists>st. load_inst p M = Some st \<and> freeable st" "distinct ps"
  shows "\<exists>zs M'. sweep env ps M = Some (zs, M') \<and> subseq zs ps
    \<and> (\<forall>p \<in> set zs. \<exists>st. load_inst p M' = Some st \<and> freeable st)
    \<and> (\<forall>p \<in> set ps - set zs. instances M' p = None)
    \<and> (\<forall>p. p \<notin> set ps \<longrightarrow> instances M' p = instances M p \<and> headers M' p = headers M p)
    \<and> xen_shm_device M' = xen_shm_device M"
  using assms
proof (induction ps arbitrary: M)
  case (Cons p ps)
  obtain st where st: "load_inst p M = Some st" "freeable st" using Cons.prems(1) by auto
  obtain r st' where r: "xen_shm_prepare_free env st = Some (r, st')" "r = 0 \<or> r = -1 \<and> freeable st'"
    using prepare_free_run [OF st(2), of env] by blast
  let ?M = "if r = 0 then kfree p (store_inst p st' M) else store_inst p st' M"
  have np: "p \<notin> set ps" "distinct ps" using Cons.prems(2) by auto
  have ld: "\<exists>st. load_inst q ?M = Some st \<and> freeable st" if qps: "q \<in> set ps" for q
  proof -
    obtain s where s: "load_inst q M = Some s" "freeable s" using Cons.prems(1) [of q] qps by auto
    have "q \<noteq> p" using qps np by auto
    then have "load_inst q ?M = Some (s\<lparr>ktrace := mtrace ?M\<rparr>)"
      using s(1) by (auto simp: load_inst_def kfree_def store_inst_def)
    moreover have "freeable (s\<lparr>ktrace := mtrace ?M\<rparr>)" using s(2) by (simp add: freeable_def)
    ultimately show ?thesis by blast
  qed
  obtain zs M' where IH: "sweep env ps ?M = Some (zs, M')" "subseq zs ps"
      "\<forall>q \<in> set zs. \<exists>st. load_inst q M' = Some st \<and> freeable st" "\<forall>q \<in> set ps - set zs. instances M' q = None"
      "\<forall>q. q \<notin> set ps \<longrightarrow> instances M' q = instances ?M q \<and> headers M' q = headers ?M q"
      "xen_shm_device M' = xen_shm_device M"
    using Cons.IH [of ?M, OF ld np(2)] by (auto simp: kfree_def store_inst_def)
  show ?case
  proof (cases "r = 0")
    case True
    have "instances M' p = None" using IH(5) np True by (simp add: kfree_def)
    moreover have "\<forall>q. q \<notin> set (p # ps) \<longrightarrow> instances M' q = instances M q \<and> headers M' q = headers M q"
      using IH(5) True by (simp add: kfree_def store_inst_def)
    moreover have "subseq zs (p # ps)" using IH(2) by (rule list_emb_Cons)
    moreover have "sweep env (p # ps) M = Some (zs, M')" using st r True IH(1) by simp
    ultimately show ?thesis using IH(3,4,6) by auto
  next
    case False
    then have fr: "freeable st'" using r(2) by simp
    have "load_inst p M' = Some (st'\<lparr>ktrace := mtrace M'\<rparr>)"
      using IH(5) np False by (simp add: load_inst_def store_inst_def)
    moreover have "freeable (st'\<lparr>ktrace := mtrace M'\<rparr>)" using fr by (simp add: freeable_def)
    moreover have "\<forall>q. q \<notin> set (p # ps) \<longrightarrow> instances M' q = instances M q \<and> headers M' q = headers M q"
      using IH(5) False by (simp add: store_inst_def)
    moreover have "sweep env (p # ps) M = Some (p # zs, M')" using st r False IH(1) by simp
    moreover have "subseq (p # zs) (p # ps)" using IH(2) by simp
    ultimately show ?thesis using IH(3,4,6) by (intro exI [of _ "p # zs"] exI [of _ M']) auto
  qed
qed simp

section \<open>The life of an instance\<close>

text \<open>What happens to the instance of an open file: its file operations, the interrupt of its channel, a write of the
  peer to the header page, and the notifications of the memory manager.\<close>

inductive inst_step :: "kenv \<Rightarrow> shm_st \<Rightarrow> shm_st \<Rightarrow> bool" for env where
  ioctl: "xen_shm_ioctl env u junk evs cmd st = Some (r, out, st') \<Longrightarrow> events_wf evs \<Longrightarrow> inst_step env st st'"
| mmap: "xen_shm_mmap env v st = Some (r, st') \<Longrightarrow> vm_end v = vm_start v + k * PAGE_SIZE \<Longrightarrow> inst_step env st st'"
| irq: "inst_step env st (xen_shm_event_handler env st)"
| peer: "peer_writes_fields f \<Longrightarrow> inst_step env st (st\<lparr>meta := map_option f (meta st)\<rparr>)"
| invalidate: "xen_shm_mn_invl_range_start env a b st = Some st' \<Longrightarrow> inst_step env st st'"
| mn_release: "xen_shm_mn_release env st = Some st' \<Longrightarrow> inst_step env st st'"

lemma unmap_pages_length:
  "xen_shm_unmap_receiver_grant_pages env offset nb st = Some st' \<Longrightarrow>
    length (unmap_ops (inst st')) = length (unmap_ops (inst st)) \<and> meta st' = meta st"
proof (induction env offset nb st rule: xen_shm_unmap_receiver_grant_pages.induct)
  case (1 env offset nb st)
  show ?case
    using "1.prems" "1.IH" [OF _ _ refl refl refl refl]
    by (auto simp: xen_shm_unmap_receiver_grant_pages.simps [of env offset nb st] Let_def split: if_splits)
qed

lemma shm_inv_unmapped:
  assumes "shm_inv st" "xen_shm_unmap_receiver_grant_pages env offset nb st = Some st'"
  shows "shm_inv st'" "state (inst st') = state (inst st)"
proof -
  note fr = unmap_pages_frame [OF assms(2)]
  have "state (inst st') = state (inst st)" "shared_memory (inst st') = shared_memory (inst st)"
    "pages_count (inst st') = pages_count (inst st)" "unmapped_area (inst st') = unmapped_area (inst st)"
    "user_mem (inst st') = user_mem (inst st)" "length (map_ops (inst st')) = length (map_ops (inst st))"
    "length (kmap_ops (inst st')) = length (kmap_ops (inst st))"
    using arg_cong [OF fr, of state] arg_cong [OF fr, of shared_memory] arg_cong [OF fr, of pages_count]
      arg_cong [OF fr, of unmapped_area] arg_cong [OF fr, of user_mem] arg_cong [OF fr, of map_ops]
      arg_cong [OF fr, of kmap_ops]
    by (simp_all add: page_frame_def)
  then have "inv_view (inst st') = inv_view (inst st)"
    using unmap_pages_length [OF assms(2)] by (simp add: inv_view_def)
  then show "shm_inv st'" using unmap_pages_length [OF assms(2)] by (intro shm_inv_view [OF assms(1)]) simp_all
  show "state (inst st') = state (inst st)" by fact
qed

lemma mmap_step:
  assumes "shm_inv st" "env_maps env" "vm_end v = vm_start v + k * PAGE_SIZE" "xen_shm_mmap env v st = Some (r, st')"
  shows "shm_inv st' \<and> state (inst st) \<le> state (inst st')"
proof (cases "state (inst st) = XEN_SHM_STATE_RECEIVER \<and> \<not> (vm_write v \<and> \<not> vm_shared v) \<and> k = shared_pages (inst st)")
  case True
  then have "page_range v (shared_pages (inst st))" using assms(3) by (simp add: page_range_def)
  with True receiver_mmap_run [OF assms(1) _ assms(2), of v] assms(4) show ?thesis
    by (auto simp: mmap_done_def mmap_given_up_def mmap_undone_def Let_def)
next
  case False
  then have "inst st' = inst st" "meta st' = meta st"
    using assms(3,4) by (auto simp: xen_shm_mmap_def Let_def split_beta split: if_splits xen_shm_state_t.splits)
  then show ?thesis using shm_inv_cong [OF assms(1)] by simp
qed

text \<open>The parameters that stand for memory have the size of what they stand for.\<close>

definition env_sizes :: "kenv \<Rightarrow> bool" where
  "env_sizes env \<longleftrightarrow> env_pages env \<and> env_maps env \<and> (\<forall>h. length (map_ops (kfresh env h)) = 128
     \<and> length (unmap_ops (kfresh env h)) = 128 \<and> length (kmap_ops (kfresh env h)) = 128)"

lemma inst_step_inv:
  assumes "inst_step env st st'" "shm_inv st" "env_sizes env"
  shows "shm_inv st' \<and> state (inst st) \<le> state (inst st')"
proof -
  have env: "env_pages env" "env_maps env" using assms(3) by (simp_all add: env_sizes_def)
  from assms(1) show ?thesis
  proof cases
    case (ioctl u junk evs cmd r out)
    from ioctl_run [OF assms(2) env(1) ioctl(2), where u = u and junk = junk and cmd = cmd] ioctl(1) show ?thesis by auto
  next
    case (mmap v r k)
    then show ?thesis using mmap_step [OF assms(2) env(2)] by blast
  next
    case irq
    have "state (inst st') = state (inst st)"
      using event_handler_view(1) [of env st] irq by (simp add: inv_view_def)
    moreover have "shm_inv st'" using shm_inv_view [OF assms(2)] irq by simp
    ultimately show ?thesis by simp
  next
    case (peer f)
    have "shm_inv st'" using peer
      by (intro shm_inv_view [OF assms(2)]) (auto simp: peer_writes_fields_def option.map_comp o_def)
    then show ?thesis using peer by simp
  next
    case (invalidate a b)
    then show ?thesis
      using shm_inv_unmapped [OF assms(2)] assms(2)
      by (auto simp: xen_shm_mn_invl_range_start_def Let_def split: option.splits if_splits)
  next
    case mn_release
    then show ?thesis
      using shm_inv_unmapped [OF assms(2)] assms(2) by (auto simp: xen_shm_mn_release_def split: option.splits)
  qed
qed

section \<open>The device\<close>

text \<open>The instances of the open files, and the module.  The memory a new instance gets is not in use.\<close>

record device =
  opened :: "nat set"
  modul :: shm_mod

inductive dev_step :: "kenv \<Rightarrow> device \<Rightarrow> device \<Rightarrow> bool" for env where
  file_open: "xen_shm_open env (modul D) = Some (r, q, M)
    \<Longrightarrow> k_val (kanswer env (mtrace (modul D)) K_kmalloc) \<notin> dom (instances (modul D))
    \<Longrightarrow> dev_step env D \<lparr>opened = opened D \<union> set_option q, modul = M\<rparr>"
| file_inst: "p \<in> opened D \<Longrightarrow> load_inst p (modul D) = Some st \<Longrightarrow> inst_step env st st'
    \<Longrightarrow> dev_step env D (D\<lparr>modul := store_inst p st' (modul D)\<rparr>)"
| file_release: "p \<in> opened D \<Longrightarrow> xen_shm_release env p (modul D) = Some (r, M)
    \<Longrightarrow> dev_step env D \<lparr>opened = opened D - {p}, modul = M\<rparr>"

inductive dev_reachable :: "kenv \<Rightarrow> device \<Rightarrow> device \<Rightarrow> bool" for env where
  here: "dev_reachable env D D"
| step: "dev_reachable env D E \<Longrightarrow> dev_step env E F \<Longrightarrow> dev_reachable env D F"

text \<open>The queue is empty, and the instance of every open file is there and satisfies its invariant.\<close>

definition dev_inv :: "device \<Rightarrow> bool" where
  "dev_inv D \<longleftrightarrow> xen_shm_delayed_free_queue (modul D) = None
     \<and> (\<forall>p \<in> opened D. \<exists>st. load_inst p (modul D) = Some st \<and> shm_inv st)"

lemma sweep_empty_queue:
  "xen_shm_delayed_free_queue M = None \<Longrightarrow> xen_shm_free_delayed_queue env M = Some M"
  by (simp add: xen_shm_free_delayed_queue_def dq.loop_done)

text \<open>What a step may change: only the instances \<open>S\<close>.\<close>

definition only_changes :: "nat set \<Rightarrow> shm_mod \<Rightarrow> shm_mod \<Rightarrow> bool" where
  "only_changes S M M' \<longleftrightarrow> xen_shm_delayed_free_queue M' = xen_shm_delayed_free_queue M
     \<and> (\<forall>p. p \<notin> S \<longrightarrow> instances M' p = instances M p \<and> headers M' p = headers M p)"

lemma only_changes_load:
  assumes "only_changes S M M'" "p \<notin> S" "load_inst p M = Some st"
  shows "load_inst p M' = Some (st\<lparr>ktrace := mtrace M'\<rparr>)"
  using assms by (auto simp: only_changes_def load_inst_def)

lemma shm_inv_ktrace [simp]: "shm_inv (st\<lparr>ktrace := h\<rparr>) = shm_inv st"
  by (simp add: shm_inv_def)

lemma watch_mm_run:
  assumes "instances M p = Some d"
  shows "\<exists>ok x N. watch_mm env p M = Some (ok, N) \<and> instances N = (instances M)(p \<mapsto> d\<lparr>mm := x\<rparr>) \<and> headers N = headers M
    \<and> xen_shm_delayed_free_queue N = xen_shm_delayed_free_queue M"
  using assms by (auto simp: watch_mm_def mdo_def Let_def)

lemma open_run:
  assumes "xen_shm_delayed_free_queue M = None" "env_sizes env"
    and "p = k_val (kanswer env (mtrace M) K_kmalloc)"
  shows "\<exists>r q M'. xen_shm_open env M = Some (r, q, M') \<and> only_changes {p} M M'
    \<and> (r = 0 \<and> q = Some p \<and> p \<noteq> 0 \<and> (\<exists>st. load_inst p M' = Some st \<and> shm_inv st \<and> state (inst st) = XEN_SHM_STATE_OPENED
         \<and> local_domid (inst st) = xen_shm_domid M)
       \<or> r = - ENOMEM \<and> q = None \<and> (p \<noteq> 0 \<longrightarrow> instances M' p = None))"
proof (cases "p = 0")
  case True
  then have "xen_shm_open env M = Some (- ENOMEM, None, M\<lparr>mtrace := mtrace M @ [K_kmalloc]\<rparr>)"
    using assms(3) by (simp add: xen_shm_open_def mdo_def Let_def)
  then show ?thesis using True by (simp add: only_changes_def)
next
  case False
  let ?d = "fresh_instance env M"
  define M1 where "M1 = M\<lparr>mtrace := mtrace M @ [K_kmalloc], instances := (instances M)(p \<mapsto> ?d), headers := (headers M)(p := None)\<rparr>"
  have "instances M1 p = Some ?d" by (simp add: M1_def)
  from watch_mm_run [OF this, of env] obtain ok x N where
    w: "watch_mm env p M1 = Some (ok, N)" "instances N = (instances M1)(p \<mapsto> ?d\<lparr>mm := x\<rparr>)" "headers N = headers M1"
      "xen_shm_delayed_free_queue N = xen_shm_delayed_free_queue M1" by blast
  define ok' where "ok' \<longleftrightarrow> (use_ptemod ?d \<longrightarrow> ok)"
  define M2 where "M2 = (if use_ptemod ?d then N else M1)"
  have M2: "instances M2 = (instances M)(p \<mapsto> if use_ptemod ?d then ?d\<lparr>mm := x\<rparr> else ?d)"
    "headers M2 = (headers M)(p := None)" "xen_shm_delayed_free_queue M2 = xen_shm_delayed_free_queue M"
    using w(2-4) by (simp_all add: M2_def M1_def)
  have q2: "xen_shm_free_delayed_queue env M2 = Some M2" by (rule sweep_empty_queue) (simp add: M2(3) assms(1))
  have call: "xen_shm_open env M = (if ok' then Some (0, Some p, M2) else Some (- ENOMEM, None, kfree p M2))"
    using False w(1) q2
    by (cases "use_ptemod ?d") (simp_all add: xen_shm_open_def mdo_def assms(3) [symmetric] M1_def [symmetric] M2_def ok'_def)
  have ch: "only_changes {p} M M2" "only_changes {p} M (kfree p M2)"
    by (simp_all add: only_changes_def M2 kfree_def)
  obtain d' where d': "instances M2 p = Some d'" "d' = ?d \<or> d' = ?d\<lparr>mm := x\<rparr>" by (auto simp: M2)
  have "shm_inv \<lparr>inst = d', meta = headers M2 p, ktrace = mtrace M2\<rparr>" "state d' = XEN_SHM_STATE_OPENED"
    "local_domid d' = xen_shm_domid M"
    using d'(2) assms(2) by (auto simp: shm_inv_def fresh_instance_def env_sizes_def)
  then have "\<exists>st. load_inst p M2 = Some st \<and> shm_inv st \<and> state (inst st) = XEN_SHM_STATE_OPENED
      \<and> local_domid (inst st) = xen_shm_domid M"
    using d'(1) by (simp add: load_inst_def)
  moreover have "instances (kfree p M2) p = None" by (simp add: kfree_def)
  ultimately show ?thesis using call ch False by (cases ok') auto
qed

text \<open>Releasing a file: \<open>st\<close> is its instance before, \<open>st1\<close> after the header page has been marked, \<open>st2\<close> after the
  attempt to give everything back.\<close>

lemma close_side_run:
  assumes "shm_inv st"
  shows "\<exists>st1. close_side env st = Some st1 \<and> shm_inv st1 \<and> inst st1 = inst st
    \<and> (state (inst st) \<noteq> XEN_SHM_STATE_OPENED \<longrightarrow>
        (\<exists>m. meta st1 = Some m \<and> xen_shm_is_broken_pipe m)
        \<and> ktrace st1 = ktrace st @ [K_notify_remote (local_ec_port (inst st)), K_wake_up])"
proof (cases "state (inst st) = XEN_SHM_STATE_OPENED")
  case True
  then show ?thesis using assms by (simp add: close_side_def)
next
  case False
  then obtain m where m: "meta st = Some m" "length (grant_refs m) = 128" using assms by (auto simp: shm_inv_def)
  define m1 where "m1 = (if state (inst st) = XEN_SHM_STATE_OFFERER then m\<lparr>offerer_state := XEN_SHM_META_PAGE_STATE_CLOSED\<rparr>
    else m\<lparr>receiver_state := XEN_SHM_META_PAGE_STATE_CLOSED\<rparr>)"
  define st1 where "st1 = st\<lparr>meta := Some m1, ktrace := ktrace st @ [K_notify_remote (local_ec_port (inst st)), K_wake_up]\<rparr>"
  have "close_side env st = Some st1"
    using False m by (cases "state (inst st)") (simp_all add: close_side_def upd_meta_def kdo_def st1_def m1_def)
  moreover have "shm_inv st1"
    by (rule shm_inv_view [OF assms]) (use m in \<open>simp_all add: st1_def m1_def\<close>)
  moreover have "xen_shm_is_broken_pipe m1" by (simp add: m1_def xen_shm_is_broken_pipe_def)
  ultimately show ?thesis by (simp add: st1_def)
qed

lemma release_run:
  assumes "xen_shm_delayed_free_queue M = None" "load_inst p M = Some st" "shm_inv st"
  shows "\<exists>M' st1 r st2. xen_shm_release env p M = Some (0, M') \<and> only_changes {p} M M'
    \<and> close_side env st = Some st1 \<and> xen_shm_prepare_free env st1 = Some (r, st2)
    \<and> (if r = 0 then instances M' p = None else instances M' p = Some ((inst st2)\<lparr>next_delayed := None\<rparr>))"
proof -
  obtain st1 where st1: "close_side env st = Some st1" "shm_inv st1" using close_side_run [OF assms(3)] by blast
  obtain r st2 where st2: "xen_shm_prepare_free env st1 = Some (r, st2)"
    using prepare_free_run [OF freeable_inv [OF st1(2)], of env] by blast
  note q = sweep_empty_queue [OF assms(1), of env]
  show ?thesis
  proof (cases "r = 0")
    case True
    then show ?thesis using q assms(2) st1(1) st2
      by (auto simp: xen_shm_release_def only_changes_def kfree_def store_inst_def mdo_def Let_def)
  next
    case False
    then show ?thesis using q assms st1(1) st2
      by (auto simp: xen_shm_release_def xen_shm_add_delayed_free_def set_next_def only_changes_def store_inst_def Let_def)
  qed
qed

text \<open>A step changes only the instances of open files and memory that was not in use.\<close>

lemma store_inst_only: "only_changes {p} M (store_inst p st M)"
  by (simp add: only_changes_def store_inst_def)

lemma dev_step_cases:
  assumes "dev_step env D E" "dev_inv D" "env_sizes env"
  obtains p where "only_changes {p} (modul D) (modul E)" "p \<in> opened D \<or> p \<notin> dom (instances (modul D))"
    and "opened E \<subseteq> opened D \<union> {p}"
    and "p \<in> opened E \<longrightarrow> (\<exists>st. load_inst p (modul E) = Some st \<and> shm_inv st)"
proof -
  have inv: "xen_shm_delayed_free_queue (modul D) = None"
    and files: "\<And>p. p \<in> opened D \<Longrightarrow> \<exists>st. load_inst p (modul D) = Some st \<and> shm_inv st"
    using assms(2) by (auto simp: dev_inv_def)
  from assms(1) show thesis
  proof cases
    case (file_open r q M)
    let ?p = "k_val (kanswer env (mtrace (modul D)) K_kmalloc)"
    from open_run [OF inv assms(3) refl] file_open(2)
    have o: "only_changes {?p} (modul D) M" "q = Some ?p \<and> (\<exists>st. load_inst ?p M = Some st \<and> shm_inv st) \<or> q = None" by auto
    have fresh: "?p \<notin> opened D"
      using files [of ?p] file_open(3) by (auto simp: load_inst_def)
    show thesis
      by (rule that [of ?p]) (use file_open o fresh in auto)
  next
    case (file_inst p st st')
    obtain s where s: "load_inst p (modul D) = Some s" "shm_inv s" using files file_inst(2) by blast
    then have "shm_inv st'" using inst_step_inv [OF file_inst(4) _ assms(3)] file_inst(3) by simp
    moreover have "load_inst p (store_inst p st' (modul D)) = Some st'" by (simp add: load_inst_def store_inst_def)
    ultimately show thesis using file_inst(1,2) store_inst_only by (intro that [of p]) auto
  next
    case (file_release p r M)
    obtain s where s: "load_inst p (modul D) = Some s" "shm_inv s" using files file_release(2) by blast
    from release_run [OF inv s, of env] file_release(3) have "only_changes {p} (modul D) M" by auto
    then show thesis using file_release(1,2) by (intro that [of p]) auto
  qed
qed

lemma dev_step_inv:
  assumes "dev_step env D E" "dev_inv D" "env_sizes env"
  shows "dev_inv E"
  using assms
proof (cases rule: dev_step_cases)
  case (1 p)
  have "\<exists>st. load_inst q (modul E) = Some st \<and> shm_inv st" if q: "q \<in> opened E" for q
  proof (cases "q = p")
    case True
    then show ?thesis using 1(4) q by blast
  next
    case False
    then have "q \<in> opened D" using 1(3) q by blast
    then obtain st where "load_inst q (modul D) = Some st" "shm_inv st" using assms(2) by (auto simp: dev_inv_def)
    with only_changes_load [OF 1(1), of q] False show ?thesis by auto
  qed
  moreover have "xen_shm_delayed_free_queue (modul E) = None"
    using 1(1) assms(2) by (simp add: only_changes_def dev_inv_def)
  ultimately show ?thesis by (simp add: dev_inv_def)
qed

lemma dev_reachable_inv: "dev_reachable env D E \<Longrightarrow> dev_inv D \<Longrightarrow> env_sizes env \<Longrightarrow> dev_inv E"
  by (induction rule: dev_reachable.induct) (auto intro: dev_step_inv)

text \<open>An instance that belongs to no open file keeps its memory for ever.\<close>

lemma orphan_stays:
  assumes "dev_reachable env D E" "dev_inv D" "env_sizes env" "p \<notin> opened D" "instances (modul D) p \<noteq> None"
  shows "p \<notin> opened E \<and> instances (modul E) p = instances (modul D) p"
  using assms
proof (induction rule: dev_reachable.induct)
  case (step D E F)
  have IH: "p \<notin> opened E" "instances (modul E) p = instances (modul D) p" using step.IH step.prems by auto
  have "dev_inv E" by (rule dev_reachable_inv [OF step.hyps(1) step.prems(1,2)])
  from step.hyps(2) this step.prems(2) show ?case
  proof (cases rule: dev_step_cases)
    case (1 q)
    have "p \<noteq> q" using 1(2) IH step.prems(4) by (auto simp: dom_def)
    then show ?thesis using 1(1,3) IH by (auto simp: only_changes_def)
  qed
qed simp

lemma dq_zs_distinct: "subseq zs xs \<Longrightarrow> distinct xs \<Longrightarrow> distinct zs"
  by (induction rule: list_emb.induct) (auto dest: list_emb_set)

lemma delayed_queue_run:
  assumes "dq_list M xs" and "\<And>p. p \<in> set xs \<Longrightarrow> \<exists>st. load_inst p M = Some st \<and> freeable st"
  shows "\<exists>M' zs N. xen_shm_free_delayed_queue env M = Some M' \<and> sweep env xs M = Some (zs, N)
    \<and> dq_list M' zs \<and> unlinked M' = unlinked N \<and> subseq zs xs
    \<and> (\<forall>p \<in> set xs - set zs. instances M' p = None)
    \<and> (\<forall>p \<in> set zs. \<exists>st. load_inst p M' = Some st \<and> freeable st)
    \<and> (\<forall>p. p \<notin> set xs \<longrightarrow> headers M' p = headers M p \<and> (instances M' p = None \<longleftrightarrow> instances M p = None))
    \<and> xen_shm_device M' = xen_shm_device M"
proof -
  have seg: "dq_seg (instances M) (xen_shm_delayed_free_queue M) xs None" and d: "distinct xs"
    using assms(1) by (simp_all add: dq_list_def)
  obtain zs N where sw: "sweep env xs M = Some (zs, N)" "subseq zs xs"
      "\<forall>p \<in> set zs. \<exists>st. load_inst p N = Some st \<and> freeable st" "\<forall>p \<in> set xs - set zs. instances N p = None"
      "\<forall>p. p \<notin> set xs \<longrightarrow> instances N p = instances M p \<and> headers N p = headers M p" "xen_shm_device N = xen_shm_device M"
    using sweep_total [OF assms(2) d, of env] by blast
  have "same_queued xs M M" by (simp add: same_queued_def)
  from delayed_loop_run [of M "[]", OF _ seg _ this sw(1)] d obtain l' where
    l': "delayed_loop env \<lparr>dq_previous = None, dq_current = xen_shm_delayed_free_queue M, dq_mod = M\<rparr> = Some l'"
      "dq_seg (instances (dq_mod l')) (xen_shm_delayed_free_queue (dq_mod l')) zs None" "unlinked (dq_mod l') = unlinked N"
    by (auto simp: last_of_def)
  have "distinct zs" using dq_zs_distinct [OF sw(2) d] .
  moreover have "instances (dq_mod l') p = None" if "instances N p = None" for p
    using unlinked_fields(3) [OF l'(3), of p] that by simp
  moreover have "\<exists>st. load_inst p (dq_mod l') = Some st \<and> freeable st" if "load_inst p N = Some st" "freeable st" for p st
  proof -
    from that(1) obtain d where d: "instances N p = Some d" "st = \<lparr>inst = d, meta = headers N p, ktrace = mtrace N\<rparr>"
      by (auto simp: load_inst_def)
    obtain d' where d': "instances (dq_mod l') p = Some d'" "d'\<lparr>next_delayed := None\<rparr> = d\<lparr>next_delayed := None\<rparr>"
      using unlinked_fields(3) [OF l'(3), of p] d(1) by (auto simp: map_option_eq_Some)
    have "state d' = state d" "pages_count d' = pages_count d" "unmap_ops d' = unmap_ops d"
      using arg_cong [OF d'(2), of state] arg_cong [OF d'(2), of pages_count] arg_cong [OF d'(2), of unmap_ops] by simp_all
    then show ?thesis
      using that(2) d d'(1) unlinked_fields(1) [OF l'(3)] by (auto simp: load_inst_def freeable_def)
  qed
  moreover have "headers (dq_mod l') p = headers N p" "instances (dq_mod l') p = None \<longleftrightarrow> instances N p = None" for p
    using unlinked_fields(1) [OF l'(3)] unlinked_fields(3) [OF l'(3), of p] by (auto simp: map_option_is_None [symmetric] simp del: map_option_is_None)
  ultimately show ?thesis
    using l' sw unlinked_statics(3) [OF l'(3)] by (intro exI [of _ "dq_mod l'"] exI [of _ zs] exI [of _ N])
      (auto simp: xen_shm_free_delayed_queue_def dq_list_def)
qed

section \<open>Properties\<close>

text \<open>C25.  The sweep of the delayed queue, which follows and repairs the links between the instances, does what the sweep
  of the plain list of them does: it always ends, the end of each queued instance is attempted once and in order, those that
  succeed are freed and unlinked, the others stay queued in the same order and can be attempted again, and
  no other instance is touched.\<close>

theorem delayed_queue_is_swept:
  assumes "dq_list M xs" and "\<And>p. p \<in> set xs \<Longrightarrow> \<exists>st. load_inst p M = Some st \<and> freeable st"
  shows "\<exists>M' zs N. xen_shm_free_delayed_queue env M = Some M' \<and> sweep env xs M = Some (zs, N)
    \<and> dq_list M' zs \<and> unlinked M' = unlinked N \<and> subseq zs xs
    \<and> (\<forall>p \<in> set xs - set zs. instances M' p = None)
    \<and> (\<forall>p \<in> set zs. \<exists>st. load_inst p M' = Some st \<and> freeable st)
    \<and> (\<forall>p. p \<notin> set xs \<longrightarrow> headers M' p = headers M p \<and> (instances M' p = None \<longleftrightarrow> instances M p = None))"
  using delayed_queue_run [OF assms, of env] by blast

text \<open>A module with the instance of a closed offerer in the queue, and one with an open file.\<close>

definition small_mod :: "nat option \<Rightarrow> shm_mod" where
  "small_mod q = \<lparr>instances = [4096 \<mapsto> inst (small_shm XEN_SHM_STATE_OFFERER)], headers = [4096 \<mapsto> small_meta],
     xen_shm_delayed_free_queue = q, xen_shm_domid = 1, xen_shm_major_number = 0, xen_shm_device = 0, mtrace = []\<rparr>"

definition small_dev :: device where
  "small_dev = \<lparr>opened = {4096}, modul = small_mod None\<rparr>"

lemma small_mod_facts:
  "load_inst 4096 (small_mod q) = Some (small_shm XEN_SHM_STATE_OFFERER)" "shm_inv (small_shm XEN_SHM_STATE_OFFERER)"
  "env_sizes small_kenv" "dq_list (small_mod (Some 4096)) [4096]" "dev_inv small_dev"
proof -
  show ld: "load_inst 4096 (small_mod q) = Some (small_shm XEN_SHM_STATE_OFFERER)" for q
    by (simp add: load_inst_def small_mod_def small_shm_def)
  show inv: "shm_inv (small_shm XEN_SHM_STATE_OFFERER)"
    by (simp add: shm_inv_def small_shm_def small_inst_def small_meta_def)
  show "env_sizes small_kenv"
    using small_shm_inv(2) by (simp add: env_sizes_def env_maps_def small_kenv_def small_inst_def)
  show "dq_list (small_mod (Some 4096)) [4096]"
    by (simp add: dq_list_def small_mod_def small_shm_def small_inst_def)
  show "dev_inv small_dev"
    using ld inv by (auto simp: dev_inv_def small_dev_def) (simp add: small_mod_def)
qed

theorem delayed_queue_is_swept_witness:
  "\<exists>M' zs. xen_shm_free_delayed_queue small_kenv (small_mod (Some 4096)) = Some M' \<and> dq_list M' zs \<and> subseq zs [4096]"
proof -
  have "\<exists>st. load_inst p (small_mod (Some 4096)) = Some st \<and> freeable st" if "p \<in> set [4096]" for p
    using that small_mod_facts(1) freeable_inv [OF small_mod_facts(2)] by simp
  from delayed_queue_is_swept [OF small_mod_facts(4) this, of small_kenv] show ?thesis by blast
qed





text \<open>C27.  An instance whose file is closed while its grants are still in use, or its header page cannot be unmapped, is lost:
  \<^verbatim>\<open>__xen_shm_add_delayed_free\<close> leaves the queue as it was, so no later opening or closing of a file attempts
  to give the instance back, and its memory is never freed.\<close>

theorem failed_release_is_lost:
  assumes "dev_inv D" "env_sizes env" "p \<in> opened D"
    and "xen_shm_release env p (modul D) = Some (r, M)" "instances M p \<noteq> None"
    and "dev_reachable env \<lparr>opened = opened D - {p}, modul = M\<rparr> E"
  shows "instances (modul E) p = instances M p \<and> p \<notin> opened E \<and> xen_shm_delayed_free_queue (modul E) = None"
proof -
  let ?D = "\<lparr>opened = opened D - {p}, modul = M\<rparr>"
  have step: "dev_step env D ?D" by (rule dev_step.file_release [OF assms(3,4)])
  have inv: "dev_inv ?D" by (rule dev_step_inv [OF step assms(1,2)])
  have "p \<notin> opened E \<and> instances (modul E) p = instances (modul ?D) p"
    by (rule orphan_stays [OF assms(6) inv assms(2)]) (use assms(5) in simp_all)
  moreover have "xen_shm_delayed_free_queue (modul E) = None"
    using dev_reachable_inv [OF assms(6) inv assms(2)] by (simp add: dev_inv_def)
  ultimately show ?thesis by simp
qed

text \<open>A hypervisor that reports every grant as still in use.\<close>

definition busy_kenv :: kenv where
  "busy_kenv = small_kenv\<lparr>kanswer := \<lambda>h c. \<lparr>k_ret = 0, k_val = 4096, k_status = 0\<rparr>\<rparr>"

lemma busy_release:
  "\<exists>M. xen_shm_release busy_kenv 4096 (modul small_dev) = Some (0, M) \<and> instances M 4096 \<noteq> None"
proof -
  have q: "xen_shm_delayed_free_queue (small_mod None) = None" by (simp add: small_mod_def)
  obtain M st1 r st2 where M: "xen_shm_release busy_kenv 4096 (small_mod None) = Some (0, M)"
    and st1: "close_side busy_kenv (small_shm XEN_SHM_STATE_OFFERER) = Some st1"
    and pf: "xen_shm_prepare_free busy_kenv st1 = Some (r, st2)"
    and out: "if r = 0 then instances M 4096 = None else instances M 4096 = Some ((inst st2)\<lparr>next_delayed := None\<rparr>)"
    using release_run [OF q small_mod_facts(1,2), of busy_kenv] by blast
  have inst: "inst st1 = inst (small_shm XEN_SHM_STATE_OFFERER)" "\<exists>m. meta st1 = Some m" "shm_inv st1"
    using close_side_run [OF small_mod_facts(2), of busy_kenv] st1 by (auto simp: small_shm_def)
  then obtain m where m: "meta st1 = Some m" "length (grant_refs m) = 128" by (auto simp: shm_inv_def small_shm_def)
  have "state (inst st1) = XEN_SHM_STATE_OFFERER" "pages_count (inst st1) = 3" by (simp_all add: inst(1) small_shm_def)
  moreover from this have "end_grants busy_kenv st1 = Some (False, snd (kdo busy_kenv (K_end_access (grant_refs m ! 2)) st1))"
    using m by (simp add: end_grants.simps [of busy_kenv st1] split_beta) (simp add: busy_kenv_def)
  ultimately have "r = -1" using pf by (simp add: xen_shm_prepare_free_def)
  then show ?thesis using M out by (auto simp: small_dev_def)
qed

theorem failed_release_is_lost_witness:
  "\<exists>M. xen_shm_release busy_kenv 4096 (modul small_dev) = Some (0, M) \<and> instances M 4096 \<noteq> None
    \<and> (\<forall>E. dev_reachable busy_kenv \<lparr>opened = {}, modul = M\<rparr> E \<longrightarrow> instances (modul E) 4096 = instances M 4096)"
proof -
  have env: "env_sizes busy_kenv"
    using small_mod_facts(3) by (simp add: env_sizes_def env_maps_def env_pages_def busy_kenv_def)
  obtain M where M: "xen_shm_release busy_kenv 4096 (modul small_dev) = Some (0, M)" "instances M 4096 \<noteq> None"
    using busy_release by blast
  have o: "opened small_dev - {4096} = {}" "4096 \<in> opened small_dev" by (simp_all add: small_dev_def)
  from failed_release_is_lost [OF small_mod_facts(5) env o(2) M, unfolded o(1)] M show ?thesis by blast
qed

end
