(* ===== verification/Pipe_Device.thy ===== *)
theory Pipe_Device
  imports Pipe_System Shm_File
begin

text \<open>
  The pipe library over the device.  In \<^verbatim>\<open>Pipe_Types\<close> the answers of the system calls are a
  parameter; here they are the ones that the model of the kernel module gives: \<open>served\<close> says that
  the answers an end has seen are those of its instance.  Two ends, each over the instance of its own
  domain, meet in the header page: the page the receiver maps is the one the offerer has granted.
\<close>

section \<open>Definitions\<close>

text \<open>
  The surroundings of one open file: the kernel and the hypervisor; the rest of the memory of the
  process, which the calls do not set; the events between the calls, before the observation number \<open>t\<close>;
  and the events while a call that waits is asleep.
\<close>

record device_env =
  d_kenv :: kenv
  d_user :: user_view
  d_between :: "nat \<Rightarrow> wait_ev list"
  d_asleep :: "nat \<Rightarrow> (nat \<times> wait_ev) list"

fun deliver :: "kenv \<Rightarrow> wait_ev \<Rightarrow> shm_st \<Rightarrow> shm_st" where
  "deliver env Ev_irq st = xen_shm_event_handler env st"
| "deliver env (Ev_peer f) st = st\<lparr>meta := map_option f (meta st)\<rparr>"
| "deliver env Ev_signal st = st"

text \<open>The command and the argument of each system call, and the answer to an \<^verbatim>\<open>ioctl\<close>: a
  negative result \<open>r\<close> is \<open>-1\<close> with \<^verbatim>\<open>errno\<close> set to \<open>- r\<close>.\<close>

fun ioctl_of :: "syscall \<Rightarrow> user_view \<Rightarrow> (u32 \<times> user_view) option" where
  "ioctl_of (Sys_get_domid _) u = Some (XEN_SHM_IOCTL_GET_DOMID, u)"
| "ioctl_of (Sys_init_offerer _ n d) u = Some (XEN_SHM_IOCTL_INIT_OFFERER,
     u\<lparr>uv_offerer := (uv_offerer u)\<lparr>off_pages_count := n, off_dist_domid := d\<rparr>\<rparr>)"
| "ioctl_of (Sys_init_receiver _ n d g) u = Some (XEN_SHM_IOCTL_INIT_RECEIVER,
     u\<lparr>uv_receiver := \<lparr>rcv_pages_count = n, rcv_dist_domid = d, rcv_grant = g\<rparr>\<rparr>)"
| "ioctl_of (Sys_await _ f t) u = Some (XEN_SHM_IOCTL_AWAIT,
     u\<lparr>uv_await := (uv_await u)\<lparr>request_flags := f, timeout_ms := t\<rparr>\<rparr>)"
| "ioctl_of (Sys_ssig _) u = Some (XEN_SHM_IOCTL_SSIG, u)"
| "ioctl_of _ u = None"

definition ioctl_answer :: "int \<Rightarrow> user_out \<Rightarrow> sys_answer \<Rightarrow> bool" where
  "ioctl_answer r out a \<longleftrightarrow>
    (if r < 0 then a_ret a = -1 \<and> a_errno a = - r
     else a_ret a = r \<and>
       (case out of
          U_offerer k \<Rightarrow> a_domid a = off_local_domid k \<and> a_grant a = off_grant k
        | U_await k \<Rightarrow> a_remaining a = remaining_ms k
        | U_getdomid d \<Rightarrow> a_domid a = d
        | _ \<Rightarrow> True))"

text \<open>A shared, writable mapping of \<open>len\<close> bytes at the address of the answer; \<^verbatim>\<open>mmap\<close> returns whole pages.\<close>

definition user_area :: "nat \<Rightarrow> nat \<Rightarrow> vm_area_struct" where
  "user_area addr len = \<lparr>vm_start = addr, vm_end = addr + len, vm_write = True, vm_shared = True\<rparr>"

definition mmap_answer :: "int \<Rightarrow> sys_answer \<Rightarrow> bool" where
  "mmap_answer r a \<longleftrightarrow> (if r \<noteq> 0 then a_ret a = -1 \<and> a_errno a = - r else a_ret a \<noteq> -1 \<and> PAGE_SIZE dvd a_addr a)"

text \<open>One system call on an open file: the instance afterwards, when \<open>a\<close> is the answer to it.\<close>

definition device_call ::
  "device_env \<Rightarrow> (nat \<times> wait_ev) list \<Rightarrow> syscall \<Rightarrow> sys_answer \<Rightarrow> shm_st \<Rightarrow> shm_st option" where
  "device_call D evs c a k =
    (case c of
       Sys_mmap _ len \<Rightarrow>
         do {
           (r, k) \<leftarrow> xen_shm_mmap (d_kenv D) (user_area (a_addr a) len) k;
           if mmap_answer r a then Some k else None
         }
     | _ \<Rightarrow>
         do {
           (cmd, u) \<leftarrow> ioctl_of c (d_user D);
           (r, out, k) \<leftarrow> xen_shm_ioctl (d_kenv D) u 0 evs cmd k;
           if ioctl_answer r out a then Some k else None
         })"

text \<open>The calls \<open>cs\<close>, one at each observation from \<open>t\<close> on.\<close>

fun device_run :: "device_env \<Rightarrow> pipe_env \<Rightarrow> nat \<Rightarrow> syscall list \<Rightarrow> shm_st \<Rightarrow> shm_st option" where
  "device_run D env t [] k = Some k"
| "device_run D env t (c # cs) k =
    do {
      k \<leftarrow> device_call D (d_asleep D t) c (answer env t) (fold (deliver (d_kenv D)) (d_between D t) k);
      device_run D env (Suc t) cs k
    }"

text \<open>The calls that an operation of the library has issued between \<open>st\<close> and \<open>st'\<close> are answered by the device.\<close>

definition served :: "device_env \<Rightarrow> pipe_env \<Rightarrow> pipe_st \<Rightarrow> pipe_st \<Rightarrow> shm_st \<Rightarrow> shm_st \<Rightarrow> bool" where
  "served D env st st' k k' \<longleftrightarrow>
     device_run D env (tick st) (drop (length (calls st)) (calls st')) k = Some k'"

text \<open>The part of a header page that the offerer writes once and nobody changes afterwards.\<close>

definition offer_view :: "xen_shm_meta_page_data \<Rightarrow> u8 \<times> u32 \<times> u32 list" where
  "offer_view m = (meta_pages_count m, offerer_ec_port m, grant_refs m)"

text \<open>Surroundings whose parameters have the sizes of what they stand for, and a peer that leaves the offer alone.\<close>

definition device_wf :: "device_env \<Rightarrow> bool" where
  "device_wf D \<longleftrightarrow> env_pages (d_kenv D) \<and> env_maps (d_kenv D)
     \<and> (\<forall>t f m. Ev_peer f \<in> set (d_between D t) \<longrightarrow> offer_view (f m) = offer_view m)"

section \<open>The calls of a connection\<close>

text \<open>What the events between two calls leave alone.\<close>

definition quiet_step :: "shm_st \<Rightarrow> shm_st \<Rightarrow> bool" where
  "quiet_step k k' \<longleftrightarrow> ec_frame (inst k') = ec_frame (inst k) \<and> local_ec_port (inst k') = local_ec_port (inst k)
     \<and> map_option offer_view (meta k') = map_option offer_view (meta k) \<and> prefix (ktrace k) (ktrace k')"

lemma quiet_step_refl [simp]: "quiet_step k k"
  by (simp add: quiet_step_def)

lemma quiet_step_trans: "quiet_step a b \<Longrightarrow> quiet_step b c \<Longrightarrow> quiet_step a c"
  by (auto simp: quiet_step_def intro: prefix_order.trans)

lemma quiet_step_inv_view:
  assumes "quiet_step k k'"
  shows "inv_view (inst k') = inv_view (inst k)"
  using ec_frame_fields [of "inst k'" "inst k"] assms by (simp add: quiet_step_def inv_view_def)

lemma quiet_step_deliver:
  assumes "\<And>f m. e = Ev_peer f \<Longrightarrow> offer_view (f m) = offer_view m"
  shows "quiet_step k (deliver env e k)"
  using assms
  by (cases e) (auto simp: quiet_step_def xen_shm_event_handler_def Let_def ec_frame_def option.map_comp o_def
      cong: option.map_cong)

lemma quiet_step_fold:
  assumes "\<And>f m. Ev_peer f \<in> set es \<Longrightarrow> offer_view (f m) = offer_view m"
  shows "quiet_step k (fold (deliver env) es k)"
  using assms
proof (induction es arbitrary: k)
  case (Cons e es)
  have "quiet_step k (deliver env e k)" using Cons.prems by (intro quiet_step_deliver) auto
  with Cons.IH [of "deliver env e k"] Cons.prems show ?case by (auto intro: quiet_step_trans)
qed simp

lemma quiet_between: "device_wf D \<Longrightarrow> quiet_step k (fold (deliver (d_kenv D)) (d_between D t) k)"
  by (rule quiet_step_fold) (auto simp: device_wf_def)

lemma quiet_step_inv:
  assumes "shm_inv k" "quiet_step k k'"
  shows "shm_inv k'"
proof (rule shm_inv_view [OF assms(1) quiet_step_inv_view [OF assms(2)]])
  have "map_option offer_view (meta k') = map_option offer_view (meta k)" using assms(2) by (simp add: quiet_step_def)
  then have "map_option (length \<circ> snd \<circ> snd) (map_option offer_view (meta k'))
      = map_option (length \<circ> snd \<circ> snd) (map_option offer_view (meta k))" by simp
  then show "map_option (\<lambda>m. length (grant_refs m)) (meta k') = map_option (\<lambda>m. length (grant_refs m)) (meta k)"
    by (simp add: option.map_comp o_def offer_view_def)
qed

text \<open>The first \<open>i\<close> pages that the instance shares: page number \<open>i\<close> of its memory, counted with the header page, has
  been granted to the other domain and \<open>ref\<close> is the reference the hypervisor gave for it.\<close>

definition page_granted :: "kenv \<Rightarrow> shm_st \<Rightarrow> nat \<Rightarrow> u32 \<Rightarrow> bool" where
  "page_granted K k i ref \<longleftrightarrow>
    (let c = K_grant_access (distant_domid (inst k)) (shared_memory (inst k) + i * PAGE_SIZE)
     in \<exists>j < length (ktrace k). ktrace k ! j = c \<and> ref = of_int (k_ret (kanswer K (take j (ktrace k)) c)))"

lemma page_granted_mono:
  assumes "page_granted K k i ref" "prefix (ktrace k) (ktrace k')"
    and "distant_domid (inst k') = distant_domid (inst k)" "shared_memory (inst k') = shared_memory (inst k)"
  shows "page_granted K k' i ref"
proof -
  obtain t where t: "ktrace k' = ktrace k @ t" using assms(2) by (auto simp: prefix_def)
  from assms(1) obtain j where "j < length (ktrace k)"
    "ktrace k ! j = K_grant_access (distant_domid (inst k)) (shared_memory (inst k) + i * PAGE_SIZE)"
    "ref = of_int (k_ret (kanswer K (take j (ktrace k)) (ktrace k ! j)))"
    by (auto simp: page_granted_def Let_def)
  then show ?thesis
    unfolding page_granted_def Let_def by (intro exI [of _ j]) (simp add: t assms(3,4) nth_append)
qed

text \<open>An instance that offers \<open>n\<close> pages.\<close>

definition offering :: "kenv \<Rightarrow> u8 \<Rightarrow> shm_st \<Rightarrow> bool" where
  "offering K n k \<longleftrightarrow> state (inst k) = XEN_SHM_STATE_OFFERER \<and> unat n \<in> {1..XEN_SHM_MAX_SHARED_PAGES}
     \<and> pages_count (inst k) = n + 1
     \<and> (\<exists>m. meta k = Some m \<and> meta_pages_count m = n + 1 \<and> offerer_ec_port m = local_ec_port (inst k)
          \<and> (\<forall>i \<le> unat n. page_granted K k i (grant_refs m ! i)))"

lemma quiet_step_offering:
  assumes "offering K n k" "quiet_step k k'"
  shows "offering K n k'"
proof -
  note f = ec_frame_fields [of "inst k'" "inst k"]
  have q: "ec_frame (inst k') = ec_frame (inst k)" "local_ec_port (inst k') = local_ec_port (inst k)"
      "map_option offer_view (meta k') = map_option offer_view (meta k)" "prefix (ktrace k) (ktrace k')"
    using assms(2) by (simp_all add: quiet_step_def)
  obtain m where m: "meta k = Some m" "meta_pages_count m = n + 1" "offerer_ec_port m = local_ec_port (inst k)"
      "\<forall>i \<le> unat n. page_granted K k i (grant_refs m ! i)"
    using assms(1) by (auto simp: offering_def)
  obtain m' where m': "meta k' = Some m'" "offer_view m' = offer_view m" using q(3) m(1) by auto
  have "page_granted K k' i (grant_refs m' ! i)" if "i \<le> unat n" for i
    using page_granted_mono [OF _ q(4) f(10,3), OF _ q(1) q(1)] m(4) m'(2) that by (simp add: offer_view_def)
  with assms(1) f(1,2) q(1,2) m m' show ?thesis by (simp add: offering_def offer_view_def)
qed

lemma grant_calls_split:
  assumes "i < p"
  shows "grant_calls d 0 p =
    grant_calls d 0 i @ K_grant_access (distant_domid d) (shared_memory d + i * PAGE_SIZE) # grant_calls d (Suc i) p"
proof -
  have "[0..<p] = [0..<i] @ i # [Suc i..<p]"
    using assms upt_add_eq_append [of 0 i "p - i"] by (simp add: upt_conv_Cons)
  then show ?thesis by (simp add: grant_calls_def)
qed

lemma offered_offering:
  assumes "offered K arg k arg' k'"
  shows "offering K (off_pages_count arg) k'" "off_local_domid arg' = local_domid (inst k')"
    "meta k' = Some m \<Longrightarrow> off_grant arg' = grant_refs m ! 0"
    "distant_domid (inst k') = resolve_domid (off_dist_domid arg) (inst k)" "local_domid (inst k') = local_domid (inst k)"
proof -
  let ?n = "off_pages_count arg"
  obtain m order ecs where o: "state (inst k') = XEN_SHM_STATE_OFFERER" "unat ?n \<in> {1..XEN_SHM_MAX_SHARED_PAGES}"
      "unat (pages_count (inst k')) = unat ?n + 1" "meta k' = Some m" "meta_pages_count m = pages_count (inst k')"
      "offerer_ec_port m = local_ec_port (inst k')" "off_grant arg' = grant_refs m ! 0"
      "off_local_domid arg' = local_domid (inst k')" "distant_domid (inst k') = resolve_domid (off_dist_domid arg) (inst k)"
      "local_domid (inst k') = local_domid (inst k)"
    and tr: "ktrace k' = ktrace k @ [K_get_free_pages order] @ grant_calls (inst k') 0 (unat ?n + 1) @ ecs"
    and refs: "\<forall>i < unat ?n + 1. grant_refs m ! i = granted K (ktrace k @ [K_get_free_pages order]) (inst k') 0 i"
    using assms by (auto simp: offered_def)
  have "?n \<noteq> 0" using o(2) by auto
  then have pc: "pages_count (inst k') = ?n + 1" using o(2,3) pages_plus_one(1) by (simp add: word_unat_eq_iff)
  have "page_granted K k' i (grant_refs m ! i)" if i: "i \<le> unat ?n" for i
    unfolding page_granted_def Let_def
  proof (intro exI [of _ "length (ktrace k @ [K_get_free_pages order]) + i"] conjI)
    let ?c = "K_grant_access (distant_domid (inst k')) (shared_memory (inst k') + i * PAGE_SIZE)"
    have split: "grant_calls (inst k') 0 (Suc (unat ?n)) = grant_calls (inst k') 0 i @ ?c # grant_calls (inst k') (Suc i) (Suc (unat ?n))"
      using grant_calls_split [of i "Suc (unat ?n)" "inst k'"] i by simp
    have len: "length (grant_calls (inst k') 0 i) = i" by (simp add: grant_calls_def)
    show "length (ktrace k @ [K_get_free_pages order]) + i < length (ktrace k')" by (simp add: tr split len)
    show "ktrace k' ! (length (ktrace k @ [K_get_free_pages order]) + i) = ?c"
      by (simp add: tr split len nth_append)
    have "take (length (ktrace k @ [K_get_free_pages order]) + i) (ktrace k')
        = (ktrace k @ [K_get_free_pages order]) @ grant_calls (inst k') 0 i"
      by (simp add: tr split len)
    then show "grant_refs m ! i = of_int (k_ret (kanswer K
        (take (length (ktrace k @ [K_get_free_pages order]) + i) (ktrace k')) ?c))"
      using refs i by (simp add: granted_def)
  qed
  with o pc show "offering K ?n k'" by (auto simp: offering_def)
  show "off_local_domid arg' = local_domid (inst k')" "distant_domid (inst k') = resolve_domid (off_dist_domid arg) (inst k)"
    "local_domid (inst k') = local_domid (inst k)" using o by simp_all
  show "meta k' = Some m \<Longrightarrow> off_grant arg' = grant_refs m ! 0" for m using o(4,7) by simp
qed

text \<open>An \<^verbatim>\<open>ioctl\<close> of the library, after the checks of its command word.\<close>

lemma device_ioctl:
  assumes "device_call D evs c a k = Some k'" "ioctl_of c (d_user D) = Some (cmd, u)"
  obtains r out where "xen_shm_ioctl (d_kenv D) u 0 evs cmd k = Some (r, out, k')" "ioctl_answer r out a"
  using assms by (cases c) (auto simp: device_call_def bind_eq_Some_conv split: if_splits)

lemma ioctl_types:
  "IOC_TYPE XEN_SHM_IOCTL_INIT_OFFERER = of_nat XEN_SHM_MAGIC_NUMBER"
  "IOC_TYPE XEN_SHM_IOCTL_INIT_RECEIVER = of_nat XEN_SHM_MAGIC_NUMBER"
  "IOC_TYPE XEN_SHM_IOCTL_AWAIT = of_nat XEN_SHM_MAGIC_NUMBER"
  "IOC_TYPE XEN_SHM_IOCTL_SSIG = of_nat XEN_SHM_MAGIC_NUMBER"
  by (simp_all add: IOC_TYPE_def)

lemma switch_commands:
  "ioctl_switch K u junk evs XEN_SHM_IOCTL_INIT_OFFERER k = ioctl_init_offerer K u k"
  "ioctl_switch K u junk evs XEN_SHM_IOCTL_INIT_RECEIVER k = ioctl_init_receiver K u k"
  "ioctl_switch K u junk evs XEN_SHM_IOCTL_AWAIT k = ioctl_await K u evs k"
  "ioctl_switch K u junk evs XEN_SHM_IOCTL_SSIG k =
    do { (retval, k) \<leftarrow> xen_shm_ioctl_ssig K k; Some (retval, U_nothing, k) }"
  by (simp_all add: ioctl_switch_def)

text \<open>A command of the device that returns 0 has been carried out in a state that differs from \<open>k\<close> only in the calls
  that check the argument.\<close>

lemma ioctl_ok:
  assumes "xen_shm_ioctl K u junk evs cmd k = Some (0, out, k')" "IOC_TYPE cmd = of_nat XEN_SHM_MAGIC_NUMBER"
  obtains k1 where "ioctl_switch K u junk evs cmd k1 = Some (0, out, k')"
    "inst k1 = inst k" "meta k1 = meta k" "prefix (ktrace k) (ktrace k1)"
proof
  show "ioctl_switch K u junk evs cmd (snd (test_access K cmd k)) = Some (0, out, k')"
    using assms by (auto simp: xen_shm_ioctl_def split_beta split: if_splits)
  show "inst (snd (test_access K cmd k)) = inst k" "meta (snd (test_access K cmd k)) = meta k" by simp_all
  show "prefix (ktrace k) (ktrace (snd (test_access K cmd k)))" by (simp add: test_access_def split_beta)
qed

lemma copy_to_user_ok:
  assumes "copy_to_user K sz out k = (0, out', k')"
  shows "out' = out" "inst k' = inst k" "meta k' = meta k" "prefix (ktrace k) (ktrace k')"
  using assms by (auto simp: copy_to_user_def split_beta split: if_splits)

lemma init_offerer_ok:
  assumes "device_call D evs (Sys_init_offerer f n d) a k = Some k'" "a_ret a = 0" "shm_inv k" "env_pages (d_kenv D)"
  shows "shm_inv k'" "offering (d_kenv D) n k'" "a_domid a = local_domid (inst k')"
    "meta k' = Some m \<Longrightarrow> a_grant a = grant_refs m ! 0" "distant_domid (inst k') = resolve_domid d (inst k)"
    "local_domid (inst k') = local_domid (inst k)"
proof -
  let ?u = "(d_user D)\<lparr>uv_offerer := (uv_offerer (d_user D))\<lparr>off_pages_count := n, off_dist_domid := d\<rparr>\<rparr>"
  obtain r out where "xen_shm_ioctl (d_kenv D) ?u 0 evs XEN_SHM_IOCTL_INIT_OFFERER k = Some (r, out, k')"
    and ans: "ioctl_answer r out a"
    using device_ioctl [OF assms(1) ioctl_of.simps(2)] by blast
  moreover have "r = 0" using ans assms(2) by (simp add: ioctl_answer_def split: if_splits)
  ultimately obtain k1 where run: "ioctl_init_offerer (d_kenv D) ?u k1 = Some (0, out, k')"
    and k1: "inst k1 = inst k" "meta k1 = meta k"
    using ioctl_ok [OF _ ioctl_types(1)] unfolding switch_commands by blast
  let ?k = "snd (kdo (d_kenv D) (K_copy_from_user sizeof_offerer) k1)"
  from run obtain karg k2 where call: "xen_shm_ioctl_init_offerer (d_kenv D) (uv_offerer ?u) ?k = Some (0, karg, k2)"
    and cp: "copy_to_user (d_kenv D) sizeof_offerer (U_offerer karg) k2 = (0, out, k')"
    by (auto simp: ioctl_init_offerer_def split_beta bind_eq_Some_conv split: if_splits)
  have "shm_inv ?k" using shm_inv_cong [OF assms(3) k1] by simp
  from init_offerer_run [OF this assms(4), of "uv_offerer ?u"] call
  have off: "offered (d_kenv D) (uv_offerer ?u) ?k karg k2" and inv: "shm_inv k2" by auto
  note c = copy_to_user_ok [OF cp]
  note o = offered_offering [OF off]
  have q: "quiet_step k2 k'" using c by (simp add: quiet_step_def)
  show "shm_inv k'" by (rule quiet_step_inv [OF inv q])
  show "offering (d_kenv D) n k'" using quiet_step_offering [OF o(1) q] by simp
  show "a_domid a = local_domid (inst k')" "meta k' = Some m \<Longrightarrow> a_grant a = grant_refs m ! 0"
    using ans \<open>r = 0\<close> c o(2,3) by (simp_all add: ioctl_answer_def)
  show "distant_domid (inst k') = resolve_domid d (inst k)" "local_domid (inst k') = local_domid (inst k)"
    using o(4,5) c k1 by simp_all
qed

text \<open>The mapping of an offerer is its memory after the header page.\<close>

lemma offerer_mmap_ok:
  assumes "device_call D evs (Sys_mmap f (unat n * PAGE_SIZE)) a k = Some k'" "a_ret a \<noteq> -1"
    and off: "offering (d_kenv D) n k"
  shows "inst k' = inst k" "meta k' = meta k" "PAGE_SIZE dvd a_addr a"
    "ktrace k' = ktrace k @ [K_remap_pfn_range (a_addr a) (shared_memory (inst k) + PAGE_SIZE) (unat n * PAGE_SIZE)]"
proof -
  have n: "n \<noteq> 0" "unat n \<le> XEN_SHM_MAX_SHARED_PAGES" "pages_count (inst k) = n + 1"
    and st: "state (inst k) = XEN_SHM_STATE_OFFERER" using off by (auto simp: offering_def)
  have sp: "shared_pages (inst k) = unat n" by (simp add: shared_pages_def n(3) pages_plus_one(1) [OF n(1,2)])
  let ?c = "K_remap_pfn_range (a_addr a) (shared_memory (inst k) + PAGE_SIZE) (unat n * PAGE_SIZE)"
  have "k' = snd (kdo (d_kenv D) ?c k)" "PAGE_SIZE dvd a_addr a"
    using assms(1,2) st sp
    by (auto simp: device_call_def xen_shm_mmap_def user_area_def split_beta mmap_answer_def split: if_splits)
  then show "inst k' = inst k" "meta k' = meta k" "PAGE_SIZE dvd a_addr a" "ktrace k' = ktrace k @ [?c]" by simp_all
qed

text \<open>An instance that has mapped the header page \<open>m\<close>, named by the reference \<open>g\<close>, of an offer of \<open>n\<close> pages, and
  bound the port that the page names.\<close>

definition receiving :: "u8 \<Rightarrow> u32 \<Rightarrow> xen_shm_meta_page_data \<Rightarrow> shm_st \<Rightarrow> bool" where
  "receiving n g m k \<longleftrightarrow> state (inst k) = XEN_SHM_STATE_RECEIVER \<and> unat n \<in> {1..XEN_SHM_MAX_SHARED_PAGES}
     \<and> pages_count (inst k) = n + 1 \<and> meta_pages_count m = n + 1
     \<and> map_option offer_view (meta k) = Some (offer_view m)
     \<and> K_map_grant (shared_memory (inst k)) g (distant_domid (inst k)) \<in> set (ktrace k)
     \<and> K_evtchn_bind_interdomain (distant_domid (inst k)) (offerer_ec_port m) \<in> set (ktrace k)"

lemma quiet_step_receiving:
  assumes "receiving n g m k" "quiet_step k k'"
  shows "receiving n g m k'"
proof -
  note f = ec_frame_fields [of "inst k'" "inst k"]
  have "set (ktrace k) \<subseteq> set (ktrace k')" using assms(2) set_mono_prefix by (auto simp: quiet_step_def)
  with assms f(1,2,3,10) show ?thesis by (auto simp: receiving_def quiet_step_def)
qed

lemma init_receiver_ok:
  assumes "device_call D evs (Sys_init_receiver f n d g) a k = Some k'" "a_ret a = 0" "shm_inv k" "env_pages (d_kenv D)"
  shows "shm_inv k'" "\<exists>h. receiving n g (kpage (d_kenv D) h) k'" "distant_domid (inst k') = resolve_domid d (inst k)"
proof -
  let ?arg = "\<lparr>rcv_pages_count = n, rcv_dist_domid = d, rcv_grant = g\<rparr>"
  let ?u = "(d_user D)\<lparr>uv_receiver := ?arg\<rparr>"
  obtain r out where "xen_shm_ioctl (d_kenv D) ?u 0 evs XEN_SHM_IOCTL_INIT_RECEIVER k = Some (r, out, k')"
    and ans: "ioctl_answer r out a"
    using device_ioctl [OF assms(1) ioctl_of.simps(3)] by blast
  moreover have "r = 0" using ans assms(2) by (simp add: ioctl_answer_def split: if_splits)
  ultimately obtain k1 where run: "ioctl_init_receiver (d_kenv D) ?u k1 = Some (0, out, k')"
    and k1: "inst k1 = inst k" "meta k1 = meta k"
    using ioctl_ok [OF _ ioctl_types(2)] unfolding switch_commands by blast
  let ?k = "snd (kdo (d_kenv D) (K_copy_from_user sizeof_receiver) k1)"
  let ?m = "kpage (d_kenv D) (ktrace ?k @ [K_alloc_vm_area PAGE_SIZE])"
  from run obtain k2 where call: "xen_shm_ioctl_init_receiver (d_kenv D) ?arg ?k = Some (0, k2)"
    and cp: "copy_to_user (d_kenv D) sizeof_receiver (U_receiver ?arg) k2 = (0, out, k')"
    by (auto simp: ioctl_init_receiver_def split_beta bind_eq_Some_conv split: if_splits)
  have "shm_inv ?k" using shm_inv_cong [OF assms(3) k1] by simp
  from init_receiver_run [OF this assms(4), of ?arg] call
  have j: "joined (d_kenv D) ?arg ?k k2" and inv: "shm_inv k2" by auto
  note c = copy_to_user_ok [OF cp]
  have q: "quiet_step k2 k'" using c by (simp add: quiet_step_def)
  have n: "unat n \<in> {1..XEN_SHM_MAX_SHARED_PAGES}" "unat (pages_count (inst k2)) = unat n + 1"
    using j by (auto simp: joined_def)
  then have "n \<noteq> 0" by auto
  then have pc: "pages_count (inst k2) = n + 1" using n pages_plus_one(1) [of n] by (simp add: word_unat_eq_iff)
  show "shm_inv k'" by (rule quiet_step_inv [OF inv q])
  have "receiving n g ?m k2" using j n(1) pc by (auto simp: joined_def receiving_def offer_view_def)
  then show "\<exists>h. receiving n g (kpage (d_kenv D) h) k'" using quiet_step_receiving [OF _ q] by blast
  show "distant_domid (inst k') = resolve_domid d (inst k)" using j c k1 by (auto simp: joined_def)
qed

text \<open>The mapping of a receiver: one operation for each page of the offer, in the order of the offer, all successful.\<close>

definition maps_offer :: "kenv \<Rightarrow> u8 \<Rightarrow> u16 \<Rightarrow> xen_shm_meta_page_data \<Rightarrow> shm_st \<Rightarrow> bool" where
  "maps_offer K n domid m k \<longleftrightarrow> (\<exists>j < length (ktrace k). \<exists>ops pt. ktrace k ! j = K_map_refs ops pt \<and> length ops = unat n
     \<and> (\<forall>i < unat n. mo_ref (ops ! i) = grant_refs m ! (i + 1) \<and> mo_dom (ops ! i) = domid
          \<and> fst (kmapped K (take j (ktrace k)) i) = 0))"

lemma receiver_mmap_ok:
  assumes "device_call D evs (Sys_mmap f (unat n * PAGE_SIZE)) a k = Some k'" "a_ret a \<noteq> -1"
    and inv: "shm_inv k" "env_maps (d_kenv D)" and rcv: "receiving n g m k"
  shows "state (inst k') = XEN_SHM_STATE_RECEIVER_MAPPED" "PAGE_SIZE dvd a_addr a"
    "user_mem (inst k') = Some (user_area (a_addr a) (unat n * PAGE_SIZE))"
    "maps_offer (d_kenv D) n (distant_domid (inst k)) m k'" "prefix (ktrace k) (ktrace k')"
proof -
  let ?v = "user_area (a_addr a) (unat n * PAGE_SIZE)"
  have n: "n \<noteq> 0" "unat n \<le> XEN_SHM_MAX_SHARED_PAGES" "pages_count (inst k) = n + 1"
    and st: "state (inst k) = XEN_SHM_STATE_RECEIVER" using rcv by (auto simp: receiving_def)
  have sp: "shared_pages (inst k) = unat n" by (simp add: shared_pages_def n(3) pages_plus_one(1) [OF n(1,2)])
  have v: "\<not> (vm_write ?v \<and> \<not> vm_shared ?v)" "page_range ?v (shared_pages (inst k))"
    by (simp_all add: user_area_def page_range_def sp)
  have "xen_shm_mmap (d_kenv D) ?v k = Some (0, k')" and al: "PAGE_SIZE dvd a_addr a"
    using assms(1,2) by (auto simp: device_call_def mmap_answer_def bind_eq_Some_conv split: if_splits)
  with receiver_mmap_run [OF inv(1) st inv(2) v] obtain pre ops where run: "mmap_done (d_kenv D) ?v pre ops k k'"
    by auto
  obtain m' where m': "meta k = Some m'" "offer_view m' = offer_view m" using rcv by (auto simp: receiving_def)
  let ?h = "ktrace k @ pre"
  obtain rest where d: "maps_header_refs ops k" "state (inst k') = XEN_SHM_STATE_RECEIVER_MAPPED" "user_mem (inst k') = Some ?v"
      "\<forall>i < unat n. fst (kmapped (d_kenv D) ?h i) = 0" "ktrace k' = ?h @ [K_map_refs ops (use_ptemod (inst k))] @ rest"
    using run by (auto simp: mmap_done_def Let_def sp)
  show "state (inst k') = XEN_SHM_STATE_RECEIVER_MAPPED" "PAGE_SIZE dvd a_addr a"
    "user_mem (inst k') = Some ?v" "prefix (ktrace k) (ktrace k')" using d al by simp_all
  show "maps_offer (d_kenv D) n (distant_domid (inst k)) m k'"
    unfolding maps_offer_def
    by (intro exI [of _ "length ?h"] conjI exI [of _ ops] exI [of _ "use_ptemod (inst k)"])
      (use d m' sp in \<open>auto simp: maps_header_refs_def offer_view_def nth_append\<close>)
qed

section \<open>The two ends of a connection\<close>

lemma resolve_quiet: "quiet_step k k' \<Longrightarrow> resolve_domid d (inst k') = resolve_domid d (inst k)"
  using ec_frame_fields(11) [of "inst k'" "inst k"] by (simp add: quiet_step_def resolve_domid_def)

lemma device_run_step:
  assumes "device_run D env t (c # cs) k = Some k'" "device_wf D"
  obtains k0 k1 where "quiet_step k k0" "device_call D (d_asleep D t) c (answer env t) k0 = Some k1"
    "device_run D env (Suc t) cs k1 = Some k'"
  using assms quiet_between [OF assms(2)] by (auto simp: bind_eq_Some_conv)

text \<open>Two calls in a row, with events before each of them.\<close>

lemma device_run_two:
  assumes "device_run D env t [c1, c2] k = Some k'" "device_wf D"
  obtains k0 k1 k2 where "quiet_step k k0" "device_call D (d_asleep D t) c1 (answer env t) k0 = Some k1"
    "quiet_step k1 k2" "device_call D (d_asleep D (Suc t)) c2 (answer env (Suc t)) k2 = Some k'"
proof -
  from assms(1) obtain k0 k1 where 1: "quiet_step k k0" "device_call D (d_asleep D t) c1 (answer env t) k0 = Some k1"
    "device_run D env (Suc t) [c2] k1 = Some k'" by (rule device_run_step [OF _ assms(2)])
  from 1(3) obtain k2 where "quiet_step k1 k2" "device_call D (d_asleep D (Suc t)) c2 (answer env (Suc t)) k2 = Some k'"
    by (rule device_run_step [OF _ assms(2)]) simp
  with 1(1,2) that show thesis by blast
qed

lemma device_run_offers:
  assumes run: "device_run D env t [Sys_init_offerer f n d, Sys_mmap f (unat n * PAGE_SIZE)] k = Some k'"
    and ans: "a_ret (answer env t) = 0" "a_ret (answer env (Suc t)) \<noteq> -1" and dev: "device_wf D" "shm_inv k"
  shows "offering (d_kenv D) n k'" "shm_inv k'" "a_domid (answer env t) = local_domid (inst k')"
    "meta k' = Some m \<Longrightarrow> a_grant (answer env t) = grant_refs m ! 0" "distant_domid (inst k') = resolve_domid d (inst k)"
    "PAGE_SIZE dvd a_addr (answer env (Suc t))"
    "K_remap_pfn_range (a_addr (answer env (Suc t))) (shared_memory (inst k') + PAGE_SIZE) (unat n * PAGE_SIZE) \<in> set (ktrace k')"
    "local_domid (inst k') = local_domid (inst k)"
proof -
  obtain k0 k1 k2 where k: "quiet_step k k0" "quiet_step k1 k2"
    and c1: "device_call D (d_asleep D t) (Sys_init_offerer f n d) (answer env t) k0 = Some k1"
    and c2: "device_call D (d_asleep D (Suc t)) (Sys_mmap f (unat n * PAGE_SIZE)) (answer env (Suc t)) k2 = Some k'"
    by (rule device_run_two [OF run dev(1)])
  have env: "env_pages (d_kenv D)" using dev(1) by (simp add: device_wf_def)
  note i = init_offerer_ok [OF c1 ans(1) quiet_step_inv [OF dev(2) k(1)] env]
  note m = offerer_mmap_ok [OF c2 ans(2) quiet_step_offering [OF i(2) k(2)]]
  have q: "quiet_step k1 k'" by (rule quiet_step_trans [OF k(2)]) (simp add: quiet_step_def m)
  then have fr: "ec_frame (inst k') = ec_frame (inst k1)" by (simp add: quiet_step_def)
  note f = ec_frame_fields [OF fr]
  show "offering (d_kenv D) n k'" by (rule quiet_step_offering [OF i(2) q])
  show "shm_inv k'" by (rule quiet_step_inv [OF i(1) q])
  show "a_domid (answer env t) = local_domid (inst k')" using i(3) f(11) by simp
  show "distant_domid (inst k') = resolve_domid d (inst k)" using i(5) f(10) resolve_quiet [OF k(1)] by simp
  have "local_domid (inst k0) = local_domid (inst k)"
    using k(1) ec_frame_fields(11) [of "inst k0" "inst k"] by (simp add: quiet_step_def)
  then show "local_domid (inst k') = local_domid (inst k)" using i(6) f(11) by simp
  show "a_grant (answer env t) = grant_refs m ! 0" if mk: "meta k' = Some m"
  proof -
    obtain m1 where "meta k1 = Some m1" "offer_view m1 = offer_view m"
      using q mk by (cases "meta k1") (auto simp: quiet_step_def)
    then show ?thesis using i(4) by (simp add: offer_view_def)
  qed
  show "PAGE_SIZE dvd a_addr (answer env (Suc t))"
    "K_remap_pfn_range (a_addr (answer env (Suc t))) (shared_memory (inst k') + PAGE_SIZE) (unat n * PAGE_SIZE) \<in> set (ktrace k')"
    using m by simp_all
qed

lemma device_run_connects:
  assumes run: "device_run D env t [Sys_init_receiver f n d g, Sys_mmap f (unat n * PAGE_SIZE)] k = Some k'"
    and ans: "a_ret (answer env t) = 0" "a_ret (answer env (Suc t)) \<noteq> -1" and dev: "device_wf D" "shm_inv k"
  defines "domid \<equiv> resolve_domid d (inst k)" and "addr \<equiv> a_addr (answer env (Suc t))"
  obtains h where "meta_pages_count (kpage (d_kenv D) h) = n + 1" "state (inst k') = XEN_SHM_STATE_RECEIVER_MAPPED"
    "PAGE_SIZE dvd addr" "user_mem (inst k') = Some (user_area addr (unat n * PAGE_SIZE))"
    "maps_offer (d_kenv D) n domid (kpage (d_kenv D) h) k'" "\<exists>a. K_map_grant a g domid \<in> set (ktrace k')"
    "K_evtchn_bind_interdomain domid (offerer_ec_port (kpage (d_kenv D) h)) \<in> set (ktrace k')"
proof -
  obtain k0 k1 k2 where k: "quiet_step k k0" "quiet_step k1 k2"
    and c1: "device_call D (d_asleep D t) (Sys_init_receiver f n d g) (answer env t) k0 = Some k1"
    and c2: "device_call D (d_asleep D (Suc t)) (Sys_mmap f (unat n * PAGE_SIZE)) (answer env (Suc t)) k2 = Some k'"
    by (rule device_run_two [OF run dev(1)])
  have env: "env_pages (d_kenv D)" "env_maps (d_kenv D)" using dev(1) by (simp_all add: device_wf_def)
  note i = init_receiver_ok [OF c1 ans(1) quiet_step_inv [OF dev(2) k(1)] env(1)]
  obtain h where h: "receiving n g (kpage (d_kenv D) h) k1" using i(2) by blast
  have r2: "receiving n g (kpage (d_kenv D) h) k2" by (rule quiet_step_receiving [OF h k(2)])
  note m = receiver_mmap_ok [OF c2 ans(2) quiet_step_inv [OF i(1) k(2)] env(2) r2]
  have "distant_domid (inst k2) = domid"
    using ec_frame_fields(10) [of "inst k2" "inst k1"] k(2) i(3) resolve_quiet [OF k(1)]
    by (simp add: quiet_step_def domid_def)
  with m r2 set_mono_prefix [OF m(5)] that [of h] show thesis by (auto simp: receiving_def addr_def)
qed

text \<open>
  Two instances that have the same \<open>n\<close> pages behind the mappings at \<open>addr_o\<close> and \<open>addr_r\<close>: the offerer, now \<open>k_o\<close>, has mapped
  its memory after the header page; the receiver, which was \<open>k_r\<close> and is now \<open>k_r'\<close>, has mapped the header page and as many
  pages, its page number \<open>i\<close> from the offerer's domain by the reference that the offerer's hypervisor gave when it
  granted page number \<open>i\<close> of the offerer's mapping; and the receiver's event channel is bound to the offerer's port.
\<close>

definition same_pages ::
  "kenv \<Rightarrow> shm_st \<Rightarrow> nat \<Rightarrow> kenv \<Rightarrow> shm_st \<Rightarrow> shm_st \<Rightarrow> nat \<Rightarrow> u8 \<Rightarrow> bool" where
  "same_pages K_o k_o addr_o K_r k_r k_r' addr_r n \<longleftrightarrow>
    (let domid = resolve_domid (local_domid (inst k_o)) (inst k_r)
     in PAGE_SIZE dvd addr_o \<and> PAGE_SIZE dvd addr_r
      \<and> K_remap_pfn_range addr_o (shared_memory (inst k_o) + PAGE_SIZE) (unat n * PAGE_SIZE) \<in> set (ktrace k_o)
      \<and> user_mem (inst k_r') = Some (user_area addr_r (unat n * PAGE_SIZE))
      \<and> (\<exists>m. meta k_o = Some m \<and> (\<forall>i \<le> unat n. page_granted K_o k_o i (grant_refs m ! i))
          \<and> (\<exists>a. K_map_grant a (grant_refs m ! 0) domid \<in> set (ktrace k_r')) \<and> maps_offer K_r n domid m k_r')
      \<and> K_evtchn_bind_interdomain domid (local_ec_port (inst k_o)) \<in> set (ktrace k_r'))"

lemma device_runs_share_pages:
  assumes off: "device_run D_o env_o t [Sys_init_offerer f n d, Sys_mmap f (unat n * PAGE_SIZE)] k_o = Some k_o'"
      "a_ret (answer env_o t) = 0" "a_ret (answer env_o (Suc t)) \<noteq> -1" "device_wf D_o" "shm_inv k_o"
    and rcv: "device_run D_r env_r t' [Sys_init_receiver f' n' (a_domid (answer env_o t)) (a_grant (answer env_o t)),
        Sys_mmap f' (unat n' * PAGE_SIZE)] k_r = Some k_r'"
      "a_ret (answer env_r t') = 0" "a_ret (answer env_r (Suc t')) \<noteq> -1" "device_wf D_r" "shm_inv k_r"
    and page: "\<forall>h. Some (offer_view (kpage (d_kenv D_r) h)) = map_option offer_view (meta k_o')"
  shows "n' = n" "distant_domid (inst k_o') = resolve_domid d (inst k_o)" "1 \<le> unat n"
    "same_pages (d_kenv D_o) k_o' (a_addr (answer env_o (Suc t))) (d_kenv D_r) k_r k_r' (a_addr (answer env_r (Suc t'))) n"
proof -
  note o = device_run_offers [OF off]
  obtain m where m: "meta k_o' = Some m" "meta_pages_count m = n + 1" "offerer_ec_port m = local_ec_port (inst k_o')"
      "\<forall>i \<le> unat n. page_granted (d_kenv D_o) k_o' i (grant_refs m ! i)"
    using o(1) by (auto simp: offering_def)
  obtain h where r: "meta_pages_count (kpage (d_kenv D_r) h) = n' + 1" "PAGE_SIZE dvd a_addr (answer env_r (Suc t'))"
      "user_mem (inst k_r') = Some (user_area (a_addr (answer env_r (Suc t'))) (unat n' * PAGE_SIZE))"
      "maps_offer (d_kenv D_r) n' (resolve_domid (local_domid (inst k_o')) (inst k_r)) (kpage (d_kenv D_r) h) k_r'"
      "\<exists>a. K_map_grant a (grant_refs m ! 0) (resolve_domid (local_domid (inst k_o')) (inst k_r)) \<in> set (ktrace k_r')"
      "K_evtchn_bind_interdomain (resolve_domid (local_domid (inst k_o')) (inst k_r)) (offerer_ec_port (kpage (d_kenv D_r) h))
        \<in> set (ktrace k_r')"
    using device_run_connects [OF rcv] unfolding o(3) o(4) [OF m(1)] by metis
  have v: "offer_view (kpage (d_kenv D_r) h) = offer_view m" using page m(1) by simp
  show n: "n' = n" using v r(1) m(2) by (simp add: offer_view_def)
  show "distant_domid (inst k_o') = resolve_domid d (inst k_o)" by (rule o(5))
  show "1 \<le> unat n" using o(1) by (simp add: offering_def)
  have "maps_offer (d_kenv D_r) n (resolve_domid (local_domid (inst k_o')) (inst k_r)) m k_r'"
    using r(4) v n by (simp add: maps_offer_def offer_view_def)
  then show "same_pages (d_kenv D_o) k_o' (a_addr (answer env_o (Suc t))) (d_kenv D_r) k_r k_r' (a_addr (answer env_r (Suc t'))) n"
    using o(6,7) m r v n by (simp add: same_pages_def Let_def offer_view_def)
qed

section \<open>A closed peer\<close>

text \<open>The calls a connected end makes while it waits.\<close>

fun waiting_call :: "syscall \<Rightarrow> bool" where
  "waiting_call (Sys_await _ _ _) = True"
| "waiting_call (Sys_ssig _) = True"
| "waiting_call _ = False"

text \<open>The memory of the process can be read and written.\<close>

definition user_memory_ok :: "kenv \<Rightarrow> bool" where
  "user_memory_ok K \<longleftrightarrow> (\<forall>h w n. k_ret (kanswer K h (K_access_ok w n)) \<noteq> 0 \<and> k_ret (kanswer K h (K_copy_from_user n)) = 0)"

lemma broken_call_answer:
  assumes "device_call D evs c a k = Some k'" "waiting_call c" "user_memory_ok (d_kenv D)"
    and st: "state (inst k) \<noteq> XEN_SHM_STATE_OPENED" "meta k = Some m" "xen_shm_is_broken_pipe m"
  shows "a_ret a = -1 \<and> a_errno a = EPIPE"
proof -
  have ans: "a_ret a = -1 \<and> a_errno a = EPIPE" if "ioctl_answer (- EPIPE) U_nothing a"
    using that by (simp add: ioctl_answer_def)
  have acc: "\<not> fst (test_access (d_kenv D) cmd k)" for cmd
    using assms(3) by (simp add: test_access_def split_beta user_memory_ok_def)
  let ?k = "\<lambda>cmd. snd (test_access (d_kenv D) cmd k)"
  show ?thesis
  proof (cases c)
    case (Sys_await f fl t)
    let ?u = "(d_user D)\<lparr>uv_await := (uv_await (d_user D))\<lparr>request_flags := fl, timeout_ms := t\<rparr>\<rparr>"
    obtain r out where run: "xen_shm_ioctl (d_kenv D) ?u 0 evs XEN_SHM_IOCTL_AWAIT k = Some (r, out, k')" "ioctl_answer r out a"
      using device_ioctl [OF assms(1) [unfolded Sys_await] ioctl_of.simps(4)] by blast
    have "ioctl_await (d_kenv D) ?u evs (?k XEN_SHM_IOCTL_AWAIT) = Some (r, out, k')"
      using run(1) acc unfolding xen_shm_ioctl_def ioctl_types switch_commands by (simp add: split_beta)
    then have "r = - EPIPE" "out = U_nothing"
      using assms(3) st by (auto simp: ioctl_await_def xen_shm_ioctl_await_def split_beta Let_def user_memory_ok_def)
    with run(2) ans show ?thesis by simp
  next
    case (Sys_ssig f)
    obtain r out where run: "xen_shm_ioctl (d_kenv D) (d_user D) 0 evs XEN_SHM_IOCTL_SSIG k = Some (r, out, k')" "ioctl_answer r out a"
      using device_ioctl [OF assms(1) [unfolded Sys_ssig] ioctl_of.simps(5)] by blast
    have "r = - EPIPE" "out = U_nothing"
      using run(1) st by (auto simp: xen_shm_ioctl_def ioctl_types switch_commands xen_shm_ioctl_ssig_def IOC_TYPE_def
          ioctl_switch_def test_access_def IOC_DIR_def flag_set_def)
    with run(2) ans show ?thesis by simp
  qed (use assms(2) in simp_all)
qed

text \<open>The field of a header page by which a side in the state \<open>s\<close> says whether it is closed.\<close>

definition side_state :: "xen_shm_state_t \<Rightarrow> xen_shm_meta_page_data \<Rightarrow> u8" where
  "side_state s m = (if s = XEN_SHM_STATE_OFFERER then offerer_state m else receiver_state m)"

text \<open>From the observation \<open>T\<close> on, whatever call the end makes while it waits is answered by an instance whose header
  page says of the peer, which is in the state \<open>s\<close>, what the page \<open>m\<close> says.\<close>

definition answers_with_peer :: "device_env \<Rightarrow> pipe_env \<Rightarrow> nat \<Rightarrow> xen_shm_state_t \<Rightarrow> xen_shm_meta_page_data \<Rightarrow> bool" where
  "answers_with_peer D env T s m \<longleftrightarrow> (\<forall>t \<ge> T. \<exists>c k k' m'. waiting_call c
     \<and> device_call D (d_asleep D t) c (answer env t) k = Some k'
     \<and> state (inst k) \<noteq> XEN_SHM_STATE_OPENED \<and> meta k = Some m' \<and> side_state s m' = side_state s m)"

lemma closed_peer_breaks:
  assumes peer: "shm_inv k_p" "state (inst k_p) \<noteq> XEN_SHM_STATE_OPENED" "close_side K k_p = Some k_p'" "meta k_p' = Some m"
    and dev: "user_memory_ok (d_kenv D)" "answers_with_peer D env T (state (inst k_p)) m"
  shows "eventually_broken env"
proof -
  have closed: "side_state (state (inst k_p)) m = XEN_SHM_META_PAGE_STATE_CLOSED"
    using peer by (cases "state (inst k_p)") (auto simp: close_side_def upd_meta_eq_Some bind_eq_Some_conv side_state_def)
  have broken: "xen_shm_is_broken_pipe m'" if "side_state (state (inst k_p)) m' = side_state (state (inst k_p)) m" for m'
    using that closed by (auto simp: side_state_def xen_shm_is_broken_pipe_def split: if_splits)
  have "epipe_at env t" if "T \<le> t" for t
    using dev(2) that broken broken_call_answer [OF _ _ dev(1)] unfolding answers_with_peer_def epipe_at_def by metis
  then show ?thesis by (auto simp: eventually_broken_def)
qed

section \<open>Properties\<close>

text \<open>C15.  The two ends of a connection share the same memory.  One end has offered \<open>n\<close> pages, the other has
  connected with \<open>n'\<close> pages, the domain and the reference that the first one got, each over the device of its own
  domain, with any events between the calls that leave the offer alone; and the page the receiver's kernel maps is the
  header page that the offerer's kernel has filled in.  Then both agree on the number of pages, so that both compute the
  same size for the ring; the offerer has mapped its memory after the header page; the receiver has mapped as many
  pages, and its page number \<open>i\<close> is mapped from the offerer's domain by the reference that the offerer's hypervisor gave
  when it granted page number \<open>i\<close> of the offerer's mapping to the domain it offers to; and the receiver's event channel
  is bound to the offerer's port.\<close>

theorem connected_ends_share_pages:
  assumes off: "xen_shm_pipe_offers env_o n rdom st_o = (0, Some (d, g), st_o')"
      "served D_o env_o st_o st_o' k_o k_o'" "device_wf D_o" "shm_inv k_o"
    and rcv: "xen_shm_pipe_connect env_r n' d g st_r = (0, st_r')"
      "served D_r env_r st_r st_r' k_r k_r'" "device_wf D_r" "shm_inv k_r"
    and page: "\<forall>h. Some (offer_view (kpage (d_kenv D_r) h)) = map_option offer_view (meta k_o')"
  shows "n' = n \<and> buffer_size (priv st_r') = buffer_size (priv st_o')
    \<and> unat (buffer_size (priv st_o')) = unat n * PAGE_SIZE - sizeof_shared
    \<and> distant_domid (inst k_o') = resolve_domid (ucast rdom) (inst k_o)
    \<and> (\<exists>addr_o addr_r. pshared (priv st_o') = Some addr_o \<and> pshared (priv st_r') = Some addr_r
        \<and> same_pages (d_kenv D_o) k_o' addr_o (d_kenv D_r) k_r k_r' addr_r n)"
proof -
  note oc = offers_calls [OF off(1)] and cc = connect_calls [OF rcv(1)]
  have d: "ucast d = a_domid (answer env_o (tick st_o))" "g = a_grant (answer env_o (tick st_o))" using oc(1) by simp_all
  have ro: "device_run D_o env_o (tick st_o) [Sys_init_offerer (fd (priv st_o)) n (ucast rdom),
      Sys_mmap (fd (priv st_o)) (unat n * PAGE_SIZE)] k_o = Some k_o'"
    using off(2) by (simp add: served_def oc(2) del: device_run.simps)
  have rr: "device_run D_r env_r (tick st_r) [Sys_init_receiver (fd (priv st_r)) n' (a_domid (answer env_o (tick st_o)))
      (a_grant (answer env_o (tick st_o))), Sys_mmap (fd (priv st_r)) (unat n' * PAGE_SIZE)] k_r = Some k_r'"
    using rcv(2) by (simp add: served_def cc(1) d del: device_run.simps)
  note sh = device_runs_share_pages [OF ro oc(3,4) off(3,4) rr cc(2,3) rcv(3,4) page]
  have "n \<noteq> 0" using sh(3) by auto
  then have "unat (buffer_size (priv st_o')) = unat n * PAGE_SIZE - sizeof_shared"
    unfolding oc(5) by (rule set_buffer_size_bounds(1))
  then show ?thesis using sh by (simp add: oc(5) cc(4) set_buffer_size_def Let_def)
qed

text \<open>A device in the domain \<open>dm\<close> on which every call succeeds, with grant references from \<open>r\<close> on, and the answer that both
  calls of a connection get from it.\<close>

definition pair_kenv :: "nat \<Rightarrow> xen_shm_meta_page_data \<Rightarrow> kenv" where
  "pair_kenv r m = small_kenv\<lparr>kanswer := \<lambda>h c. \<lparr>k_ret = (case c of K_access_ok _ _ \<Rightarrow> 1 | K_bind_irqhandler _ \<Rightarrow> 9
       | K_grant_access _ a \<Rightarrow> int (r + (a div PAGE_SIZE - 1)) | _ \<Rightarrow> 0), k_val = 4096, k_status = 0\<rparr>, kpage := \<lambda>_. m\<rparr>"

definition pair_device :: "nat \<Rightarrow> xen_shm_meta_page_data \<Rightarrow> device_env" where
  "pair_device r m = \<lparr>d_kenv = pair_kenv r m, d_user = small_view, d_between = \<lambda>_. [], d_asleep = \<lambda>_. []\<rparr>"

definition pair_shm :: "u16 \<Rightarrow> shm_st" where
  "pair_shm dm = upd_inst (\<lambda>d. d\<lparr>local_domid := dm\<rparr>) (small_shm XEN_SHM_STATE_OPENED)"

definition pair_answer :: "u16 \<Rightarrow> nat \<Rightarrow> sys_answer" where
  "pair_answer dm r = \<lparr>a_ret = 0, a_errno = 0, a_addr = 4096, a_domid = dm, a_grant = of_nat r, a_remaining = 1\<rparr>"

lemma pair_simps [simp]:
  "kanswer (pair_kenv r m) h c = \<lparr>k_ret = (case c of K_access_ok _ _ \<Rightarrow> 1 | K_bind_irqhandler _ \<Rightarrow> 9
       | K_grant_access _ a \<Rightarrow> int (r + (a div PAGE_SIZE - 1)) | _ \<Rightarrow> 0), k_val = 4096, k_status = 0\<rparr>"
  "kpage (pair_kenv r m) h = m" "kmapped (pair_kenv r m) h i = (0, 3)" "kballoon (pair_kenv r m) h = replicate 128 8192"
  "d_kenv (pair_device r m) = pair_kenv r m" "d_user (pair_device r m) = small_view"
  "d_between (pair_device r m) t = []" "d_asleep (pair_device r m) t = []"
  by (simp_all add: pair_kenv_def small_kenv_def pair_device_def)

lemma small_shm_simps [simp]:
  "state (inst (small_shm s)) = s" "ktrace (small_shm s) = []"
  "length (map_ops (inst (small_shm s))) = 128" "length (unmap_ops (inst (small_shm s))) = 128"
  "length (kmap_ops (inst (small_shm s))) = 128" "use_ptemod (inst (small_shm s)) = False"
  "length (grant_refs small_meta) = 128"
  by (simp_all add: small_shm_def small_inst_def small_meta_def)

lemma pair_shm_simps [simp]:
  "state (inst (pair_shm dm)) = XEN_SHM_STATE_OPENED" "local_domid (inst (pair_shm dm)) = dm" "ktrace (pair_shm dm) = []"
  "length (map_ops (inst (pair_shm dm))) = 128" "length (unmap_ops (inst (pair_shm dm))) = 128"
  "length (kmap_ops (inst (pair_shm dm))) = 128" "use_ptemod (inst (pair_shm dm)) = False" "shm_inv (pair_shm dm)"
  using small_shm_inv(1) by (simp_all add: pair_shm_def shm_inv_def)

lemma pair_device_wf: "length (grant_refs m) = 128 \<Longrightarrow> device_wf (pair_device r m)"
  by (simp add: device_wf_def env_pages_def env_maps_def)

lemmas device_eval = device_call_def xen_shm_ioctl_def ioctl_switch_def test_access_def IOC_DIR_def IOC_SIZE_def IOC_TYPE_def
  flag_set_def Let_def kdo_def upd_inst_def upd_meta_def resolve_domid_def copy_to_user_def xen_shm_open_ec_def
  ioctl_answer_def mmap_answer_def user_area_def xen_shm_mmap_def shared_pages_def small_view_def

lemma pair_offers:
  assumes "n = 2 \<or> n = 3" "\<And>t. answer env t = pair_answer dm r"
  shows "\<exists>k'. device_run (pair_device r small_meta) env t [Sys_init_offerer f n d, Sys_mmap f (unat n * PAGE_SIZE)] (pair_shm dm)
    = Some k'"
  by (rule disjE [OF assms(1)]; hypsubst)
    (simp add: assms(2) device_eval ioctl_init_offerer_def xen_shm_ioctl_init_offerer_def grant_pages.simps pair_answer_def
      xen_shm_allocate_shared_memory_offerer_def alloc_order.simps xen_shm_open_ec_offerer_def)+

lemma pair_connects:
  assumes "n = 2 \<or> n = 3" "\<And>t. answer env t = pair_answer dm r'" "meta_pages_count m = n + 1" "length (grant_refs m) = 128"
  shows "\<exists>k'. device_run (pair_device r m) env t [Sys_init_receiver f n d g, Sys_mmap f (unat n * PAGE_SIZE)]
      ((pair_shm dm)\<lparr>ktrace := tr\<rparr>) = Some k'"
  using assms(1,3)
  by (elim disjE; hypsubst)
    (simp add: assms(2,4) device_eval ioctl_init_receiver_def xen_shm_ioctl_init_receiver_def xen_shm_open_ec_receiver_def
      pair_answer_def construct_ops_def construct_map_op_def map_receiver_pages_def gnttab_map_refs_def check_map_op_def
      nth_enumerate_eq split_beta upt_conv_Cons)+
text \<open>A writer that has not called the device yet offers two pages of domain 1 to domain 5, and a reader joins them.\<close>

definition pair_env :: "u16 \<Rightarrow> nat \<Rightarrow> pipe_env" where
  "pair_env dm r = quiet_env (\<lambda>t. pair_answer dm r)"

theorem connected_ends_share_pages_witness:
  "\<exists>st_o' k_o' m st_r' k_r'.
     xen_shm_pipe_offers (pair_env 1 7) 2 5 (small_end xen_shm_pipe_mod_write small_area) = (0, Some (1, 7), st_o')
   \<and> served (pair_device 7 small_meta) (pair_env 1 7) (small_end xen_shm_pipe_mod_write small_area) st_o' (pair_shm 1) k_o'
   \<and> meta k_o' = Some m
   \<and> xen_shm_pipe_connect (pair_env 5 0) 2 1 7 (small_end xen_shm_pipe_mod_read small_area) = (0, st_r')
   \<and> served (pair_device 0 m) (pair_env 5 0) (small_end xen_shm_pipe_mod_read small_area) st_r' (pair_shm 5) k_r'
   \<and> unat (buffer_size (priv st_r')) = 8176
   \<and> (\<exists>addr_o addr_r. same_pages (pair_kenv 7 small_meta) k_o' addr_o (pair_kenv 0 m) (pair_shm 5) k_r' addr_r 2)"
proof -
  let ?w = "small_end xen_shm_pipe_mod_write small_area" and ?r = "small_end xen_shm_pipe_mod_read small_area"
  have ans: "answer (pair_env dm r) t = pair_answer dm r" for dm r t by (simp add: pair_env_def quiet_env_def)
  obtain st_o' where o: "xen_shm_pipe_offers (pair_env 1 7) 2 5 ?w = (0, Some (1, 7), st_o')"
    by (simp add: xen_shm_pipe_offers_def xen_shm_pipe_map_shared_memory_def Let_def split_beta small_end_def ans pair_answer_def)
  obtain st_r' where r: "xen_shm_pipe_connect (pair_env 5 0) 2 1 7 ?r = (0, st_r')"
    by (simp add: xen_shm_pipe_connect_def xen_shm_pipe_map_shared_memory_def Let_def split_beta small_end_def ans pair_answer_def)
  obtain k_o' where run: "device_run (pair_device 7 small_meta) (pair_env 1 7) 0
      [Sys_init_offerer 3 2 5, Sys_mmap 3 (unat (2 :: u8) * PAGE_SIZE)] (pair_shm 1) = Some k_o'"
    using pair_offers [of 2 "pair_env 1 7" 1 7 0 3 5] ans by auto
  then have ko: "served (pair_device 7 small_meta) (pair_env 1 7) ?w st_o' (pair_shm 1) k_o'"
    using offers_calls(2) [OF o] by (simp add: served_def small_end_def del: device_run.simps)
  note s = device_run_offers [OF run _ _ pair_device_wf]
  have "offering (pair_kenv 7 small_meta) 2 k_o'" "shm_inv k_o'" using s(1,2) by (simp_all add: ans pair_answer_def)
  then obtain m where m: "meta k_o' = Some m" "meta_pages_count m = 2 + 1" "length (grant_refs m) = 128"
    by (auto simp: offering_def shm_inv_def)
  obtain k_r' where "device_run (pair_device 0 m) (pair_env 5 0) 0
      [Sys_init_receiver 3 2 1 7, Sys_mmap 3 (unat (2 :: u8) * PAGE_SIZE)] (pair_shm 5) = Some k_r'"
    using pair_connects [of 2 "pair_env 5 0" 5 0 m 0 0 3 1 7 "ktrace (pair_shm 5)"] ans m(2,3) by (simp del: device_run.simps pair_shm_simps) blast
  then have kr: "served (pair_device 0 m) (pair_env 5 0) ?r st_r' (pair_shm 5) k_r'"
    using connect_calls(1) [OF r] by (simp add: served_def small_end_def del: device_run.simps)
  from connected_ends_share_pages [OF o ko pair_device_wf _ r kr pair_device_wf] m(1,3)
  have "unat (buffer_size (priv st_r')) = 8176"
    "\<exists>addr_o addr_r. same_pages (pair_kenv 7 small_meta) k_o' addr_o (pair_kenv 0 m) (pair_shm 5) k_r' addr_r 2"
    by auto
  then show ?thesis using o ko m(1) r kr by blast
qed

text \<open>C16.  When the peer closes its file, no call of this end hangs.  The peer's kernel closes its side in the
  header page, and from some moment on the waiting calls of this end are answered by an instance that sees that page.
  Then a read by a connected reader returns: with bytes that were still in the ring, in order, or with 0 at the end
  of the stream, or with an error that the device reported; and a write by a connected writer returns: with the number
  of bytes it appended, or with an error.\<close>

theorem closed_peer_ends_calls:
  assumes "shm_inv k_p" "state (inst k_p) \<noteq> XEN_SHM_STATE_OPENED" "close_side K k_p = Some k_p'" "meta k_p' = Some m"
    and "user_memory_ok (d_kenv D)" "answers_with_peer D env T (state (inst k_p)) m"
    and "0 < nbytes" "nbytes \<le> length buf"
  shows "(connected_reader n st \<and> env_writer n env \<longrightarrow>
      (\<exists>r buf' st'. xen_shm_pipe_read env ub buf nbytes st = Some (r, buf', st')
        \<and> reader_flow (take (nat r) buf') st st' \<and> (0 < r \<or> reader_stop env r st')))
    \<and> (connected_writer n st \<and> env_reader n env \<longrightarrow>
      (\<exists>r st'. xen_shm_pipe_write env ub buf nbytes st = Some (r, st')
        \<and> writer_flow (take (nat r) buf) st st' \<and> (0 < r \<or> writer_stop env r st')))"
proof -
  have broken: "eventually_broken env" by (rule closed_peer_breaks [OF assms(1-6)])
  have "\<exists>r buf' st'. xen_shm_pipe_read env ub buf nbytes st = Some (r, buf', st')
      \<and> reader_flow (take (nat r) buf') st st' \<and> (0 < r \<or> reader_stop env r st')"
    if "connected_reader n st" "env_writer n env"
    using pipe_read_total [OF that(2) _ that(1) assms(8), of ub] broken assms(7) by (fastforce simp: read_post_def)
  moreover have "\<exists>r st'. xen_shm_pipe_write env ub buf nbytes st = Some (r, st')
      \<and> writer_flow (take (nat r) buf) st st' \<and> (0 < r \<or> writer_stop env r st')"
    if "connected_writer n st" "env_reader n env"
    using pipe_write_total [OF that(2) _ that(1) assms(8), of ub] broken assms(7) by (fastforce simp: write_post_def)
  ultimately show ?thesis by blast
qed

text \<open>The peer is an offerer that closes; every call of this end is answered with a broken pipe.\<close>

lemma closed_offerer:
  "\<exists>k_p' m. close_side small_kenv (small_shm XEN_SHM_STATE_OFFERER) = Some k_p' \<and> meta k_p' = Some m
    \<and> offerer_state m = XEN_SHM_META_PAGE_STATE_CLOSED"
  by (simp add: close_side_def upd_meta_def small_shm_def)

lemma closed_offerer_answers:
  assumes "offerer_state m = XEN_SHM_META_PAGE_STATE_CLOSED"
  shows "answers_with_peer (pair_device 1 small_meta) (quiet_env epipe_answer) 0 XEN_SHM_STATE_OFFERER m"
proof -
  let ?k = "(small_shm XEN_SHM_STATE_RECEIVER)\<lparr>meta := Some m\<rparr>"
  have "device_call (pair_device 1 small_meta) [] (Sys_ssig 3) (epipe_answer t) ?k = Some ?k" for t
    using assms by (simp add: device_eval xen_shm_ioctl_ssig_def xen_shm_is_broken_pipe_def epipe_answer_def)
  then show ?thesis
    unfolding answers_with_peer_def by (auto intro!: exI [of _ "Sys_ssig 3"] exI [of _ ?k])
qed

theorem closed_peer_ends_calls_witness:
  "\<exists>r buf' st'. xen_shm_pipe_read (quiet_env epipe_answer) 0 [0, 0] 2 (small_end xen_shm_pipe_mod_read small_area)
      = Some (r, buf', st')
    \<and> reader_flow (take (nat r) buf') (small_end xen_shm_pipe_mod_read small_area) st'
    \<and> (0 < r \<or> reader_stop (quiet_env epipe_answer) r st')"
proof -
  obtain k_p' m where p: "close_side small_kenv (small_shm XEN_SHM_STATE_OFFERER) = Some k_p'" "meta k_p' = Some m"
      "offerer_state m = XEN_SHM_META_PAGE_STATE_CLOSED"
    using closed_offerer by blast
  have inv: "shm_inv (small_shm XEN_SHM_STATE_OFFERER)"
    by (simp add: shm_inv_def small_shm_def small_inst_def small_meta_def)
  have ok: "user_memory_ok (d_kenv (pair_device 1 small_meta))" by (simp add: user_memory_ok_def)
  have "connected_reader 8 (small_end xen_shm_pipe_mod_read small_area)" "env_writer 8 (quiet_env epipe_answer)"
    using small_end_ready(1) by (simp_all add: reader_ready_def)
  then show ?thesis
    using closed_peer_ends_calls [OF inv _ p(1,2) ok, where env = "quiet_env epipe_answer" and T = 0 and nbytes = 2
        and buf = "[0, 0]" and n = 8 and st = "small_end xen_shm_pipe_mod_read small_area" and ub = 0]
      closed_offerer_answers [OF p(3)] by simp
qed

end
