(* ===== verification/Conn_Device.thy ===== *)
theory Conn_Device
  imports Conn_Handshake Pipe_Device
begin

text \<open>
  The whole system: a client and a server, each over the device of its own domain, that go through the handshake of
  \<^verbatim>\<open>Conn_Handshake\<close>.  Every pipe of a process has an open file of its own, whose instance answers all the calls after the
  one that opened it.
\<close>

section \<open>Definitions\<close>

text \<open>The calls of the pipe number \<open>k\<close> after it was opened are answered by the device \<open>D\<close>, from the instance \<open>i\<close> to \<open>i'\<close>.\<close>

definition pipe_on_device :: "device_env \<Rightarrow> proc_env \<Rightarrow> nat \<Rightarrow> pipe_st \<Rightarrow> shm_st \<Rightarrow> shm_st \<Rightarrow> bool" where
  "pipe_on_device D env k st i i' \<longleftrightarrow>
     device_run D (penv env k) (Suc (tick (pstart env k))) (drop (Suc (length (calls (pstart env k)))) (calls st)) i = Some i'"

text \<open>The pipes of a process with the numbers \<open>ks\<close> have such devices, all in the domain \<open>dm\<close>: the pipe number \<open>k\<close> has \<open>D k\<close> and the instances \<open>I k\<close> and \<open>I' k\<close>.\<close>

definition pipes_on_devices ::
  "u16 \<Rightarrow> proc_env \<Rightarrow> nat set \<Rightarrow> 'a proc_scheme \<Rightarrow> (nat \<Rightarrow> device_env) \<Rightarrow> (nat \<Rightarrow> shm_st) \<Rightarrow> (nat \<Rightarrow> shm_st) \<Rightarrow> bool" where
  "pipes_on_devices dm env ks P D I I' \<longleftrightarrow> (\<forall>k st. k \<in> ks \<and> pipes P k = Some st \<longrightarrow>
     device_wf (D k) \<and> shm_inv (I k) \<and> local_domid (inst (I k)) = dm \<and> pipe_on_device (D k) env k st (I k) (I' k))"

text \<open>The header pages that the kernel behind \<open>D\<close> maps are the one of the instance \<open>i\<close>.\<close>

definition maps_header_of :: "device_env \<Rightarrow> shm_st \<Rightarrow> bool" where
  "maps_header_of D i \<longleftrightarrow> (\<forall>h. Some (offer_view (kpage (d_kenv D) h)) = map_option offer_view (meta i))"

text \<open>A reading end \<open>rx\<close> over the instance \<open>i\<close>, which came to \<open>i'\<close>, and a writing end \<open>tx\<close> over the instance \<open>j\<close>, which came
  to \<open>j'\<close>, that have a ring of \<open>n\<close> pages in common: both compute the same size of the ring, the memory is granted to
  the domain of the writing end, and the same pages are behind both mappings.\<close>

definition ring_in_common ::
  "kenv \<Rightarrow> shm_st \<Rightarrow> shm_st \<Rightarrow> pipe_st \<Rightarrow> kenv \<Rightarrow> shm_st \<Rightarrow> shm_st \<Rightarrow> pipe_st \<Rightarrow> u8 \<Rightarrow> bool" where
  "ring_in_common K_o i i' rx K_r j j' tx n \<longleftrightarrow>
     pmod (priv rx) = xen_shm_pipe_mod_read \<and> pmod (priv tx) = xen_shm_pipe_mod_write
   \<and> unat (buffer_size (priv rx)) = unat n * PAGE_SIZE - sizeof_shared
   \<and> buffer_size (priv tx) = buffer_size (priv rx)
   \<and> distant_domid (inst i') = resolve_domid (local_domid (inst j)) (inst i)
   \<and> (\<exists>a b. pshared (priv rx) = Some a \<and> pshared (priv tx) = Some b \<and> same_pages K_o i' a K_r j j' b n)"

section \<open>Two connected pipes\<close>

lemma pipes_on_devicesD:
  assumes "pipes_on_devices dm env ks P D I I'" "k \<in> ks" "pipes P k = Some st"
  shows "device_wf (D k)" "shm_inv (I k)" "local_domid (inst (I k)) = dm" "pipe_on_device (D k) env k st (I k) (I' k)"
  using assms by (auto simp: pipes_on_devices_def)

text \<open>Asking for the domain changes nothing, and the answer is the domain of the instance.\<close>

lemma get_domid_ok:
  assumes "device_call D evs (Sys_get_domid f) a k = Some k'"
  shows "quiet_step k k'" "a_ret a = 0 \<Longrightarrow> a_domid a = local_domid (inst k)"
proof -
  obtain r out where run: "xen_shm_ioctl (d_kenv D) (d_user D) 0 evs XEN_SHM_IOCTL_GET_DOMID k = Some (r, out, k')"
    "ioctl_answer r out a"
    using device_ioctl [OF assms ioctl_of.simps(1)] by blast
  then show "quiet_step k k'" "a_ret a = 0 \<Longrightarrow> a_domid a = local_domid (inst k)"
    by (auto simp: xen_shm_ioctl_def ioctl_switch_def IOC_TYPE_def copy_to_user_def test_access_def split_beta quiet_step_def
        ioctl_answer_def split: if_splits)
qed

text \<open>The calls of a connected pipe, as its device saw them.\<close>

lemma connected_on_device:
  assumes "pipe_connected env k m [] c n st" "pipe_on_device D env k st i i'"
  shows "device_run D (penv env k) (Suc (tick (pstart env k))) [c (fd (priv st)), Sys_mmap (fd (priv st)) (unat n * PAGE_SIZE)] i
      = Some i'"
    "a_ret (answer (penv env k) (Suc (tick (pstart env k)))) = 0"
    "a_ret (answer (penv env k) (Suc (Suc (tick (pstart env k))))) \<noteq> -1"
    "pshared (priv st) = Some (a_addr (answer (penv env k) (Suc (Suc (tick (pstart env k))))))"
    "buffer_size (priv st) = ucast n * XEN_SHM_PIPE_PAGE_SIZE - of_nat sizeof_shared" "pmod (priv st) = m"
  using assms by (simp_all add: pipe_connected_def pipe_on_device_def Let_def del: device_run.simps)

lemma connected_after_domid:
  assumes "pipe_connected env k m [Sys_get_domid f] c n st" "pipe_on_device D env k st i i'" "device_wf D"
  obtains j where "quiet_step i j"
    "device_run D (penv env k) (Suc (Suc (tick (pstart env k)))) [c (fd (priv st)), Sys_mmap (fd (priv st)) (unat n * PAGE_SIZE)] j
      = Some i'"
    "a_ret (answer (penv env k) (Suc (Suc (tick (pstart env k))))) = 0"
    "a_ret (answer (penv env k) (Suc (Suc (Suc (tick (pstart env k)))))) \<noteq> -1"
    "pshared (priv st) = Some (a_addr (answer (penv env k) (Suc (Suc (Suc (tick (pstart env k)))))))"
    "buffer_size (priv st) = ucast n * XEN_SHM_PIPE_PAGE_SIZE - of_nat sizeof_shared" "pmod (priv st) = m"
    "a_domid (second_answer env k) = local_domid (inst i)"
proof -
  have run: "device_run D (penv env k) (Suc (tick (pstart env k))) [Sys_get_domid f, c (fd (priv st)),
      Sys_mmap (fd (priv st)) (unat n * PAGE_SIZE)] i = Some i'"
    using assms(1,2) by (simp add: pipe_connected_def pipe_on_device_def Let_def del: device_run.simps)
  obtain j0 j where j: "quiet_step i j0" "device_call D (d_asleep D (Suc (tick (pstart env k)))) (Sys_get_domid f)
      (answer (penv env k) (Suc (tick (pstart env k)))) j0 = Some j"
    "device_run D (penv env k) (Suc (Suc (tick (pstart env k)))) [c (fd (priv st)), Sys_mmap (fd (priv st)) (unat n * PAGE_SIZE)] j
      = Some i'" by (rule device_run_step [OF run assms(3)])
  note g = get_domid_ok [OF j(2)]
  have "local_domid (inst j0) = local_domid (inst i)"
    using j(1) ec_frame_fields(11) [of "inst j0" "inst i"] by (simp add: quiet_step_def)
  then have "a_domid (second_answer env k) = local_domid (inst i)"
    using assms(1) g(2) by (simp add: pipe_connected_def second_answer_def Let_def)
  with that [OF quiet_step_trans [OF j(1) g(1)] j(3)] assms(1) show thesis
    by (simp add: pipe_connected_def Let_def)
qed

lemma buffer_bytes:
  assumes "1 \<le> unat (n :: u8)"
  shows "unat (ucast n * XEN_SHM_PIPE_PAGE_SIZE - of_nat sizeof_shared) = unat n * PAGE_SIZE - sizeof_shared"
proof -
  have "n \<noteq> 0" using assms by auto
  from set_buffer_size_bounds(1) [OF this] show ?thesis by (simp add: set_buffer_size_def Let_def)
qed

lemma ring_connected:
  assumes rx: "pipe_connected eo k xen_shm_pipe_mod_read [] (\<lambda>f. Sys_init_offerer f n (local_domid (inst jr))) n rx"
      "pipe_on_device D_o eo k rx i i'" "device_wf D_o" "shm_inv i"
    and tx: "quiet_step jr j" "device_run D_r env t [Sys_init_receiver f n (a_domid (second_answer eo k)) (a_grant (second_answer eo k)),
        Sys_mmap f (unat n * PAGE_SIZE)] j = Some j'"
      "a_ret (answer env t) = 0" "a_ret (answer env (Suc t)) \<noteq> -1" "device_wf D_r" "shm_inv jr"
      "pshared (priv tx) = Some (a_addr (answer env (Suc t)))" "pmod (priv tx) = xen_shm_pipe_mod_write"
      "buffer_size (priv tx) = ucast n * XEN_SHM_PIPE_PAGE_SIZE - of_nat sizeof_shared"
    and page: "maps_header_of D_r i'"
  shows "ring_in_common (d_kenv D_o) i i' rx (d_kenv D_r) jr j' tx n"
proof -
  note o = connected_on_device [OF rx(1,2)]
  note sh = device_runs_share_pages [OF o(1-3) rx(3,4) tx(2) [unfolded second_answer_def] tx(3-5)
      quiet_step_inv [OF tx(6,1)] page [unfolded maps_header_of_def]]
  have "resolve_domid d (inst j) = resolve_domid d (inst jr)" for d by (rule resolve_quiet [OF tx(1)])
  with sh(4) have "same_pages (d_kenv D_o) i' (a_addr (answer (penv eo k) (Suc (Suc (tick (pstart eo k)))))) (d_kenv D_r) jr j'
      (a_addr (answer env (Suc t))) n" by (simp add: same_pages_def)
  with o(4-6) sh(2,3) tx(7-9) buffer_bytes [of n] show ?thesis by (simp add: ring_in_common_def)
qed

section \<open>The handshake over two devices\<close>

text \<open>C14.  From the handshake to the shared memory.  A client whose \<^verbatim>\<open>init_pipe\<close> has returned 0 and a server that has started a
  thread for it, after the exchange of the three messages, each over the device of its own domain; the header page that
  the server's sending pipe maps is the one of the client's receiving pipe, and the other way round.  Then the client's receiving
  pipe and the sending pipe of the server's thread have a ring of the client's number of pages in common, and the
  thread's receiving pipe and the client's sending pipe one of the server's number of pages: the two ends of each compute the
  same size, the reading end has granted the memory to the domain of the writing end, and the pages behind the two
  mappings are the same, in the same order.\<close>

theorem handshake_shares_memory:
  fixes P P' :: "'a proc_scheme"
  assumes hs: "proc_wf P" "init_pipe ce port ip rfd sfd cpages P = Some (0, rfd', sfd', P')"
      "server_wf S xs ys" "exchange ce se source P P' S S1"
      "udp_readable_cb se EV_READ S1 = Some S2" "childs (idata S2) \<noteq> childs (idata S1)"
    and dev: "pipes_on_devices cdom ce {made P, Suc (made P)} P' Dc Ic Ic'" "pipes_on_devices sdom se {made S, made S1} S2 Ds Is Is'"
    and page: "maps_header_of (Ds (made S1)) (Ic' (made P))" "maps_header_of (Dc (Suc (made P))) (Is' (made S))"
  shows "\<exists>c n crx ctx srx stx. childs (idata S2) = Some c \<and> children S2 c = Some n
    \<and> hd_receive_fd (c_child_data n) = Some (made S) \<and> hd_send_fd (c_child_data n) = Some (made S1)
    \<and> rfd' = Some (made P) \<and> sfd' = Some (Suc (made P))
    \<and> pipes P' (made P) = Some crx \<and> pipes P' (Suc (made P)) = Some ctx
    \<and> pipes S2 (made S) = Some srx \<and> pipes S2 (made S1) = Some stx
    \<and> ring_in_common (d_kenv (Dc (made P))) (Ic (made P)) (Ic' (made P)) crx
        (d_kenv (Ds (made S1))) (Is (made S1)) (Is' (made S1)) stx cpages
    \<and> ring_in_common (d_kenv (Ds (made S))) (Is (made S)) (Is' (made S)) srx
        (d_kenv (Dc (Suc (made P)))) (Ic (Suc (made P))) (Ic' (Suc (made P))) ctx (proposed_page_page_count (idata S))"
proof -
  let ?k = "made P" and ?l = "Suc (made P)" and ?m = "made S" and ?n = "made S1" and ?pages = "proposed_page_page_count (idata S)"
  note run = handshake_run [OF hs]
  from run(5) obtain crx ctx srx stx where p: "pipes P' ?k = Some crx" "pipes P' ?l = Some ctx" "pipes S2 ?m = Some srx" "pipes S2 ?n = Some stx"
    and srx: "pipe_connected se ?m xen_shm_pipe_mod_read [] (\<lambda>f. Sys_init_offerer f ?pages (a_domid (second_answer ce ?l))) ?pages srx"
    and ctx: "pipe_connected ce ?l xen_shm_pipe_mod_write [Sys_get_domid (fd (priv ctx))]
       (\<lambda>f. Sys_init_receiver f ?pages (a_domid (second_answer se ?m)) (a_grant (second_answer se ?m))) ?pages ctx"
    and crx: "pipe_connected ce ?k xen_shm_pipe_mod_read [] (\<lambda>f. Sys_init_offerer f cpages (a_domid (second_answer se ?m))) cpages crx"
    and stx: "pipe_connected se ?n xen_shm_pipe_mod_write []
       (\<lambda>f. Sys_init_receiver f cpages (a_domid (second_answer ce ?k)) (a_grant (second_answer ce ?k))) cpages stx"
    by (auto simp: cross_connected_def)
  note dk = pipes_on_devicesD [OF dev(1) _ p(1), simplified] and dl = pipes_on_devicesD [OF dev(1) _ p(2), simplified]
    and dm = pipes_on_devicesD [OF dev(2) _ p(3), simplified] and dn = pipes_on_devicesD [OF dev(2) _ p(4), simplified]
  obtain j where j: "quiet_step (Ic ?l) j" "device_run (Dc ?l) (penv ce ?l) (Suc (Suc (tick (pstart ce ?l))))
      [Sys_init_receiver (fd (priv ctx)) ?pages (a_domid (second_answer se ?m)) (a_grant (second_answer se ?m)),
       Sys_mmap (fd (priv ctx)) (unat ?pages * PAGE_SIZE)] j = Some (Ic' ?l)"
    and jc: "a_ret (answer (penv ce ?l) (Suc (Suc (tick (pstart ce ?l))))) = 0"
    "a_ret (answer (penv ce ?l) (Suc (Suc (Suc (tick (pstart ce ?l)))))) \<noteq> -1"
    "pshared (priv ctx) = Some (a_addr (answer (penv ce ?l) (Suc (Suc (Suc (tick (pstart ce ?l)))))))"
    "buffer_size (priv ctx) = ucast ?pages * XEN_SHM_PIPE_PAGE_SIZE - of_nat sizeof_shared" "pmod (priv ctx) = xen_shm_pipe_mod_write"
    and dom: "a_domid (second_answer ce ?l) = local_domid (inst (Ic ?l))"
    by (rule connected_after_domid [OF ctx dl(4,1)])
  have "ring_in_common (d_kenv (Ds ?m)) (Is ?m) (Is' ?m) srx (d_kenv (Dc ?l)) (Ic ?l) (Ic' ?l) ctx ?pages"
    by (rule ring_connected [OF srx [unfolded dom] dm(4,1,2) j jc(1,2) dl(1,2) jc(3,5,4) page(2)])
  moreover note so = connected_on_device [OF srx dm(4)] and st = connected_on_device [OF stx dn(4)]
  have "a_domid (second_answer se ?m) = local_domid (inst (Is ?n))"
    using device_run_offers(3,8) [OF so(1-3) dm(1,2)] dm(3) dn(3) by (simp add: second_answer_def)
  from ring_connected [OF crx [unfolded this] dk(4,1,2) quiet_step_refl st(1-3) dn(1,2) st(4,6,5) page(1)]
  have "ring_in_common (d_kenv (Dc ?k)) (Ic ?k) (Ic' ?k) crx (d_kenv (Ds ?n)) (Is ?n) (Is' ?n) stx cpages" .
  ultimately show ?thesis using p run(1,2,4) by auto
qed

section \<open>An exchange over devices\<close>

text \<open>The client in domain 9 and the server in domain 7 of \<^verbatim>\<open>Conn_Handshake\<close>, over devices on which every call succeeds.\<close>

lemma small_penv_answer: "answer (penv (small_proc_env dm net) k) t = pair_answer dm (20 + k)"
  by (simp add: small_proc_env_def quiet_env_def small_answer_def pair_answer_def)

lemma small_pstart [simp]: "calls (pstart (small_proc_env dm net) k) = []" "tick (pstart (small_proc_env dm net) k) = 0"
  by (simp_all add: small_proc_env_def small_end_def)

lemma small_offer_on_device:
  assumes "pipe_connected (small_proc_env dm net) k md [] (\<lambda>f. Sys_init_offerer f n d) n st" "n = 2 \<or> n = 3"
  obtains i' m where "pipe_on_device (pair_device (20 + k) small_meta) (small_proc_env dm net) k st (pair_shm dm) i'"
    "meta i' = Some m" "meta_pages_count m = n + 1" "length (grant_refs m) = 128"
proof -
  let ?D = "pair_device (20 + k) small_meta" and ?f = "fd (priv st)"
  obtain i' where run: "device_run ?D (penv (small_proc_env dm net) k) (Suc 0)
      [Sys_init_offerer ?f n d, Sys_mmap ?f (unat n * PAGE_SIZE)] (pair_shm dm) = Some i'"
    using pair_offers [OF assms(2), of "penv (small_proc_env dm net) k" dm "20 + k"] small_penv_answer by blast
  then have on: "pipe_on_device ?D (small_proc_env dm net) k st (pair_shm dm) i'"
    using assms(1) by (simp add: pipe_on_device_def pipe_connected_def Let_def del: device_run.simps)
  note o = device_run_offers [OF run _ _ pair_device_wf]
  have "offering (pair_kenv (20 + k) small_meta) n i'" "shm_inv i'"
    using o(1,2) by (simp_all add: small_penv_answer pair_answer_def)
  with on that show thesis by (auto simp: offering_def shm_inv_def)
qed

lemma small_join_on_device:
  assumes "pipe_connected (small_proc_env dm net) k md pre (\<lambda>f. Sys_init_receiver f n d g) n st" "n = 2 \<or> n = 3"
    and "meta_pages_count m = n + 1" "length (grant_refs m) = 128" "pre = [] \<or> pre = [Sys_get_domid f]"
  obtains i' where "pipe_on_device (pair_device r m) (small_proc_env dm net) k st (pair_shm dm) i'"
proof -
  let ?f = "fd (priv st)" and ?env = "penv (small_proc_env dm net) k"
  have run: "\<exists>i'. device_run (pair_device r m) ?env t [Sys_init_receiver ?f n d g, Sys_mmap ?f (unat n * PAGE_SIZE)]
      ((pair_shm dm)\<lparr>ktrace := tr\<rparr>) = Some i'" for t tr
    by (rule pair_connects [OF assms(2) small_penv_answer assms(3,4)])
  have "device_call (pair_device r m) [] (Sys_get_domid f) (answer ?env t) (pair_shm dm)
      = Some ((pair_shm dm)\<lparr>ktrace := [K_access_ok True 2, K_copy_to_user 2]\<rparr>)" for t
    by (simp add: small_penv_answer pair_answer_def device_eval)
  then have "\<exists>i'. device_run (pair_device r m) ?env (Suc 0) (pre @ [Sys_init_receiver ?f n d g, Sys_mmap ?f (unat n * PAGE_SIZE)])
      (pair_shm dm) = Some i'"
    using assms(5) run [of 1 "ktrace (pair_shm dm)"] run [of 2 "[K_access_ok True 2, K_copy_to_user 2]"]
    by (auto simp: numeral_2_eq_2 simp del: pair_shm_simps)
  then show thesis using that assms(1) by (auto simp: pipe_on_device_def pipe_connected_def Let_def simp del: device_run.simps)
qed

theorem handshake_shares_memory_witness:
  "\<exists>P' S1 S2 crx ctx srx stx ic0 ic1 is0 is1 K1 K2 K3 K4.
     init_pipe small_client 80 1 None None 3 small_proc = Some (0, Some 0, Some 1, P')
   \<and> udp_readable_cb small_serving EV_READ S1 = Some S2
   \<and> pipes P' 0 = Some crx \<and> pipes P' 1 = Some ctx \<and> pipes S2 0 = Some srx \<and> pipes S2 (made S1) = Some stx
   \<and> ring_in_common K1 (pair_shm 9) ic0 crx K2 (pair_shm 7) is1 stx 3
   \<and> ring_in_common K3 (pair_shm 7) is0 srx K4 (pair_shm 9) ic1 ctx 2"
proof -
  from small_client_succeeds obtain P' where P': "init_pipe small_client 80 1 None None 3 small_proc = Some (0, Some 0, Some 1, P')"
    by blast
  from small_exchange [OF P'] obtain S1 S2 where
    e: "exchange small_client small_serving \<lparr>sin_port = 5000, sin_addr = 1\<rparr> small_proc P' small_server S1"
    "udp_readable_cb small_serving EV_READ S1 = Some S2" "childs (idata S2) \<noteq> childs (idata S1)" by blast
  have start: "made small_proc = 0" "made small_server = 0" "proposed_page_page_count (idata small_server) = 2"
    by (simp_all add: small_proc_def small_server_def)
  let ?n = "made S1"
  note run = handshake_run [OF small_proc_wf P' small_server_wf e, unfolded start]
  from run(5) obtain crx ctx srx stx d1 d2 d3 d4 g3 g4 where
    p: "pipes P' 0 = Some crx" "pipes P' 1 = Some ctx" "pipes S2 0 = Some srx" "pipes S2 ?n = Some stx"
    and srx: "pipe_connected small_serving 0 xen_shm_pipe_mod_read [] (\<lambda>f. Sys_init_offerer f 2 d1) 2 srx"
    and ctx: "pipe_connected small_client 1 xen_shm_pipe_mod_write [Sys_get_domid (fd (priv ctx))] (\<lambda>f. Sys_init_receiver f 2 d3 g3) 2 ctx"
    and crx: "pipe_connected small_client 0 xen_shm_pipe_mod_read [] (\<lambda>f. Sys_init_offerer f 3 d2) 3 crx"
    and stx: "pipe_connected small_serving ?n xen_shm_pipe_mod_write [] (\<lambda>f. Sys_init_receiver f 3 d4 g4) 3 stx"
    by (auto simp: cross_connected_def)
  obtain is0 ms where is0: "pipe_on_device (pair_device 20 small_meta) small_serving 0 srx (pair_shm 7) is0" "meta is0 = Some ms"
      "meta_pages_count ms = 2 + 1" "length (grant_refs ms) = 128"
    using small_offer_on_device [OF srx [unfolded small_serving_def]] unfolding small_serving_def by auto
  obtain ic0 mc where ic0: "pipe_on_device (pair_device 20 small_meta) small_client 0 crx (pair_shm 9) ic0" "meta ic0 = Some mc"
      "meta_pages_count mc = 3 + 1" "length (grant_refs mc) = 128"
    using small_offer_on_device [OF crx [unfolded small_client_def]] unfolding small_client_def by auto
  obtain ic1 where ic1: "pipe_on_device (pair_device 21 ms) small_client 1 ctx (pair_shm 9) ic1"
    using small_join_on_device [OF ctx [unfolded small_client_def] _ is0(3,4)] unfolding small_client_def by blast
  obtain is1 where is1: "pipe_on_device (pair_device 21 mc) small_serving ?n stx (pair_shm 7) is1"
    using small_join_on_device [OF stx [unfolded small_serving_def] _ ic0(3,4)] unfolding small_serving_def by blast
  let ?Dc = "\<lambda>k :: nat. if k = 0 then pair_device 20 small_meta else pair_device 21 ms" and ?Ic = "\<lambda>k :: nat. if k = 0 then ic0 else ic1"
  let ?Ds = "\<lambda>k :: nat. if k = 0 then pair_device 20 small_meta else pair_device 21 mc" and ?Is = "\<lambda>k :: nat. if k = 0 then is0 else is1"
  have dev: "pipes_on_devices 9 small_client {made small_proc, Suc (made small_proc)} P' ?Dc (\<lambda>_. pair_shm 9) ?Ic"
      "pipes_on_devices 7 small_serving {made small_server, ?n} S2 ?Ds (\<lambda>_. pair_shm 7) ?Is"
    using p is0 ic0 ic1 is1 run(3) by (auto simp: pipes_on_devices_def pair_device_wf start)
  have pages: "maps_header_of (?Ds ?n) (?Ic (made small_proc))" "maps_header_of (?Dc (Suc (made small_proc))) (?Is (made small_server))"
    using is0(2) ic0(2) run(3) by (simp_all add: maps_header_of_def start)
  from handshake_shares_memory [OF small_proc_wf P' small_server_wf e dev pages, unfolded start] p
  have "ring_in_common (d_kenv (?Dc 0)) (pair_shm 9) (?Ic 0) crx (d_kenv (?Ds ?n)) (pair_shm 7) (?Is ?n) stx 3"
    "ring_in_common (d_kenv (?Ds 0)) (pair_shm 7) (?Is 0) srx (d_kenv (?Dc 1)) (pair_shm 9) (?Ic 1) ctx 2" by auto
  with P' e(2) p show ?thesis by blast
qed

end
