(* ===== verification/Pipe_Protocol.thy ===== *)
theory Pipe_Protocol
  imports Pipe_System
begin

text \<open>
  The two ends of a pipe at the grain of single observations.  Each end has been proved correct beside a
  peer that keeps to the protocol, \<open>writer_rely\<close> or \<open>reader_rely\<close>; here each end is shown to keep to it in
  turn, action by action, in every call.
\<close>

section \<open>Keeping to the protocol\<close>

text \<open>Between the actions of the peer this end has only done what the peer relies on, given that the peer
  has done the same.\<close>

definition follows_protocol :: "nat \<Rightarrow> pipe_st \<Rightarrow> pipe_st \<Rightarrow> bool" where
  "follows_protocol n a b \<longleftrightarrow> (\<exists>tr. trail b = trail a @ tr \<and>
     (if pmod (priv a) = xen_shm_pipe_mod_write
      then rely_guar (reader_rely n) (writer_rely n) (shm a) tr (shm b)
      else rely_guar (writer_rely n) (reader_rely n) (shm a) tr (shm b)))"

lemma reader_flow_follows:
  assumes "reader_flow xs a b" "connected_reader n a"
  shows "follows_protocol n a b"
proof -
  have "acts writer_does reader_does a b" "shared_wf n (shm a)"
    using assms by (simp_all add: reader_flow_def connected_reader_def pipe_wf_def)
  then obtain tr where "trail b = trail a @ tr" "rely_guar (writer_rely n) (reader_rely n) (shm a) tr (shm b)"
    by (rule reader_acts_wf)
  with assms(2) show ?thesis by (auto simp: follows_protocol_def connected_reader_def)
qed

lemma writer_flow_follows:
  assumes "writer_flow xs a b" "connected_writer n a" "\<not> flag_set (writer_flags (shm a)) XSHMP_CLOSED"
  shows "follows_protocol n a b"
proof -
  have "acts reader_does open_writer_does a b" "shared_wf n (shm a)"
    using assms by (simp_all add: writer_flow_def connected_writer_def pipe_wf_def)
  then obtain tr where "trail b = trail a @ tr" "rely_guar (reader_rely n) (writer_rely n) (shm a) tr (shm b)"
    using assms(3) by (rule writer_acts_wf)
  with assms(2) show ?thesis by (auto simp: follows_protocol_def connected_writer_def)
qed

text \<open>The last steps of an end: it sets its closed flag, and looks no more at the area.\<close>

lemma free_trail:
  assumes "pipe_wf n st"
  obtains s t u where "s = xen_shm_pipe_upd_flags (priv st) True (\<lambda>f. set_flag f XSHMP_CLOSED) (shm st)"
    and "t = interf env (tick st) s" "u = interf env (Suc (tick st)) t"
    and "trail (xen_shm_pipe_free env st) = trail st @ [(s, t), (t, u)]" "shm (xen_shm_pipe_free env st) = u"
  using assms
  by (auto simp: pipe_wf_def xen_shm_pipe_free_def Let_def observe_history split: option.splits)

lemma reader_free_follows:
  assumes "env_writer n env" "connected_reader n st"
  shows "follows_protocol n st (xen_shm_pipe_free env st)"
proof -
  have wf: "pipe_wf n st" and md: "pmod (priv st) = xen_shm_pipe_mod_read"
    using assms(2) by (simp_all add: connected_reader_def)
  obtain s t u where s: "s = xen_shm_pipe_upd_flags (priv st) True (\<lambda>f. set_flag f XSHMP_CLOSED) (shm st)"
    and tu: "t = interf env (tick st) s" "u = interf env (Suc (tick st)) t"
    and tr: "trail (xen_shm_pipe_free env st) = trail st @ [(s, t), (t, u)]" "shm (xen_shm_pipe_free env st) = u"
    by (rule free_trail [OF wf])
  have 1: "reader_rely n (shm st) s"
    using pipe_wf_shared [OF wf] md by (simp add: s xen_shm_pipe_upd_flags_def reader_rely_def flag_set_set)
  then have 2: "writer_rely n s t" using assms(1) by (simp add: tu env_writer_def reader_rely_def)
  then have 3: "writer_rely n t u" using assms(1) by (simp add: tu(2) env_writer_def writer_rely_def)
  from 2 3 have "reader_rely n t t" "reader_rely n u u" by (simp_all add: reader_rely_def writer_rely_def)
  with 1 2 3 md tr show ?thesis by (simp add: follows_protocol_def)
qed

lemma writer_free_follows:
  assumes "env_reader n env" "connected_writer n st"
  shows "follows_protocol n st (xen_shm_pipe_free env st)"
proof -
  have wf: "pipe_wf n st" and md: "pmod (priv st) = xen_shm_pipe_mod_write"
    using assms(2) by (simp_all add: connected_writer_def)
  obtain s t u where s: "s = xen_shm_pipe_upd_flags (priv st) True (\<lambda>f. set_flag f XSHMP_CLOSED) (shm st)"
    and tu: "t = interf env (tick st) s" "u = interf env (Suc (tick st)) t"
    and tr: "trail (xen_shm_pipe_free env st) = trail st @ [(s, t), (t, u)]" "shm (xen_shm_pipe_free env st) = u"
    by (rule free_trail [OF wf])
  have 1: "writer_rely n (shm st) s"
    using pipe_wf_shared [OF wf] md by (simp add: s xen_shm_pipe_upd_flags_def writer_rely_def flag_set_set)
  then have 2: "reader_rely n s t" using assms(1) by (simp add: tu env_reader_def writer_rely_def)
  then have 3: "reader_rely n t u" using assms(1) by (simp add: tu(2) env_reader_def reader_rely_def)
  from 2 3 have "writer_rely n t t" "writer_rely n u u" by (simp_all add: reader_rely_def writer_rely_def)
  with 1 2 3 md tr show ?thesis by (simp add: follows_protocol_def)
qed

text \<open>C9.  A reader keeps to the protocol that the writer relies on.  Beside a writer that keeps to it, whatever a
  call does to the shared area between two actions of the writer consumes bytes from the front of the
  ring at most, and writes neither the buffer nor the write position nor the closed flag of the writer: this holds in
  every read, in a flush, and when the reader frees its end.\<close>

theorem reader_keeps_protocol:
  assumes "env_writer n env" "connected_reader n st"
  shows "(\<forall>ub buf nbytes r buf' st'. nbytes \<le> length buf
        \<and> xen_shm_pipe_read env ub buf nbytes st = Some (r, buf', st') \<longrightarrow> follows_protocol n st st')
    \<and> follows_protocol n st (snd (xen_shm_pipe_flush env st))
    \<and> follows_protocol n st (xen_shm_pipe_free env st)"
proof (intro conjI allI impI)
  fix ub buf nbytes r buf' st'
  assume "nbytes \<le> length buf \<and> xen_shm_pipe_read env ub buf nbytes st = Some (r, buf', st')"
  then have "read_post n env buf nbytes st (r, buf', st')" using assms by (blast intro: pipe_read_partial)
  then show "follows_protocol n st st'" using assms(2) by (auto simp: read_post_def intro: reader_flow_follows)
next
  have "reader_passive n st (snd (xen_shm_pipe_flush env st))"
    using assms by (simp add: flush_passive connected_reader_def)
  then show "follows_protocol n st (snd (xen_shm_pipe_flush env st))"
    using assms(2) by (auto simp: reader_passive_def intro: reader_flow_follows)
qed (rule reader_free_follows [OF assms])

theorem reader_keeps_protocol_witness:
  "(\<exists>buf' st'. xen_shm_pipe_read (quiet_env epipe_answer) 0 [0, 0] 2 (small_end xen_shm_pipe_mod_read small_area)
        = Some (int 2, buf', st') \<and> follows_protocol 8 (small_end xen_shm_pipe_mod_read small_area) st')
    \<and> follows_protocol 8 (small_end xen_shm_pipe_mod_read small_area)
        (xen_shm_pipe_free (quiet_env epipe_answer) (small_end xen_shm_pipe_mod_read small_area))"
proof -
  have conn: "connected_reader 8 (small_end xen_shm_pipe_mod_read small_area)" by (simp add: small_end_connected)
  obtain buf' st' where rd: "xen_shm_pipe_read (quiet_env epipe_answer) 0 [0, 0] 2 (small_end xen_shm_pipe_mod_read small_area)
      = Some (int 2, buf', st')"
    using quiet_read_available [OF conn, of 2 "[0, 0]" epipe_answer 0] by (auto simp: small_area_in_transit)
  note keeps = reader_keeps_protocol [OF quiet_env_rely(1) conn, of epipe_answer]
  have "follows_protocol 8 (small_end xen_shm_pipe_mod_read small_area) st'"
    using conjunct1 [OF keeps, rule_format, of 2 "[0, 0]" 0] rd by simp
  with rd keeps show ?thesis by blast
qed

text \<open>C10.  A writer keeps to the protocol that the reader relies on.  Beside a reader that keeps to it, whatever a
  call of a writer that has not closed its end does to the shared area between two actions of the reader appends bytes to
  those in transit at most, leaves the bytes in transit, the read position and the flags of the reader alone:
  this holds in every write, in a flush, and when the writer frees its end.\<close>

theorem writer_keeps_protocol:
  assumes "env_reader n env" "connected_writer n st" "\<not> flag_set (writer_flags (shm st)) XSHMP_CLOSED"
  shows "(\<forall>ub buf nbytes r st'. nbytes \<le> length buf
        \<and> xen_shm_pipe_write env ub buf nbytes st = Some (r, st') \<longrightarrow> follows_protocol n st st')
    \<and> follows_protocol n st (snd (xen_shm_pipe_flush env st))
    \<and> follows_protocol n st (xen_shm_pipe_free env st)"
proof (intro conjI allI impI)
  fix ub buf nbytes r st'
  assume "nbytes \<le> length buf \<and> xen_shm_pipe_write env ub buf nbytes st = Some (r, st')"
  then have "write_post n env buf nbytes st (r, st')" using assms by (blast intro: pipe_write_partial)
  then show "follows_protocol n st st'" using assms(2,3) by (auto simp: write_post_def intro: writer_flow_follows)
next
  have "writer_passive n st (snd (xen_shm_pipe_flush env st))"
    using assms by (simp add: flush_passive connected_writer_def)
  then show "follows_protocol n st (snd (xen_shm_pipe_flush env st))"
    using assms(2,3) by (auto simp: writer_passive_def intro: writer_flow_follows)
qed (rule writer_free_follows [OF assms(1,2)])

theorem writer_keeps_protocol_witness:
  "(\<exists>st'. xen_shm_pipe_write (quiet_env epipe_answer) 0 [1, 2] 2 (small_end xen_shm_pipe_mod_write small_area)
        = Some (int 2, st') \<and> follows_protocol 8 (small_end xen_shm_pipe_mod_write small_area) st')
    \<and> follows_protocol 8 (small_end xen_shm_pipe_mod_write small_area)
        (xen_shm_pipe_free (quiet_env epipe_answer) (small_end xen_shm_pipe_mod_write small_area))"
proof -
  have conn: "connected_writer 8 (small_end xen_shm_pipe_mod_write small_area)" by (simp add: small_end_connected)
  have op: "\<not> flag_set (writer_flags (shm (small_end xen_shm_pipe_mod_write small_area))) XSHMP_CLOSED"
    "\<not> flag_set (reader_flags (shm (small_end xen_shm_pipe_mod_write small_area))) XSHMP_CLOSED"
    by (simp_all add: small_area_def flag_set_def)
  obtain st' where wr: "xen_shm_pipe_write (quiet_env epipe_answer) 0 [1, 2] 2 (small_end xen_shm_pipe_mod_write small_area)
      = Some (int 2, st')"
    using quiet_write_fits [OF conn, of 2 "[1, 2]" epipe_answer 0] op by (auto simp: small_area_in_transit)
  note keeps = writer_keeps_protocol [OF quiet_env_rely(2) conn op(1), of epipe_answer]
  have "follows_protocol 8 (small_end xen_shm_pipe_mod_write small_area) st'"
    using conjunct1 [OF keeps, rule_format, of 2 "[1, 2]" 0] wr by simp
  with wr keeps show ?thesis by blast
qed

end
