(* ===== verification/Pipe_Race.thy ===== *)
theory Pipe_Race
  imports Pipe_Protocol Pipe_Device
begin

text \<open>
  A lost wake-up.  An end that finds nothing to do looks at the positions, marks itself waiting, looks again, and
  then marks itself sleeping and calls the device; the other end signals only a peer that is marked sleeping.  A whole
  call of the peer fits between the second look and the mark.  This theory follows both ends and the device
  through that run.
\<close>

section \<open>Definitions\<close>

text \<open>A peer that acts once, just before the observation number \<open>k\<close>; and what it does to the area then: one call of
  the library.\<close>

definition race_env :: "nat \<Rightarrow> (xen_shm_pipe_shared \<Rightarrow> xen_shm_pipe_shared) \<Rightarrow> (nat \<Rightarrow> sys_answer) \<Rightarrow> pipe_env" where
  "race_env k act ans = \<lparr>interf = \<lambda>t s. if t = k then act s else s, answer = ans\<rparr>"

definition write_meanwhile ::
  "(nat \<Rightarrow> sys_answer) \<Rightarrow> nat \<Rightarrow> memory \<Rightarrow> nat \<Rightarrow> pipe_st \<Rightarrow> xen_shm_pipe_shared \<Rightarrow> xen_shm_pipe_shared" where
  "write_meanwhile ans ub buf nbytes w s =
    (case xen_shm_pipe_write (quiet_env ans) ub buf nbytes (w\<lparr>shm := s\<rparr>) of None \<Rightarrow> s | Some (r, w') \<Rightarrow> shm w')"

definition read_meanwhile ::
  "(nat \<Rightarrow> sys_answer) \<Rightarrow> nat \<Rightarrow> memory \<Rightarrow> nat \<Rightarrow> pipe_st \<Rightarrow> xen_shm_pipe_shared \<Rightarrow> xen_shm_pipe_shared" where
  "read_meanwhile ans ub buf nbytes r s =
    (case xen_shm_pipe_read (quiet_env ans) ub buf nbytes (r\<lparr>shm := s\<rparr>) of None \<Rightarrow> s | Some (k, buf', r') \<Rightarrow> shm r')"

text \<open>The flags of an end that is between two calls.\<close>

definition idle_flags :: "u32 \<Rightarrow> bool" where
  "idle_flags f \<longleftrightarrow> \<not> flag_set f XSHMP_CLOSED \<and> \<not> flag_set f XSHMP_WAITING \<and> \<not> flag_set f XSHMP_SLEEPING
     \<and> \<not> flag_set f XSHMP_ACTIVE"

text \<open>No interrupt, no signal to the process, and nobody closes.\<close>

definition silent :: "(nat \<times> wait_ev) list \<Rightarrow> bool" where
  "silent evs \<longleftrightarrow> (\<forall>ev \<in> set evs. case snd ev of
     Ev_peer f \<Rightarrow> \<forall>m. xen_shm_is_broken_pipe (f m) = xen_shm_is_broken_pipe m | _ \<Rightarrow> False)"

text \<open>A connected instance to which no signal has come since the last wait.\<close>

definition no_signal :: "shm_st \<Rightarrow> bool" where
  "no_signal k \<longleftrightarrow> state (inst k) \<noteq> XEN_SHM_STATE_OPENED \<and> latent_user_signal (inst k) = 0
     \<and> (case meta k of None \<Rightarrow> False | Some m \<Rightarrow> \<not> xen_shm_is_broken_pipe m)"

section \<open>The device\<close>

lemma silent_wait_event:
  assumes "silent evs" "latent_user_signal (inst st) = 0" "meta st = Some m" "\<not> xen_shm_is_broken_pipe m"
  shows "wait_event env (await_cond XEN_SHM_IOCTL_AWAIT_LATENT_USER) None evs st = None"
  using assms
proof (induction evs arbitrary: st m)
  case Nil
  then show ?case by (simp add: await_cond_def flag_set_def)
next
  case (Cons ev evs)
  obtain dt f where ev: "ev = (dt, Ev_peer f)" and f: "\<And>m. xen_shm_is_broken_pipe (f m) = xen_shm_is_broken_pipe m"
    using Cons.prems(1) by (cases ev) (auto simp: silent_def split: wait_ev.splits)
  have "wait_event env (await_cond XEN_SHM_IOCTL_AWAIT_LATENT_USER) None evs (st\<lparr>meta := map_option f (meta st)\<rparr>) = None"
    by (rule Cons.IH [of _ "f m"]) (use Cons.prems f in \<open>simp_all add: silent_def\<close>)
  moreover have "\<not> await_cond XEN_SHM_IOCTL_AWAIT_LATENT_USER st"
    using Cons.prems by (simp add: await_cond_def flag_set_def)
  ultimately show ?case by (simp add: ev)
qed

lemma silent_await:
  assumes "silent evs" "no_signal k" "user_memory_ok (d_kenv D)"
  shows "device_call D evs (Sys_await f XEN_SHM_IOCTL_AWAIT_LATENT_USER 0) a k = None"
proof -
  obtain m where m: "meta k = Some m" "\<not> xen_shm_is_broken_pipe m" "state (inst k) \<noteq> XEN_SHM_STATE_OPENED"
      "latent_user_signal (inst k) = 0"
    using assms(2) by (auto simp: no_signal_def split: option.splits)
  have sleep: "xen_shm_ioctl_await (d_kenv D) evs arg k' = None"
    if "inst k' = inst k" "meta k' = meta k" "request_flags arg = XEN_SHM_IOCTL_AWAIT_LATENT_USER" "timeout_ms arg = 0"
    for arg k'
    using that m silent_wait_event [OF assms(1)] by (simp add: await_sleeps await_entry_def flag_set_def)
  show ?thesis
    using assms(3) sleep
    by (simp add: device_call_def xen_shm_ioctl_def ioctl_switch_def ioctl_await_def test_access_def split_beta
        user_memory_ok_def IOC_TYPE_def)
qed

section \<open>The call of the peer\<close>

lemma quiet_write_avail_silent:
  assumes "xen_shm_pipe_write_avail (quiet_env ans) ub buf nbytes st = Some (k, st')"
    and "\<not> flag_set (reader_flags (shm st)) XSHMP_SLEEPING"
  shows "calls st' = calls st"
proof -
  let ?P = "\<lambda>s. calls s = calls st \<and> reader_flags (shm s) = reader_flags (shm st)"
  obtain l where l: "write_avail_loop (quiet_env ans) ub buf nbytes (write_avail_start (quiet_env ans) st) = Some l"
    and st': "st' = signal_if_sleeping (quiet_env ans) reader_flags (wr_st l)"
    using assms(1) by (auto simp: xen_shm_pipe_write_avail_def bind_eq_Some_conv)
  have "?P (wr_st l) \<and> \<not> write_avail_cond nbytes l"
    by (rule wr.loop_partial [OF l])
      (use assms(2) in \<open>auto simp: write_avail_start_def write_avail_iter_def signal_if_sleeping_def Let_def
        bind_eq_Some_conv split: prod.splits if_splits\<close>)
  with assms(2) show ?thesis by (simp add: st' signal_if_sleeping_def Let_def)
qed

lemma quiet_read_avail_silent:
  assumes "xen_shm_pipe_read_avail (quiet_env ans) ub buf nbytes st = Some (k, buf', st')"
    and "\<not> flag_set (writer_flags (shm st)) XSHMP_SLEEPING"
  shows "calls st' = calls st"
proof -
  let ?P = "\<lambda>s. calls s = calls st \<and> writer_flags (shm s) = writer_flags (shm st)"
  obtain l where l: "read_avail_loop (quiet_env ans) ub nbytes (read_avail_start (quiet_env ans) buf st) = Some l"
    and st': "st' = signal_if_sleeping (quiet_env ans) writer_flags (rd_st l)"
    using assms(1) by (auto simp: xen_shm_pipe_read_avail_def bind_eq_Some_conv)
  have "?P (rd_st l) \<and> \<not> read_avail_cond nbytes l"
    by (rule rd.loop_partial [OF l])
      (use assms(2) in \<open>auto simp: read_avail_start_def read_avail_iter_def signal_if_sleeping_def Let_def
        bind_eq_Some_conv split: prod.splits if_splits\<close>)
  with assms(2) show ?thesis by (simp add: st' signal_if_sleeping_def Let_def)
qed

lemma quiet_write_silent:
  assumes conn: "connected_writer n w" and nb: "0 < nbytes" "nbytes \<le> length buf"
    and room: "length (in_transit (shm w)) + nbytes < n"
    and op: "\<not> flag_set (writer_flags (shm w)) XSHMP_CLOSED" "\<not> flag_set (reader_flags (shm w)) XSHMP_CLOSED"
    and awake: "\<not> flag_set (reader_flags (shm w)) XSHMP_SLEEPING"
  obtains w' where "xen_shm_pipe_write (quiet_env ans) ub buf nbytes w = Some (int nbytes, w')" "calls w' = calls w"
proof -
  have wf: "pipe_wf n (write_entry w)"
    using conn writer_passive_wf [OF write_entry_passive(2)] by (auto simp: connected_writer_def)
  have e: "calls (write_entry w) = calls w" "in_transit (shm (write_entry w)) = in_transit (shm w)"
    "reader_flags (shm (write_entry w)) = reader_flags (shm w)"
    by (simp_all add: write_entry_def write_count_up_def upd_writer_flags_def)
  obtain w2 where w2: "xen_shm_pipe_wait_writer (quiet_env ans) (write_entry w) = Some (1, w2)"
      "shm w2 = shm (write_entry w)" "calls w2 = calls w"
    using quiet_wait_writer [OF wf, of ans] room nb(1) op(2) e by auto
  obtain w' where call: "xen_shm_pipe_write (quiet_env ans) ub buf nbytes w = Some (int nbytes, w')"
    using quiet_write_fits [OF conn nb room op] by blast
  then obtain k w3 where w3: "xen_shm_pipe_write_avail (quiet_env ans) ub buf nbytes w2 = Some (k, w3)"
      "w' = upd_writer_flags (\<lambda>f. clear_flag f XSHMP_ACTIVE) w3"
    using op(1) w2(1) by (auto simp: write_unfold [OF conn] bind_eq_Some_conv)
  have "calls w3 = calls w2" by (rule quiet_write_avail_silent [OF w3(1)]) (simp add: w2(2) e(3) awake)
  with call w3(2) w2(3) that show ?thesis by (simp add: upd_writer_flags_def)
qed

lemma quiet_read_silent:
  assumes conn: "connected_reader n r" and nb: "0 < nbytes" "nbytes \<le> length buf"
    and data: "nbytes \<le> length (in_transit (shm r))"
    and awake: "\<not> flag_set (writer_flags (shm r)) XSHMP_SLEEPING"
  obtains buf' r' where "xen_shm_pipe_read (quiet_env ans) ub buf nbytes r = Some (int nbytes, buf', r')"
    "calls r' = calls r"
proof -
  have wf: "pipe_wf n (read_entry r)"
    using conn reader_passive_wf [OF read_entry_passive] by (auto simp: connected_reader_def)
  have e: "calls (read_entry r) = calls r" "in_transit (shm (read_entry r)) = in_transit (shm r)"
    "writer_flags (shm (read_entry r)) = writer_flags (shm r)"
    by (simp_all add: read_entry_def upd_reader_flags_def)
  obtain r2 where r2: "xen_shm_pipe_wait_reader (quiet_env ans) (read_entry r) = Some (1, r2)"
      "shm r2 = shm (read_entry r)" "calls r2 = calls r"
    using quiet_wait_reader [OF wf, of ans] data nb(1) e by fastforce
  obtain buf' r' where call: "xen_shm_pipe_read (quiet_env ans) ub buf nbytes r = Some (int nbytes, buf', r')"
    using quiet_read_available [OF conn nb data] by blast
  then obtain k r3 where r3: "xen_shm_pipe_read_avail (quiet_env ans) ub buf nbytes r2 = Some (k, buf', r3)"
      "r' = upd_reader_flags (\<lambda>f. clear_flag f XSHMP_ACTIVE) r3"
    using r2(1) by (auto simp: read_unfold [OF conn] bind_eq_Some_conv)
  have "calls r3 = calls r2" by (rule quiet_read_avail_silent [OF r3(1)]) (simp add: r2(2) e(3) awake)
  with call r3(2) r2(3) that show ?thesis by (simp add: upd_reader_flags_def)
qed

text \<open>With a quiet peer the steps of a call make one step, within the protocol.\<close>

interpretation still_rd: reader_frame "quiet_env ans" "\<lambda>st. filter (\<lambda>p. fst p \<noteq> snd p) (trail st)" for ans
  by unfold_locales (simp_all add: quiet_observe)

interpretation still_wr: writer_frame "quiet_env ans" "\<lambda>st. filter (\<lambda>p. fst p \<noteq> snd p) (trail st)" for ans
  by unfold_locales (simp_all add: quiet_observe)

lemma still_rely_guar:
  assumes "rely_guar R G s tr t" "filter (\<lambda>p. fst p \<noteq> snd p) tr = []" "\<And>x y z. G x y \<Longrightarrow> G y z \<Longrightarrow> G x z"
  shows "G s t"
  using assms(1,2)
proof (induction tr arbitrary: s)
  case (Cons p tr)
  obtain x where p: "p = (x, x)" using Cons.prems(2) by (cases p) (auto split: if_splits)
  then show ?case using Cons.IH [of x] Cons.prems assms(3) [of s x t] by auto
qed simp

lemma quiet_read_rely:
  assumes conn: "connected_reader n r" and nb: "nbytes \<le> length buf"
    and call: "xen_shm_pipe_read (quiet_env ans) ub buf nbytes r = Some (k, buf', r')"
  shows "reader_rely n (shm r) (shm r')"
proof -
  have "read_post n (quiet_env ans) buf nbytes r (k, buf', r')" by (rule pipe_read_partial [OF _ conn nb call]) simp
  then have "follows_protocol n r r'" using conn by (auto simp: read_post_def intro: reader_flow_follows)
  then obtain tr where tr: "trail r' = trail r @ tr" "rely_guar (writer_rely n) (reader_rely n) (shm r) tr (shm r')"
    using conn by (auto simp: follows_protocol_def connected_reader_def)
  show ?thesis
    by (rule still_rely_guar [OF tr(2)]) (use still_rd.frame_read [OF call] tr(1) rely_trans in auto)
qed

lemma quiet_write_rely:
  assumes conn: "connected_writer n w" and nb: "nbytes \<le> length buf"
    and call: "xen_shm_pipe_write (quiet_env ans) ub buf nbytes w = Some (k, w')"
  shows "writer_rely n (shm w) (shm w')"
proof (cases "flag_set (writer_flags (shm w)) XSHMP_CLOSED")
  case True
  with conn call show ?thesis
    by (auto simp: write_unfold [OF conn] write_count_up_def writer_rely_def connected_writer_def pipe_wf_def)
next
  case False
  have "write_post n (quiet_env ans) buf nbytes w (k, w')" by (rule pipe_write_partial [OF _ conn nb call]) simp
  then have "follows_protocol n w w'" using conn False by (auto simp: write_post_def intro: writer_flow_follows)
  then obtain tr where tr: "trail w' = trail w @ tr" "rely_guar (reader_rely n) (writer_rely n) (shm w) tr (shm w')"
    using conn by (auto simp: follows_protocol_def connected_writer_def)
  show ?thesis
    by (rule still_rely_guar [OF tr(2)]) (use still_wr.frame_write [OF call] tr(1) rely_trans in auto)
qed

lemma race_env_simps [simp]:
  "interf (race_env k act ans) t s = (if t = k then act s else s)" "answer (race_env k act ans) = ans"
  by (simp_all add: race_env_def)

lemma race_env_writer:
  assumes "connected_writer n (w\<lparr>shm := s0\<rparr>)" "nbytes \<le> length buf"
  shows "env_writer n (race_env k (write_meanwhile wans ub buf nbytes w) ans)"
proof -
  have "writer_rely n s (write_meanwhile wans ub buf nbytes w s)" if "shared_wf n s" for s
    using quiet_write_rely [OF connected_area(1) [OF assms(1) that] assms(2)] that
    by (auto simp: write_meanwhile_def writer_rely_def split: option.splits)
  then show ?thesis by (simp add: env_writer_def writer_rely_def)
qed

text \<open>A reader that has closed does not read.\<close>

lemma race_env_reader:
  assumes "connected_reader n (r\<lparr>shm := s0\<rparr>)" "nbytes \<le> length buf"
  shows "env_reader n (race_env k (read_meanwhile rans ub buf nbytes r) ans)"
proof -
  have "reader_rely n s (read_meanwhile rans ub buf nbytes r s)" if s: "shared_wf n s" for s
  proof (cases "flag_set (reader_flags s) XSHMP_CLOSED")
    case True
    then show ?thesis
      using assms(1) s
      by (auto simp: read_meanwhile_def xen_shm_pipe_read_def connected_reader_def pipe_wf_def reader_rely_def
          split: option.splits)
  next
    case False
    then have "connected_reader n (r\<lparr>shm := s\<rparr>)"
      using assms(1) s by (simp add: connected_reader_def pipe_wf_def)
    from quiet_read_rely [OF this assms(2)] s show ?thesis
      by (auto simp: read_meanwhile_def reader_rely_def split: option.splits)
  qed
  then show ?thesis by (simp add: env_reader_def reader_rely_def)
qed

section \<open>The race\<close>

text \<open>The round in which an end goes to sleep: the areas it sees, and its one call of the device.\<close>

definition goes_to_sleep ::
  "wait_ctl \<times> wait_loc \<Rightarrow> pipe_st \<Rightarrow> xen_shm_pipe_shared \<Rightarrow> xen_shm_pipe_shared \<Rightarrow> xen_shm_pipe_shared \<Rightarrow> bool" where
  "goes_to_sleep cl st before after asleep \<longleftrightarrow>
     trail (wait_st (snd cl)) = trail st @ [(shm st, shm st), (shm st, shm st), (before, before), (before, after),
       (asleep, asleep), (asleep, asleep)]
   \<and> calls (wait_st (snd cl)) = calls st @ [Sys_await (fd (priv st)) (request_flags (await_op (priv st)))
       (timeout_ms (await_op (priv st)))]"

lemma reader_round_race:
  fixes act :: "xen_shm_pipe_shared \<Rightarrow> xen_shm_pipe_shared"
  assumes "sh_read (shm st) = sh_write (shm st)" "idle_flags (writer_flags (shm st))" "saw_epipe (priv st) = 0"
  defines "s \<equiv> (shm st)\<lparr>reader_flags := set_flag (reader_flags (shm st)) XSHMP_WAITING\<rparr>"
  shows "goes_to_sleep (wait_reader_body (race_env (tick st + 3) act ans) (sh_read (shm st)) (wait_start st))
    st s (act s) ((act s)\<lparr>reader_flags := set_flag (reader_flags (act s)) XSHMP_SLEEPING\<rparr>)"
  using assms(1-3)
  by (simp add: goes_to_sleep_def wait_reader_body_def Let_def wait_start_def idle_flags_def wait_limit_check_def
      wait_reader_sleep_def xen_shm_pipe_wait_signal_def split_beta observe_history s_def)

lemma writer_round_race:
  fixes act :: "xen_shm_pipe_shared \<Rightarrow> xen_shm_pipe_shared"
  assumes "wait_write_p st = sh_read (shm st)" "idle_flags (reader_flags (shm st))"
  defines "s \<equiv> (shm st)\<lparr>writer_flags := set_flag (writer_flags (shm st)) XSHMP_WAITING\<rparr>"
  shows "goes_to_sleep (wait_writer_body (race_env (tick st + 3) act ans) (wait_write_p st) (wait_start st))
    st s (act s) ((act s)\<lparr>writer_flags := set_flag (writer_flags (act s)) XSHMP_SLEEPING\<rparr>)"
  using assms(1-2)
  by (simp add: goes_to_sleep_def wait_writer_body_def Let_def wait_start_def idle_flags_def wait_limit_check_def
      wait_writer_sleep_def xen_shm_pipe_wait_signal_def split_beta observe_history s_def)

text \<open>C17.  A reader can sleep on data.  The ring is empty and both ends are open; the writer makes one call in which it
  writes \<open>nbytes\<close> bytes, after the second look of a waiting reader at the write position and before the reader marks
  itself sleeping.  This is a writer that keeps to the protocol; its call succeeds without a signal to
  the device, since the reader is not marked.  The reader then makes the call that sleeps while the bytes are in the ring,
  with no time limit, and on an instance to which no signal has come this call has no answer as long as nobody
  signals or closes.\<close>

theorem reader_misses_wakeup:
  assumes "connected_reader n st" "connected_writer n (w\<lparr>shm := shm st\<rparr>)" "in_transit (shm st) = []"
    and "idle_flags (writer_flags (shm st))" "\<not> flag_set (reader_flags (shm st)) XSHMP_SLEEPING" "saw_epipe (priv st) = 0"
    and "request_flags (await_op (priv st)) = XEN_SHM_IOCTL_AWAIT_LATENT_USER" "timeout_ms (await_op (priv st)) = 0"
    and "0 < nbytes" "nbytes < n" "nbytes \<le> length buf"
    and "no_signal k" "silent evs" "user_memory_ok (d_kenv D)"
  shows "\<exists>s w' a. env_writer n (race_env (tick st + 3) (write_meanwhile wans ub buf nbytes w) ans)
    \<and> xen_shm_pipe_write (quiet_env wans) ub buf nbytes (w\<lparr>shm := s\<rparr>) = Some (int nbytes, w') \<and> calls w' = calls w
    \<and> goes_to_sleep (wait_reader_body (race_env (tick st + 3) (write_meanwhile wans ub buf nbytes w) ans)
        (sh_read (shm st)) (wait_start st)) st s (shm w') a
    \<and> in_transit a = take nbytes buf
    \<and> (\<forall>answer. device_call D evs (Sys_await (fd (priv st)) (request_flags (await_op (priv st)))
        (timeout_ms (await_op (priv st)))) answer k = None)"
proof -
  let ?s = "(shm st)\<lparr>reader_flags := set_flag (reader_flags (shm st)) XSHMP_WAITING\<rparr>"
  let ?act = "write_meanwhile wans ub buf nbytes w"
  have wf: "shared_wf n (shm st)" and op: "\<not> flag_set (reader_flags (shm st)) XSHMP_CLOSED"
    using assms(1) by (simp_all add: connected_reader_def pipe_wf_def)
  then have pos: "sh_read (shm st) = sh_write (shm st)" using assms(3) by (simp add: in_transit_Nil_iff)
  have w: "connected_writer n (w\<lparr>shm := ?s\<rparr>)" by (rule connected_area(1) [OF assms(2)]) (simp add: wf)
  obtain w' where w': "xen_shm_pipe_write (quiet_env wans) ub buf nbytes (w\<lparr>shm := ?s\<rparr>) = Some (int nbytes, w')"
      "calls w' = calls w"
    by (rule quiet_write_silent [OF w assms(9,11), of wans ub]) (use assms(3-5,10) op in \<open>auto simp: idle_flags_def\<close>)
  have act: "?act ?s = shm w'" by (simp add: write_meanwhile_def w'(1))
  note sleep = reader_round_race [OF pos assms(4,6), of ?act ans, unfolded act]
  have "in_transit (shm w') = take nbytes buf" using quiet_write(4) [OF w assms(11) w'(1)] assms(3) by simp
  then show ?thesis
    using race_env_writer [OF assms(2,11)] w' sleep silent_await [OF assms(13,12,14)] assms(7,8) by fastforce
qed

text \<open>An empty ring of eight bytes, and a device to which no signal has come.\<close>

definition empty_area :: xen_shm_pipe_shared where
  "empty_area = \<lparr>writer_flags = 1, reader_flags = 17, sh_write = 6, sh_read = 6, buffer = [0, 0, 0, 0, 0, 0, 0, 0]\<rparr>"

definition full_area :: xen_shm_pipe_shared where
  "full_area = \<lparr>writer_flags = 17, reader_flags = 1, sh_write = 5, sh_read = 6, buffer = [1, 2, 3, 4, 5, 0, 6, 7]\<rparr>"

lemma small_race:
  "shared_wf 8 empty_area" "sh_read empty_area = 6" "in_transit empty_area = []" "idle_flags (writer_flags empty_area)"
  "\<not> flag_set (reader_flags empty_area) XSHMP_SLEEPING" "\<not> flag_set (reader_flags empty_area) XSHMP_CLOSED"
  "shared_wf 8 full_area" "length (in_transit full_area) = 7" "idle_flags (reader_flags full_area)"
  "\<not> flag_set (writer_flags full_area) XSHMP_SLEEPING" "\<not> flag_set (reader_flags full_area) XSHMP_CLOSED"
  "no_signal (small_shm XEN_SHM_STATE_RECEIVER)" "silent []" "user_memory_ok (pair_kenv 7 small_meta)"
  by (simp_all add: empty_area_def full_area_def shared_wf_def in_transit_def ring_list_def ring_count_def idle_flags_def
      flag_set_def no_signal_def small_shm_def small_inst_def small_meta_def xen_shm_is_broken_pipe_def silent_def
      user_memory_ok_def)

lemma small_race_ends:
  assumes "shared_wf 8 s"
  shows "connected_writer 8 (small_end xen_shm_pipe_mod_write s)"
    "\<not> flag_set (reader_flags s) XSHMP_CLOSED \<Longrightarrow> connected_reader 8 (small_end xen_shm_pipe_mod_read s)"
    "saw_epipe (priv (small_end md s)) = 0" "fd (priv (small_end md s)) = 3"
    "request_flags (await_op (priv (small_end md s))) = XEN_SHM_IOCTL_AWAIT_LATENT_USER"
    "timeout_ms (await_op (priv (small_end md s))) = 0" "calls (small_end md s) = []"
  using assms by (simp_all add: connected_writer_def connected_reader_def small_end_wf, simp_all add: small_end_def)

theorem reader_misses_wakeup_witness:
  "\<exists>s w' a. env_writer 8 (race_env 3 (write_meanwhile epipe_answer 0 [1, 2, 3] 3
        (small_end xen_shm_pipe_mod_write empty_area)) epipe_answer)
    \<and> xen_shm_pipe_write (quiet_env epipe_answer) 0 [1, 2, 3] 3
        ((small_end xen_shm_pipe_mod_write empty_area)\<lparr>shm := s\<rparr>) = Some (int 3, w')
    \<and> calls w' = []
    \<and> goes_to_sleep (wait_reader_body (race_env 3 (write_meanwhile epipe_answer 0 [1, 2, 3] 3
          (small_end xen_shm_pipe_mod_write empty_area)) epipe_answer) 6
        (wait_start (small_end xen_shm_pipe_mod_read empty_area)))
        (small_end xen_shm_pipe_mod_read empty_area) s (shm w') a
    \<and> in_transit a = [1, 2, 3]
    \<and> (\<forall>answer. device_call (pair_device 7 small_meta) [] (Sys_await 3 XEN_SHM_IOCTL_AWAIT_LATENT_USER 0) answer
        (small_shm XEN_SHM_STATE_RECEIVER) = None)"
  using reader_misses_wakeup [where n = 8 and st = "small_end xen_shm_pipe_mod_read empty_area"
      and w = "small_end xen_shm_pipe_mod_write empty_area" and nbytes = 3 and buf = "[1, 2, 3]" and ub = 0
      and wans = epipe_answer and ans = epipe_answer and k = "small_shm XEN_SHM_STATE_RECEIVER" and evs = "[]"
      and D = "pair_device 7 small_meta"]
  by (simp add: small_race small_race_ends)

text \<open>A writer can sleep on a ring with room.  The ring is full and both ends are open; the reader makes one
  call in which it reads \<open>nbytes\<close> bytes, after the second look of a waiting writer at the read position and before
  the writer marks itself sleeping.  Again the peer keeps to the protocol and does not signal, and the call that the writer
  then sleeps in has no answer as long as nobody signals or closes, although there is room for \<open>nbytes\<close> bytes.\<close>

theorem writer_misses_wakeup:
  assumes "connected_writer n st" "connected_reader n (r\<lparr>shm := shm st\<rparr>)" "length (in_transit (shm st)) + 1 = n"
    and "idle_flags (reader_flags (shm st))" "\<not> flag_set (writer_flags (shm st)) XSHMP_SLEEPING"
    and "request_flags (await_op (priv st)) = XEN_SHM_IOCTL_AWAIT_LATENT_USER" "timeout_ms (await_op (priv st)) = 0"
    and "0 < nbytes" "nbytes < n" "nbytes \<le> length buf"
    and "no_signal k" "silent evs" "user_memory_ok (d_kenv D)"
  shows "\<exists>s buf' r' a. env_reader n (race_env (tick st + 3) (read_meanwhile rans ub buf nbytes r) ans)
    \<and> xen_shm_pipe_read (quiet_env rans) ub buf nbytes (r\<lparr>shm := s\<rparr>) = Some (int nbytes, buf', r') \<and> calls r' = calls r
    \<and> goes_to_sleep (wait_writer_body (race_env (tick st + 3) (read_meanwhile rans ub buf nbytes r) ans)
        (wait_write_p st) (wait_start st)) st s (shm r') a
    \<and> length (in_transit a) + nbytes + 1 = n
    \<and> (\<forall>answer. device_call D evs (Sys_await (fd (priv st)) (request_flags (await_op (priv st)))
        (timeout_ms (await_op (priv st)))) answer k = None)"
proof -
  let ?s = "(shm st)\<lparr>writer_flags := set_flag (writer_flags (shm st)) XSHMP_WAITING\<rparr>"
  let ?act = "read_meanwhile rans ub buf nbytes r"
  have wf: "pipe_wf n st" "shared_wf n (shm st)" using assms(1) by (simp_all add: connected_writer_def pipe_wf_def)
  have pos: "wait_write_p st = sh_read (shm st)"
    using wait_writer_room [OF wf(1), of st] wf assms(3) by (simp add: writer_passive_def)
  have r: "connected_reader n (r\<lparr>shm := ?s\<rparr>)" by (rule connected_area(2) [OF assms(2)]) (simp_all add: wf)
  obtain buf' r' where r': "xen_shm_pipe_read (quiet_env rans) ub buf nbytes (r\<lparr>shm := ?s\<rparr>) = Some (int nbytes, buf', r')"
      "calls r' = calls r"
    by (rule quiet_read_silent [OF r assms(8,10), of rans ub]) (use assms(3-5,9) in \<open>auto simp: idle_flags_def\<close>)
  have act: "?act ?s = shm r'" by (simp add: read_meanwhile_def r'(1))
  note sleep = writer_round_race [OF pos assms(4), of ?act ans, unfolded act]
  have "length buf' = length buf" using pipe_read_partial [OF _ r assms(10) r'(1)] by (simp add: read_post_def)
  then have "length (in_transit (shm r')) + nbytes + 1 = n"
    using quiet_read(3) [OF r assms(10) r'(1)] assms(3,10) by (auto dest: arg_cong [where f = length])
  then show ?thesis
    using race_env_reader [OF assms(2,10)] r' sleep silent_await [OF assms(12,11,13)] assms(6,7) by fastforce
qed

theorem writer_misses_wakeup_witness:
  "\<exists>s buf' r' a. env_reader 8 (race_env 3 (read_meanwhile epipe_answer 0 [0, 0, 0] 3
        (small_end xen_shm_pipe_mod_read full_area)) epipe_answer)
    \<and> xen_shm_pipe_read (quiet_env epipe_answer) 0 [0, 0, 0] 3
        ((small_end xen_shm_pipe_mod_read full_area)\<lparr>shm := s\<rparr>) = Some (int 3, buf', r')
    \<and> calls r' = []
    \<and> goes_to_sleep (wait_writer_body (race_env 3 (read_meanwhile epipe_answer 0 [0, 0, 0] 3
          (small_end xen_shm_pipe_mod_read full_area)) epipe_answer)
        (wait_write_p (small_end xen_shm_pipe_mod_write full_area)) (wait_start (small_end xen_shm_pipe_mod_write full_area)))
        (small_end xen_shm_pipe_mod_write full_area) s (shm r') a
    \<and> length (in_transit a) + 3 + 1 = 8
    \<and> (\<forall>answer. device_call (pair_device 7 small_meta) [] (Sys_await 3 XEN_SHM_IOCTL_AWAIT_LATENT_USER 0) answer
        (small_shm XEN_SHM_STATE_RECEIVER) = None)"
  using writer_misses_wakeup [where n = 8 and st = "small_end xen_shm_pipe_mod_write full_area"
      and r = "small_end xen_shm_pipe_mod_read full_area" and nbytes = 3 and buf = "[0, 0, 0]" and ub = 0
      and rans = epipe_answer and ans = epipe_answer and k = "small_shm XEN_SHM_STATE_RECEIVER" and evs = "[]"
      and D = "pair_device 7 small_meta"]
  by (simp add: small_race small_race_ends)

end
