(* ===== verification/Test_Pipe.thy ===== *)
theory Test_Pipe
  imports Pipe_System
begin

text \<open>
  The two programs of \<^verbatim>\<open>src/test\<close> that exercise a pipe, \<^verbatim>\<open>pipe_writer.c\<close> and \<^verbatim>\<open>pipe_reader.c\<close>: one sends its standard
  input through a pipe, the other one receives it, and both count the bytes and print a checksum, for the
  user to compare.  What \<^verbatim>\<open>scanf\<close> and \<^verbatim>\<open>read\<close> return is an argument; the handler of \<^verbatim>\<open>SIGINT\<close>, which does what the
  programs do at their end, is not modelled.
\<close>

section \<open>Definitions\<close>

abbreviation (input) BUFFER_SIZE :: nat where "BUFFER_SIZE \<equiv> 5000"
abbreviation (input) PAGE_COUNT :: u8 where "PAGE_COUNT \<equiv> 10"

text \<open>The loop that adds the bytes just transferred to the checksum.\<close>

fun add_bytes :: "u32 \<Rightarrow> byte list \<Rightarrow> u32" where
  "add_bytes checksum [] = checksum"
| "add_bytes checksum (b # bs) = add_bytes (checksum + (ucast b + 10) * (ucast b + 20)) bs"

record counters =
  checksum :: u32
  byte_count :: u64
  pipe :: pipe_st

text \<open>The state when the program calls \<^verbatim>\<open>clean\<close> and exits.\<close>

definition clean_program :: "pipe_env \<Rightarrow> counters \<Rightarrow> counters" where
  "clean_program env c = c\<lparr>pipe := xen_shm_pipe_free env (pipe c)\<rparr>"

subsection \<open>\<^verbatim>\<open>pipe_writer.c\<close>\<close>

record send_loc =
  sl_offset :: nat
  sl_failed :: bool
  sl_count :: counters

definition send_cond :: "nat \<Rightarrow> send_loc \<Rightarrow> bool" where
  "send_cond msg_len l \<longleftrightarrow> sl_offset l \<noteq> msg_len \<and> \<not> sl_failed l"

definition send_iter :: "pipe_env \<Rightarrow> nat \<Rightarrow> memory \<Rightarrow> nat \<Rightarrow> send_loc \<Rightarrow> send_loc option" where
  "send_iter env ub buf msg_len l =
    do {
      let c = sl_count l;
      (retval, st) \<leftarrow> xen_shm_pipe_write env (ub + sl_offset l) (drop (sl_offset l) buf) (msg_len - sl_offset l) (pipe c);
      (if retval \<le> 0 then Some (l\<lparr>sl_failed := True, sl_count := c\<lparr>pipe := st\<rparr>\<rparr>)
       else Some (l\<lparr>sl_offset := sl_offset l + nat retval,
         sl_count := c\<lparr>byte_count := byte_count c + of_int retval,
           checksum := add_bytes (checksum c) (take (nat retval) (drop (sl_offset l) buf)), pipe := st\<rparr>\<rparr>))
    }"

partial_function (option) send_loop :: "pipe_env \<Rightarrow> nat \<Rightarrow> memory \<Rightarrow> nat \<Rightarrow> send_loc \<Rightarrow> send_loc option" where
  "send_loop env ub buf msg_len l =
    (if send_cond msg_len l then Option.bind (send_iter env ub buf msg_len l) (send_loop env ub buf msg_len) else Some l)"

text \<open>\<open>input\<close> holds the blocks that \<^verbatim>\<open>read\<close> puts at the start of the buffer, before it returns 0 or -1.\<close>

fun send_input :: "pipe_env \<Rightarrow> nat \<Rightarrow> memory \<Rightarrow> byte list list \<Rightarrow> counters \<Rightarrow> counters option" where
  "send_input env ub buf [] c = Some c"
| "send_input env ub buf (block # input) c =
    do {
      let buf = overwrite buf 0 block;
      l \<leftarrow> send_loop env ub buf (length block) \<lparr>sl_offset = 0, sl_failed = False, sl_count = c\<rparr>;
      (if sl_failed l then Some (sl_count l) else send_input env ub buf input (sl_count l))
    }"

text \<open>The result is the exit status with the counters printed, which are not printed when the pipe cannot be set up.\<close>

definition pipe_writer_main ::
  "pipe_env \<Rightarrow> xen_shm_pipe_priv option \<Rightarrow> u32 option \<Rightarrow> nat \<Rightarrow> memory \<Rightarrow> byte list list \<Rightarrow> pipe_st
    \<Rightarrow> (int \<times> counters option \<times> pipe_st) option" where
  "pipe_writer_main env malloc dist_domid ub buf input st =
    (let (r, st) = xen_shm_pipe_init env malloc xen_shm_pipe_mod_write xen_shm_pipe_conv_writer_offers st
     in if r \<noteq> 0 then Some (-1, None, st)
     else case dist_domid of
       None \<Rightarrow> Some (-1, None, st)
     | Some d \<Rightarrow>
         let (r, _, st) = xen_shm_pipe_offers env PAGE_COUNT d st
         in if r \<noteq> 0 then Some (-1, None, st)
         else
           let (r, st) = xen_shm_pipe_wait env 30000 st
           in if r \<noteq> 0 then Some (-1, None, st)
           else do {
             c \<leftarrow> send_input env ub buf input \<lparr>checksum = 0, byte_count = 0, pipe = st\<rparr>;
             let c = clean_program env c;
             Some (0, Some c, pipe c)
           })"

subsection \<open>\<^verbatim>\<open>pipe_reader.c\<close>\<close>

record recv_loc =
  rl_to_read :: u32
  rl_failed :: bool
  rl_buf :: memory
  rl_count :: counters

definition recv_cond :: "recv_loc \<Rightarrow> bool" where
  "recv_cond l \<longleftrightarrow> rl_to_read l \<noteq> 0 \<and> \<not> rl_failed l"

definition read_size :: "u32 \<Rightarrow> nat" where
  "read_size to_read = (if unat to_read < BUFFER_SIZE - 1 then unat to_read else BUFFER_SIZE - 1)"

definition recv_iter :: "pipe_env \<Rightarrow> nat \<Rightarrow> recv_loc \<Rightarrow> recv_loc option" where
  "recv_iter env ub l =
    do {
      let c = rl_count l;
      (retval, buf, st) \<leftarrow> xen_shm_pipe_read env ub (rl_buf l) (read_size (rl_to_read l)) (pipe c);
      (if retval \<le> 0 then Some (l\<lparr>rl_failed := True, rl_buf := buf, rl_count := c\<lparr>pipe := st\<rparr>\<rparr>)
       else Some (l\<lparr>rl_to_read := rl_to_read l - of_int retval, rl_buf := buf,
         rl_count := c\<lparr>byte_count := byte_count c + of_int retval,
           checksum := add_bytes (checksum c) (take (nat retval) buf), pipe := st\<rparr>\<rparr>))
    }"

partial_function (option) recv_loop :: "pipe_env \<Rightarrow> nat \<Rightarrow> recv_loc \<Rightarrow> recv_loc option" where
  "recv_loop env ub l =
    (if recv_cond l then Option.bind (recv_iter env ub l) (recv_loop env ub) else Some l)"

text \<open>\<open>asked\<close> holds the numbers that the user enters, before something else; then the program returns -1 without
  closing the pipe.\<close>

fun recv_asked :: "pipe_env \<Rightarrow> nat \<Rightarrow> memory \<Rightarrow> u32 list \<Rightarrow> counters \<Rightarrow> (int \<times> counters) option" where
  "recv_asked env ub buf [] c = Some (-1, c)"
| "recv_asked env ub buf (to_read # asked) c =
    do {
      l \<leftarrow> recv_loop env ub \<lparr>rl_to_read = to_read, rl_failed = False, rl_buf = buf, rl_count = c\<rparr>;
      (if rl_failed l then Some (0, clean_program env (rl_count l)) else recv_asked env ub (rl_buf l) asked (rl_count l))
    }"

definition pipe_reader_main ::
  "pipe_env \<Rightarrow> xen_shm_pipe_priv option \<Rightarrow> u32 option \<Rightarrow> u32 option \<Rightarrow> nat \<Rightarrow> memory \<Rightarrow> u32 list \<Rightarrow> pipe_st
    \<Rightarrow> (int \<times> counters option \<times> pipe_st) option" where
  "pipe_reader_main env malloc dist_domid grant_ref ub buf asked st =
    (let (r, st) = xen_shm_pipe_init env malloc xen_shm_pipe_mod_read xen_shm_pipe_conv_writer_offers st
     in if r \<noteq> 0 then Some (-1, None, st)
     else
       let (r, _, st) = xen_shm_pipe_getdomid env st
       in if r \<noteq> 0 then Some (-1, None, st)
       else case (dist_domid, grant_ref) of
         (Some d, Some g) \<Rightarrow>
           let (r, st) = xen_shm_pipe_connect env PAGE_COUNT d g st
           in if r \<noteq> 0 then Some (-1, None, st)
           else do {
             (r, c) \<leftarrow> recv_asked env ub buf asked \<lparr>checksum = 0, byte_count = 0, pipe = st\<rparr>;
             Some (r, Some c, pipe c)
           }
       | _ \<Rightarrow> Some (-1, None, st))"

section \<open>Sending and receiving\<close>

lemma add_bytes_append: "add_bytes c (xs @ ys) = add_bytes (add_bytes c xs) ys"
  by (induction c xs rule: add_bytes.induct) simp_all

text \<open>Counters that account for the bytes \<open>xs\<close>.\<close>

definition accounts :: "byte list \<Rightarrow> counters \<Rightarrow> counters \<Rightarrow> bool" where
  "accounts xs c c' \<longleftrightarrow> checksum c' = add_bytes (checksum c) xs \<and> byte_count c' = byte_count c + of_nat (length xs)"

lemma accounts_trans: "accounts xs a b \<Longrightarrow> accounts ys b c \<Longrightarrow> accounts (xs @ ys) a c"
  by (simp add: accounts_def add_bytes_append)

lemma send_loop_induct:
  assumes "send_loop env ub buf m s = Some t" "\<And>s. \<not> send_cond m s \<Longrightarrow> P s s"
    and "\<And>s u t. send_cond m s \<Longrightarrow> send_iter env ub buf m s = Some u \<Longrightarrow> P u t \<Longrightarrow> P s t"
  shows "P s t"
proof -
  let ?P = "\<lambda>env' ub' buf' m' s t. env' = env \<longrightarrow> ub' = ub \<longrightarrow> buf' = buf \<longrightarrow> m' = m \<longrightarrow> P s t"
  have "?P env ub buf m s t"
    by (rule send_loop.raw_induct [where P = ?P, OF _ assms(1)])
      (auto intro: assms(2,3) simp: bind_eq_Some_conv split: if_splits)
  then show ?thesis by blast
qed

interpretation send: option_loop "send_cond m" "send_iter env ub buf m" "send_loop env ub buf m" for env ub buf m
  by unfold_locales (rule send_loop.simps, rule send_loop_induct)

lemma recv_loop_induct:
  assumes "recv_loop env ub s = Some t" "\<And>s. \<not> recv_cond s \<Longrightarrow> P s s"
    and "\<And>s u t. recv_cond s \<Longrightarrow> recv_iter env ub s = Some u \<Longrightarrow> P u t \<Longrightarrow> P s t"
  shows "P s t"
proof -
  let ?P = "\<lambda>env' ub' s t. env' = env \<longrightarrow> ub' = ub \<longrightarrow> P s t"
  have "?P env ub s t"
    by (rule recv_loop.raw_induct [where P = ?P, OF _ assms(1)])
      (auto intro: assms(2,3) simp: bind_eq_Some_conv split: if_splits)
  then show ?thesis by blast
qed

interpretation recv: option_loop recv_cond "recv_iter env ub" "recv_loop env ub" for env ub
  by unfold_locales (rule recv_loop.simps, rule recv_loop_induct)

text \<open>The state of the sender inside a block, and of the receiver inside a request, after it handled \<open>xs\<close>.\<close>

definition sending :: "nat \<Rightarrow> pipe_env \<Rightarrow> byte list \<Rightarrow> counters \<Rightarrow> counters \<Rightarrow> bool" where
  "sending n env xs c0 c \<longleftrightarrow> writer_ready n env (pipe c) \<and> writer_flow xs (pipe c0) (pipe c) \<and> accounts xs c0 c"

definition receiving :: "nat \<Rightarrow> pipe_env \<Rightarrow> byte list \<Rightarrow> counters \<Rightarrow> counters \<Rightarrow> bool" where
  "receiving n env xs c0 c \<longleftrightarrow> reader_ready n env (pipe c) \<and> reader_flow xs (pipe c0) (pipe c) \<and> accounts xs c0 c"

lemma sending_trans: "sending n env xs a b \<Longrightarrow> sending n env ys b c \<Longrightarrow> sending n env (xs @ ys) a c"
  by (auto simp: sending_def intro: writer_flow_trans accounts_trans)

lemma receiving_trans: "receiving n env xs a b \<Longrightarrow> receiving n env ys b c \<Longrightarrow> receiving n env (xs @ ys) a c"
  by (auto simp: receiving_def intro: reader_flow_trans accounts_trans)

lemma send_iter_run:
  assumes rdy: "writer_ready n env (pipe (sl_count l))" and off: "sl_offset l < m" "m \<le> length buf"
  obtains k l' where "send_iter env ub buf m l = Some l'"
    and "sending n env (take k (drop (sl_offset l) buf)) (sl_count l) (sl_count l')"
    and "sl_offset l' = sl_offset l + k" "sl_offset l' \<le> m"
    and "sl_failed l' = (k = 0 \<or> sl_failed l)" "k = 0 \<longrightarrow> (\<exists>r. writer_stop env r (pipe (sl_count l')))"
proof -
  let ?buf = "drop (sl_offset l) buf"
  have fits: "m - sl_offset l \<le> length ?buf" using off by simp
  obtain r st where call: "xen_shm_pipe_write env (ub + sl_offset l) ?buf (m - sl_offset l) (pipe (sl_count l)) = Some (r, st)"
    and post: "write_post n env ?buf (m - sl_offset l) (pipe (sl_count l)) (r, st)"
    using pipe_write_total [of n env "pipe (sl_count l)" "m - sl_offset l" ?buf "ub + sl_offset l"] rdy fits
    by (auto simp: writer_ready_def)
  have st: "writer_ready n env st" "writer_flow (take (nat r) ?buf) (pipe (sl_count l)) st" "r \<le> int (m - sl_offset l)"
    "r \<le> 0 \<Longrightarrow> writer_stop env r st"
    using post rdy off by (auto simp: write_post_def writer_ready_def)
  show ?thesis
  proof (cases "r \<le> 0")
    case True
    with st off show ?thesis
      by (intro that [of "l\<lparr>sl_failed := True, sl_count := (sl_count l)\<lparr>pipe := st\<rparr>\<rparr>" 0])
        (auto simp: send_iter_def call sending_def accounts_def)
  next
    case False
    then have "length (take (nat r) ?buf) = nat r" using st(3) off by simp
    with False st off call show ?thesis
      by (intro that [of "l\<lparr>sl_offset := sl_offset l + nat r, sl_count := (sl_count l)\<lparr>byte_count := byte_count (sl_count l) + of_int r,
            checksum := add_bytes (checksum (sl_count l)) (take (nat r) ?buf), pipe := st\<rparr>\<rparr>" "nat r"])
        (auto simp: send_iter_def sending_def accounts_def Let_def simp del: length_take)
  qed
qed

lemma send_loop_run:
  assumes "writer_ready n env (pipe c)" "m \<le> length buf"
  obtains k l where "send_loop env ub buf m \<lparr>sl_offset = 0, sl_failed = False, sl_count = c\<rparr> = Some l"
    and "sending n env (take k buf) c (sl_count l)" "k \<le> m"
    and "\<not> sl_failed l \<longrightarrow> k = m" "sl_failed l \<longrightarrow> (\<exists>r. writer_stop env r (pipe (sl_count l)))"
proof -
  let ?I = "\<lambda>l. sending n env (take (sl_offset l) buf) c (sl_count l) \<and> sl_offset l \<le> m
    \<and> (sl_failed l \<longrightarrow> (\<exists>r. writer_stop env r (pipe (sl_count l))))"
  let ?m = "\<lambda>l. (m - sl_offset l) + (if sl_failed l then 0 else 1)"
  let ?l0 = "\<lparr>sl_offset = 0, sl_failed = False, sl_count = c\<rparr>"
  have step: "\<exists>l'. send_iter env ub buf m l = Some l' \<and> ?I l' \<and> ?m l' < ?m l" if I: "?I l" and cond: "send_cond m l" for l
  proof -
    have rdy: "writer_ready n env (pipe (sl_count l))" "sl_offset l < m"
      using I cond by (auto simp: sending_def send_cond_def)
    obtain k l' where l': "send_iter env ub buf m l = Some l'"
      and s: "sending n env (take k (drop (sl_offset l) buf)) (sl_count l) (sl_count l')"
      and off: "sl_offset l' = sl_offset l + k" "sl_offset l' \<le> m"
      and fl: "sl_failed l' = (k = 0 \<or> sl_failed l)" "k = 0 \<longrightarrow> (\<exists>r. writer_stop env r (pipe (sl_count l')))"
      by (rule send_iter_run [OF rdy assms(2), of ub])
    have "sending n env (take (sl_offset l') buf) c (sl_count l')"
      using sending_trans [OF _ s] I by (simp add: off(1) take_add)
    with l' off fl cond show ?thesis by (auto simp: send_cond_def)
  qed
  have "?I ?l0" using assms(1) by (simp add: sending_def accounts_def)
  from send.loop_total [where I = ?I and m = ?m, OF step this] obtain l where
    "send_loop env ub buf m ?l0 = Some l" "?I l" "\<not> send_cond m l" by blast
  then show ?thesis by (intro that [of l "sl_offset l"]) (auto simp: send_cond_def)
qed

lemma send_input_run:
  assumes "writer_ready n env (pipe c)" "\<And>b. b \<in> set input \<Longrightarrow> length b \<le> length buf"
  shows "\<exists>xs c'. send_input env ub buf input c = Some c' \<and> sending n env xs c c' \<and> prefix xs (concat input)
    \<and> (xs = concat input \<or> (\<exists>r. writer_stop env r (pipe c')))"
  using assms
proof (induction input arbitrary: buf c)
  case Nil
  then show ?case by (auto simp: sending_def accounts_def)
next
  case (Cons b input)
  let ?buf = "overwrite buf 0 b"
  have len: "length ?buf = length buf" using Cons.prems(2) [of b] by (simp add: length_overwrite)
  obtain k l where l: "send_loop env ub ?buf (length b) \<lparr>sl_offset = 0, sl_failed = False, sl_count = c\<rparr> = Some l"
    and s: "sending n env (take k ?buf) c (sl_count l)" and k: "k \<le> length b"
    and fl: "\<not> sl_failed l \<longrightarrow> k = length b" "sl_failed l \<longrightarrow> (\<exists>r. writer_stop env r (pipe (sl_count l)))"
    by (rule send_loop_run [OF Cons.prems(1), of "length b" ?buf ub]) (use len Cons.prems(2) [of b] in auto)
  have t: "take k ?buf = take k b" using k by (simp add: overwrite_def)
  show ?case
  proof (cases "sl_failed l")
    case True
    with l s t fl(2) take_is_prefix [of k b] show ?thesis
      by (auto intro!: exI [of _ "take k b"] intro: prefix_order.trans)
  next
    case False
    have rdy: "writer_ready n env (pipe (sl_count l))" using s by (simp add: sending_def)
    from Cons.IH [OF rdy, of ?buf] Cons.prems(2) len obtain xs c' where
      "send_input env ub ?buf input (sl_count l) = Some c'" "sending n env xs (sl_count l) c'" "prefix xs (concat input)"
      "xs = concat input \<or> (\<exists>r. writer_stop env r (pipe c'))" by auto
    with False l s t fl(1) sending_trans [of n env b c "sl_count l" xs c'] show ?thesis
      by (auto intro!: exI [of _ "b @ xs"])
  qed
qed

lemma read_size_bounds: "read_size m \<le> unat m" "read_size m < BUFFER_SIZE" "m \<noteq> 0 \<Longrightarrow> 0 < read_size m"
  by (auto simp: read_size_def unat_gt_0)

lemma unat_minus_count:
  assumes "0 < r" "nat r \<le> unat (w :: u32)"
  shows "unat (w - of_int r) = unat w - nat r"
proof -
  have "unat (of_nat (nat r) :: u32) = nat r"
    using assms(2) unsigned_less [of w] by (intro unat_of_nat_eq) (simp, use le_less_trans in blast)
  then have "unat (of_int r :: u32) = nat r" using assms(1) by simp
  then show ?thesis using assms(2) unat_sub [of "of_int r" w] by (simp add: word_le_nat_alt)
qed

lemma recv_iter_run:
  assumes rdy: "reader_ready n env (pipe (rl_count l))" and cond: "recv_cond l" and len: "length (rl_buf l) = BUFFER_SIZE"
  obtains xs l' where "recv_iter env ub l = Some l'" "receiving n env xs (rl_count l) (rl_count l')"
    and "length xs + unat (rl_to_read l') = unat (rl_to_read l)" "length (rl_buf l') = BUFFER_SIZE"
    and "rl_failed l' = (xs = [])" "xs = [] \<longrightarrow> (\<exists>r. reader_stop env r (pipe (rl_count l')))"
proof -
  let ?nb = "read_size (rl_to_read l)"
  have nb: "0 < ?nb" "?nb \<le> length (rl_buf l)" "?nb \<le> unat (rl_to_read l)"
    using cond len read_size_bounds [of "rl_to_read l"] by (auto simp: recv_cond_def)
  obtain r buf st where call: "xen_shm_pipe_read env ub (rl_buf l) ?nb (pipe (rl_count l)) = Some (r, buf, st)"
    and post: "read_post n env (rl_buf l) ?nb (pipe (rl_count l)) (r, buf, st)"
    using pipe_read_total [of n env "pipe (rl_count l)" ?nb "rl_buf l" ub] rdy nb(2)
    by (auto simp: reader_ready_def)
  have st: "reader_ready n env st" "reader_flow (take (nat r) buf) (pipe (rl_count l)) st" "r \<le> int ?nb"
    "r \<le> 0 \<Longrightarrow> reader_stop env r st" "length buf = BUFFER_SIZE"
    using post rdy nb(1) len by (auto simp: read_post_def reader_ready_def)
  show ?thesis
  proof (cases "r \<le> 0")
    case True
    with st call cond show ?thesis
      by (intro that [of "l\<lparr>rl_failed := True, rl_buf := buf, rl_count := (rl_count l)\<lparr>pipe := st\<rparr>\<rparr>" "[]"])
        (auto simp: recv_iter_def receiving_def accounts_def)
  next
    case False
    then have k: "length (take (nat r) buf) = nat r" "take (nat r) buf \<noteq> []" "nat r \<le> unat (rl_to_read l)"
      using st(3,5) nb len by auto
    have "unat (rl_to_read l - of_int r) = unat (rl_to_read l) - nat r" using False k(3) by (intro unat_minus_count) auto
    with False st k call cond show ?thesis
      by (intro that [of "l\<lparr>rl_to_read := rl_to_read l - of_int r, rl_buf := buf,
            rl_count := (rl_count l)\<lparr>byte_count := byte_count (rl_count l) + of_int r,
            checksum := add_bytes (checksum (rl_count l)) (take (nat r) buf), pipe := st\<rparr>\<rparr>" "take (nat r) buf"])
        (auto simp: recv_iter_def receiving_def accounts_def recv_cond_def Let_def simp del: length_take)
  qed
qed

lemma recv_loop_run:
  assumes "reader_ready n env (pipe c)" "length buf = BUFFER_SIZE"
  obtains xs l where "recv_loop env ub \<lparr>rl_to_read = m, rl_failed = False, rl_buf = buf, rl_count = c\<rparr> = Some l"
    and "receiving n env xs c (rl_count l)" "length xs \<le> unat m" "length (rl_buf l) = BUFFER_SIZE"
    and "\<not> rl_failed l \<longrightarrow> length xs = unat m" "rl_failed l \<longrightarrow> (\<exists>r. reader_stop env r (pipe (rl_count l)))"
proof -
  let ?I = "\<lambda>l. (\<exists>xs. receiving n env xs c (rl_count l) \<and> length xs + unat (rl_to_read l) = unat m)
    \<and> length (rl_buf l) = BUFFER_SIZE \<and> (rl_failed l \<longrightarrow> (\<exists>r. reader_stop env r (pipe (rl_count l))))"
  let ?m = "\<lambda>l. unat (rl_to_read l) + (if rl_failed l then 0 else 1)"
  let ?l0 = "\<lparr>rl_to_read = m, rl_failed = False, rl_buf = buf, rl_count = c\<rparr>"
  have step: "\<exists>l'. recv_iter env ub l = Some l' \<and> ?I l' \<and> ?m l' < ?m l" if I: "?I l" and cond: "recv_cond l" for l
  proof -
    obtain xs where xs: "receiving n env xs c (rl_count l)" "length xs + unat (rl_to_read l) = unat m" using I by blast
    then have rdy: "reader_ready n env (pipe (rl_count l))" by (simp add: receiving_def)
    have len: "length (rl_buf l) = BUFFER_SIZE" using I by blast
    obtain ys l' where l': "recv_iter env ub l = Some l'" "receiving n env ys (rl_count l) (rl_count l')"
      "length ys + unat (rl_to_read l') = unat (rl_to_read l)" "length (rl_buf l') = BUFFER_SIZE"
      "rl_failed l' = (ys = [])" "ys = [] \<longrightarrow> (\<exists>r. reader_stop env r (pipe (rl_count l')))"
      by (rule recv_iter_run [OF rdy cond len, of ub])
    have "receiving n env (xs @ ys) c (rl_count l') \<and> length (xs @ ys) + unat (rl_to_read l') = unat m"
      using receiving_trans [OF xs(1) l'(2)] xs(2) l'(3) by simp
    moreover have "?m l' < ?m l" using l'(3,5) cond by (cases ys) (auto simp: recv_cond_def)
    ultimately show ?thesis using l' by blast
  qed
  have "?I ?l0" using assms by (auto simp: receiving_def accounts_def)
  from recv.loop_total [where I = ?I and m = ?m, OF step this] obtain l where
    l: "recv_loop env ub ?l0 = Some l" "?I l" "\<not> recv_cond l" by blast
  then obtain xs where "receiving n env xs c (rl_count l)" "length xs + unat (rl_to_read l) = unat m" by blast
  with l show ?thesis by (intro that [of l xs]) (auto simp: recv_cond_def)
qed

lemma recv_asked_run:
  assumes "reader_ready n env (pipe c)" "length buf = BUFFER_SIZE"
  shows "\<exists>r xs c1 c'. recv_asked env ub buf asked c = Some (r, c') \<and> receiving n env xs c c1
    \<and> length xs \<le> sum_list (map unat asked)
    \<and> (r = -1 \<and> c' = c1 \<and> length xs = sum_list (map unat asked)
       \<or> r = 0 \<and> c' = clean_program env c1 \<and> (\<exists>k. reader_stop env k (pipe c1)))"
  using assms
proof (induction asked arbitrary: buf c)
  case Nil
  then show ?case by (auto simp: receiving_def accounts_def)
next
  case (Cons m asked)
  obtain xs l where l: "recv_loop env ub \<lparr>rl_to_read = m, rl_failed = False, rl_buf = buf, rl_count = c\<rparr> = Some l"
    and s: "receiving n env xs c (rl_count l)" "length xs \<le> unat m" and len: "length (rl_buf l) = BUFFER_SIZE"
    and fl: "\<not> rl_failed l \<longrightarrow> length xs = unat m" "rl_failed l \<longrightarrow> (\<exists>r. reader_stop env r (pipe (rl_count l)))"
    by (rule recv_loop_run [OF Cons.prems])
  show ?case
  proof (cases "rl_failed l")
    case True
    with l s fl(2) show ?thesis
      by (auto intro!: exI [of _ xs] exI [of _ "rl_count l"])
  next
    case False
    have rdy: "reader_ready n env (pipe (rl_count l))" using s by (simp add: receiving_def)
    from Cons.IH [OF rdy len] obtain r ys c1 c' where
      "recv_asked env ub (rl_buf l) asked (rl_count l) = Some (r, c')" "receiving n env ys (rl_count l) c1"
      "length ys \<le> sum_list (map unat asked)"
      "r = -1 \<and> c' = c1 \<and> length ys = sum_list (map unat asked)
       \<or> r = 0 \<and> c' = clean_program env c1 \<and> (\<exists>k. reader_stop env k (pipe c1))" by blast
    moreover from this(2) have "receiving n env (xs @ ys) c c1" by (rule receiving_trans [OF s(1)])
    ultimately show ?thesis
      using False l s fl(1) by (intro exI [of _ r] exI [of _ "xs @ ys"] exI [of _ c1] exI [of _ c']) auto
  qed
qed

section \<open>Setting up the pipe\<close>

text \<open>The device opens, the memory is granted and mapped, and the receiver shows up in time.\<close>

definition writer_set_up :: "nat \<Rightarrow> pipe_env \<Rightarrow> xen_shm_pipe_priv option \<Rightarrow> pipe_st \<Rightarrow> bool" where
  "writer_set_up n env malloc st \<longleftrightarrow> malloc \<noteq> None \<and> 0 \<le> a_ret (answer env (tick st))
     \<and> device_connects n env (snd (xen_shm_pipe_init env malloc xen_shm_pipe_mod_write xen_shm_pipe_conv_writer_offers st))
     \<and> a_ret (answer env (tick st + 3)) = 0 \<and> a_remaining (answer env (tick st + 3)) \<noteq> 0"

lemma init_run:
  assumes "malloc \<noteq> None" "0 \<le> a_ret (answer env (tick st))"
  obtains st1 where "xen_shm_pipe_init env malloc md conv st = (0, st1)" "tick st1 = Suc (tick st)"
    and "pmod (priv st1) = md" "pconv (priv st1) = conv"
  using assms by (auto simp: xen_shm_pipe_init_def Let_def split_beta)

lemma writer_set_up_run:
  assumes up: "writer_set_up n env malloc st" and n: "n = 40944" and env: "env_reader n env"
  obtains st1 res st2 st3 where
    "xen_shm_pipe_init env malloc xen_shm_pipe_mod_write xen_shm_pipe_conv_writer_offers st = (0, st1)"
    and "xen_shm_pipe_offers env PAGE_COUNT d st1 = (0, res, st2)" "xen_shm_pipe_wait env 30000 st2 = (0, st3)"
    and "connected_writer n st3" "in_transit (shm st3) = []"
proof -
  obtain st1 where init: "xen_shm_pipe_init env malloc xen_shm_pipe_mod_write xen_shm_pipe_conv_writer_offers st = (0, st1)"
    and st1: "tick st1 = Suc (tick st)" "pmod (priv st1) = xen_shm_pipe_mod_write"
      "pconv (priv st1) = xen_shm_pipe_conv_writer_offers"
    using up init_run [of malloc env st] by (auto simp: writer_set_up_def)
  have dev: "device_connects n env st1" using up init by (simp add: writer_set_up_def)
  obtain st2 where off: "xen_shm_pipe_offers env PAGE_COUNT d st1 =
      (0, Some (ucast (a_domid (answer env (tick st1))), a_grant (answer env (tick st1))), st2)"
    and st2: "pipe_wf n st2" "in_transit (shm st2) = []" "pmod (priv st2) = xen_shm_pipe_mod_write"
      "pshared (priv st2) = Some (a_addr (answer env (Suc (tick st1))))"
    by (rule offers_connected [OF _ _ _ dev, of PAGE_COUNT d]) (use st1 n in auto)
  have more: "tick st2 = tick st + 3" "pconv (priv st2) = xen_shm_pipe_conv_writer_offers"
    using off st1 dev
    by (auto simp: xen_shm_pipe_offers_def device_connects_def Let_def split_beta xen_shm_pipe_map_shared_memory_def
        set_opened_def set_buffer_size_def)
  let ?st3 = "snd (sys_call env (Sys_await (fd (priv st2)) XEN_SHM_IOCTL_AWAIT_INIT 30000) st2)"
  have wait: "xen_shm_pipe_wait env 30000 st2 = (0, ?st3)"
    using up more st2(3,4) by (simp add: xen_shm_pipe_wait_def Let_def split_beta writer_set_up_def)
  have "observed env st2 ?st3" by (simp add: observed_def same_pipe_def observe_history)
  from writer_passive_observed [OF env pipe_wf_shared [OF st2(1)] this]
  have p: "writer_passive n st2 ?st3" .
  then have "suffix (in_transit (shm ?st3)) (in_transit (shm st2))"
    unfolding writer_passive_def by (blast intro: writer_flow_suffix)
  with that [OF init off wait] p writer_passive_wf [OF p st2(1)] st2(2,3) show ?thesis
    by (simp add: connected_writer_def)
qed

text \<open>The memory that the receiver maps has been set up by the writer, which has not been read yet.\<close>

definition reader_set_up :: "nat \<Rightarrow> pipe_env \<Rightarrow> xen_shm_pipe_priv option \<Rightarrow> pipe_st \<Rightarrow> bool" where
  "reader_set_up n env malloc st \<longleftrightarrow> malloc \<noteq> None \<and> 0 \<le> a_ret (answer env (tick st)) \<and> a_ret (answer env (tick st + 1)) = 0
     \<and> (let st1 = snd (xen_shm_pipe_init env malloc xen_shm_pipe_mod_read xen_shm_pipe_conv_writer_offers st);
            st2 = snd (snd (xen_shm_pipe_getdomid env st1));
            s = interf env (Suc (tick st2)) (interf env (tick st2) (shm st2))
        in device_connects n env st2 \<and> shared_wf n s \<and> \<not> flag_set (reader_flags s) XSHMP_CLOSED)"

lemma reader_set_up_run:
  assumes up: "reader_set_up n env malloc st" and n: "n = 40944"
  obtains st1 dom st2 st3 where
    "xen_shm_pipe_init env malloc xen_shm_pipe_mod_read xen_shm_pipe_conv_writer_offers st = (0, st1)"
    and "xen_shm_pipe_getdomid env st1 = (0, dom, st2)" "xen_shm_pipe_connect env PAGE_COUNT d g st2 = (0, st3)"
    and "connected_reader n st3"
    and "in_transit (shm st3) = in_transit (interf env (Suc (tick st2)) (interf env (tick st2) (shm st2)))"
proof -
  obtain st1 where init: "xen_shm_pipe_init env malloc xen_shm_pipe_mod_read xen_shm_pipe_conv_writer_offers st = (0, st1)"
    and st1: "tick st1 = Suc (tick st)" "pmod (priv st1) = xen_shm_pipe_mod_read"
      "pconv (priv st1) = xen_shm_pipe_conv_writer_offers"
    using up init_run [of malloc env st] by (auto simp: reader_set_up_def)
  obtain dom st2 where dom: "xen_shm_pipe_getdomid env st1 = (0, dom, st2)" and st2: "priv st2 = priv st1"
    using up st1 by (auto simp: xen_shm_pipe_getdomid_def Let_def split_beta reader_set_up_def)
  let ?s = "interf env (Suc (tick st2)) (interf env (tick st2) (shm st2))"
  have dev: "device_connects n env st2" "shared_wf n ?s" "\<not> flag_set (reader_flags ?s) XSHMP_CLOSED"
    using up init dom by (simp_all add: reader_set_up_def Let_def)
  obtain st3 where conn: "xen_shm_pipe_connect env PAGE_COUNT d g st2 = (0, st3)"
    and st3: "pipe_wf n st3" "in_transit (shm st3) = in_transit ?s" "pmod (priv st3) = xen_shm_pipe_mod_read"
    by (rule connect_connected [OF _ _ _ dev(1,2), of PAGE_COUNT d g]) (use st1 st2 n in auto)
  have "shm st3 = ?s\<lparr>reader_flags := set_flag (reader_flags ?s) XSHMP_OPENED\<rparr>"
    using conn st1 st2 dev(1)
    by (auto simp: xen_shm_pipe_connect_def Let_def split_beta xen_shm_pipe_map_shared_memory_def set_opened_def
        xen_shm_pipe_upd_flags_def device_connects_def set_buffer_size_def)
  then have "connected_reader n st3" using st3 dev(3) by (simp add: connected_reader_def)
  with that [OF init dom conn] st3(2) show ?thesis by simp
qed

section \<open>The programs\<close>

text \<open>\<^verbatim>\<open>pipe_writer\<close> ends.  When the pipe can be set up, what the program has sent when it closes the pipe is a prefix of its
  input, and all of it unless the reader has closed or the device has reported an error; the count it prints is the number of
  bytes sent, and the checksum that of those bytes.\<close>

theorem pipe_writer_sends_input:
  assumes "writer_set_up n env malloc st" "n = 40944" "env_reader n env" "eventually_writable n env \<or> eventually_broken env"
    and "length buf = BUFFER_SIZE" "\<forall>b \<in> set input. length b \<le> BUFFER_SIZE"
  shows "\<exists>xs c st1 st2. pipe_writer_main env malloc (Some d) ub buf input st = Some (0, Some c, pipe c)
    \<and> connected_writer n st1 \<and> in_transit (shm st1) = [] \<and> writer_flow xs st1 st2 \<and> pipe c = xen_shm_pipe_free env st2
    \<and> prefix xs (concat input) \<and> (xs = concat input \<or> (\<exists>r. writer_stop env r st2))
    \<and> byte_count c = of_nat (length xs) \<and> checksum c = add_bytes 0 xs"
proof -
  obtain st0 res st1' st1 where
    run: "xen_shm_pipe_init env malloc xen_shm_pipe_mod_write xen_shm_pipe_conv_writer_offers st = (0, st0)"
      "xen_shm_pipe_offers env PAGE_COUNT d st0 = (0, res, st1')" "xen_shm_pipe_wait env 30000 st1' = (0, st1)"
    and st1: "connected_writer n st1" "in_transit (shm st1) = []"
    by (rule writer_set_up_run [OF assms(1-3), of d])
  let ?c = "\<lparr>checksum = 0, byte_count = 0, pipe = st1\<rparr>"
  have "writer_ready n env (pipe ?c)" using st1(1) assms(3,4) by (simp add: writer_ready_def)
  from send_input_run [OF this, of input buf ub] obtain xs c where
    c: "send_input env ub buf input ?c = Some c" "sending n env xs ?c c" "prefix xs (concat input)"
      "xs = concat input \<or> (\<exists>r. writer_stop env r (pipe c))"
    using assms(5,6) by auto
  have "pipe_writer_main env malloc (Some d) ub buf input st
      = Some (0, Some (clean_program env c), pipe (clean_program env c))"
    using run c(1) by (simp add: pipe_writer_main_def Let_def)
  moreover have "pipe (clean_program env c) = xen_shm_pipe_free env (pipe c)"
    "byte_count (clean_program env c) = of_nat (length xs)" "checksum (clean_program env c) = add_bytes 0 xs"
    "writer_flow xs st1 (pipe c)"
    using c(2) by (simp_all add: clean_program_def sending_def accounts_def)
  ultimately show ?thesis using st1 c(3,4) by blast
qed

text \<open>Ten pages, an environment in which the first four calls of the device succeed and the rest report a broken
  pipe, and a process that has called nothing yet.\<close>

definition ten_pages :: xen_shm_pipe_shared where
  "ten_pages = \<lparr>writer_flags = 1, reader_flags = 0, sh_write = 0, sh_read = 0, buffer = replicate 40944 0\<rparr>"

definition four_answers :: "nat \<Rightarrow> sys_answer" where
  "four_answers t = (if t < 4 then \<lparr>a_ret = 0, a_errno = 0, a_addr = 4096, a_domid = 1, a_grant = 7, a_remaining = 1\<rparr>
     else epipe_answer t)"

definition small_block :: xen_shm_pipe_priv where
  "small_block = priv (small_end xen_shm_pipe_mod_read ten_pages)"

lemma four_answers_facts:
  "env_reader n (quiet_env four_answers)" "env_writer n (quiet_env four_answers)" "eventually_broken (quiet_env four_answers)"
  "writer_set_up 40944 (quiet_env four_answers) (Some p) (small_end md ten_pages)"
  "reader_set_up 40944 (quiet_env four_answers) (Some p) (small_end md ten_pages)"
proof -
  show "eventually_broken (quiet_env four_answers)"
    by (auto simp: eventually_broken_def epipe_at_def four_answers_def epipe_answer_def intro: exI [of _ 4])
qed (simp_all add: writer_set_up_def reader_set_up_def Let_def split_beta xen_shm_pipe_init_def xen_shm_pipe_getdomid_def
    device_connects_def four_answers_def ten_pages_def shared_wf_def flag_set_def)

theorem pipe_writer_sends_input_witness:
  "\<exists>xs c st1 st2. pipe_writer_main (quiet_env four_answers) (Some small_block) (Some 2) 0 (replicate 5000 0) [[1, 2], [3]]
        (small_end xen_shm_pipe_mod_write ten_pages) = Some (0, Some c, pipe c)
    \<and> connected_writer 40944 st1 \<and> in_transit (shm st1) = [] \<and> writer_flow xs st1 st2
    \<and> pipe c = xen_shm_pipe_free (quiet_env four_answers) st2 \<and> prefix xs [1, 2, 3]
    \<and> (xs = [1, 2, 3] \<or> (\<exists>r. writer_stop (quiet_env four_answers) r st2))
    \<and> byte_count c = of_nat (length xs) \<and> checksum c = add_bytes 0 xs"
  using pipe_writer_sends_input [OF four_answers_facts(4) refl four_answers_facts(1), of "replicate 5000 0" "[[1, 2], [3]]"]
    four_answers_facts(3) by simp

text \<open>\<^verbatim>\<open>pipe_reader\<close> ends.  When the pipe can be set up, the program receives, in order, as many bytes as the user asks for, or the
  bytes before the end of the stream or an error; the count it prints is the number of bytes received, and the checksum
  that of those bytes.  It closes the pipe at the end of the stream and after an error, but not at the end of its own input.\<close>

theorem pipe_reader_receives:
  assumes "reader_set_up n env malloc st" "n = 40944" "env_writer n env" "eventually_readable n env \<or> eventually_broken env"
    and "length buf = BUFFER_SIZE"
  shows "\<exists>r xs c st1 st2. pipe_reader_main env malloc (Some d) (Some g) ub buf asked st = Some (r, Some c, pipe c)
    \<and> connected_reader n st1 \<and> reader_flow xs st1 st2
    \<and> (r = -1 \<and> pipe c = st2 \<and> length xs = sum_list (map unat asked)
       \<or> r = 0 \<and> pipe c = xen_shm_pipe_free env st2 \<and> length xs \<le> sum_list (map unat asked) \<and> (\<exists>k. reader_stop env k st2))
    \<and> byte_count c = of_nat (length xs) \<and> checksum c = add_bytes 0 xs"
proof -
  obtain st0 dom st1' st1 where
    run: "xen_shm_pipe_init env malloc xen_shm_pipe_mod_read xen_shm_pipe_conv_writer_offers st = (0, st0)"
      "xen_shm_pipe_getdomid env st0 = (0, dom, st1')" "xen_shm_pipe_connect env PAGE_COUNT d g st1' = (0, st1)"
    and st1: "connected_reader n st1"
    by (rule reader_set_up_run [OF assms(1,2), of d g])
  let ?c = "\<lparr>checksum = 0, byte_count = 0, pipe = st1\<rparr>"
  have "reader_ready n env (pipe ?c)" using st1 assms(3,4) by (simp add: reader_ready_def)
  from recv_asked_run [OF this assms(5), of ub asked] obtain r xs c1 c where
    c: "recv_asked env ub buf asked ?c = Some (r, c)" "receiving n env xs ?c c1" "length xs \<le> sum_list (map unat asked)"
      "r = -1 \<and> c = c1 \<and> length xs = sum_list (map unat asked)
       \<or> r = 0 \<and> c = clean_program env c1 \<and> (\<exists>k. reader_stop env k (pipe c1))" by blast
  have main: "pipe_reader_main env malloc (Some d) (Some g) ub buf asked st = Some (r, Some c, pipe c)"
    using run c(1) by (simp add: pipe_reader_main_def)
  have "reader_flow xs st1 (pipe c1)" "byte_count c = of_nat (length xs)" "checksum c = add_bytes 0 xs"
    "r = 0 \<Longrightarrow> pipe c = xen_shm_pipe_free env (pipe c1)"
    using c(2,4) by (auto simp: clean_program_def receiving_def accounts_def)
  with main st1 c(3,4) show ?thesis
    by (intro exI [of _ r] exI [of _ xs] exI [of _ c] exI [of _ st1] exI [of _ "pipe c1"]) auto
qed

theorem pipe_reader_receives_witness:
  "\<exists>r xs c st1 st2. pipe_reader_main (quiet_env four_answers) (Some small_block) (Some 1) (Some 7) 0 (replicate 5000 0) [2, 3]
        (small_end xen_shm_pipe_mod_read ten_pages) = Some (r, Some c, pipe c)
    \<and> connected_reader 40944 st1 \<and> reader_flow xs st1 st2
    \<and> (r = -1 \<and> pipe c = st2 \<and> length xs = 5
       \<or> r = 0 \<and> pipe c = xen_shm_pipe_free (quiet_env four_answers) st2 \<and> length xs \<le> 5
         \<and> (\<exists>k. reader_stop (quiet_env four_answers) k st2))
    \<and> byte_count c = of_nat (length xs) \<and> checksum c = add_bytes 0 xs"
  using pipe_reader_receives [where d = 1 and g = 7 and ub = 0 and asked = "[2, 3]" and buf = "replicate 5000 0",
      OF four_answers_facts(5) [where p = small_block and md = xen_shm_pipe_mod_read] refl four_answers_facts(2)]
    four_answers_facts(3) by simp

section \<open>Both programs\<close>

text \<open>
  The programs over one pipe, in any interleaving of the rounds of their loops: a round of the sender at any offset of any
  block, a round of the receiver in any request, and the end of each of them.  The counters of each program are beside
  the pipe; its state of the pipe is that of its side.
\<close>

record programs =
  base :: pipe_pair
  w_count :: counters
  r_count :: counters

definition sender_at :: "programs \<Rightarrow> nat \<Rightarrow> send_loc" where
  "sender_at P off = \<lparr>sl_offset = off, sl_failed = False, sl_count = (w_count P)\<lparr>pipe := writer_st (base P)\<rparr>\<rparr>"

definition receiver_at :: "programs \<Rightarrow> u32 \<Rightarrow> memory \<Rightarrow> recv_loc" where
  "receiver_at P to_read buf =
    \<lparr>rl_to_read = to_read, rl_failed = False, rl_buf = buf, rl_count = (r_count P)\<lparr>pipe := reader_st (base P)\<rparr>\<rparr>"

definition sender_moved :: "programs \<Rightarrow> counters \<Rightarrow> byte list \<Rightarrow> programs" where
  "sender_moved P c xs = P\<lparr>base := (base P)\<lparr>area := shm (pipe c), wr_side := pipe c, sent := sent (base P) @ xs\<rparr>, w_count := c\<rparr>"

definition receiver_moved :: "programs \<Rightarrow> counters \<Rightarrow> byte list \<Rightarrow> programs" where
  "receiver_moved P c xs =
    P\<lparr>base := (base P)\<lparr>area := shm (pipe c), rd_side := pipe c, received := received (base P) @ xs\<rparr>, r_count := c\<rparr>"

inductive prog_step :: "programs \<Rightarrow> programs \<Rightarrow> bool" where
  prog_send: "wr_live (base P) \<Longrightarrow> m \<le> length buf \<Longrightarrow> off < m \<Longrightarrow>
    send_iter (quiet_env ans) ub buf m (sender_at P off) = Some l \<Longrightarrow>
    prog_step P (sender_moved P (sl_count l) (take (sl_offset l - off) (drop off buf)))"
| prog_recv: "rd_live (base P) \<Longrightarrow> length buf = BUFFER_SIZE \<Longrightarrow> to_read \<noteq> 0 \<Longrightarrow>
    recv_iter (quiet_env ans) ub (receiver_at P to_read buf) = Some l \<Longrightarrow>
    prog_step P (receiver_moved P (rl_count l) (take (unat to_read - unat (rl_to_read l)) (rl_buf l)))"
| prog_send_end: "wr_live (base P) \<Longrightarrow> c = clean_program (quiet_env ans) ((w_count P)\<lparr>pipe := writer_st (base P)\<rparr>) \<Longrightarrow>
    P' = sender_moved P c [] \<Longrightarrow> prog_step P (P'\<lparr>base := (base P')\<lparr>wr_live := False\<rparr>\<rparr>)"
| prog_recv_end: "rd_live (base P) \<Longrightarrow> c = clean_program (quiet_env ans) ((r_count P)\<lparr>pipe := reader_st (base P)\<rparr>) \<Longrightarrow>
    P' = receiver_moved P c [] \<Longrightarrow> prog_step P (P'\<lparr>base := (base P')\<lparr>rd_live := False\<rparr>\<rparr>)"

inductive_cases prog_stepE: "prog_step P P'"

definition prog_inv :: "nat \<Rightarrow> programs \<Rightarrow> bool" where
  "prog_inv n P \<longleftrightarrow> pair_inv n (base P)
     \<and> checksum (w_count P) = add_bytes 0 (sent (base P)) \<and> byte_count (w_count P) = of_nat (length (sent (base P)))
     \<and> checksum (r_count P) = add_bytes 0 (received (base P)) \<and> byte_count (r_count P) = of_nat (length (received (base P)))"

text \<open>A round of a program is a call on the pipe, and its counters account for the bytes.\<close>

lemma send_round:
  assumes inv: "pair_inv n (base P)" and live: "wr_live (base P)" and off: "m \<le> length buf" "off < m"
    and it: "send_iter (quiet_env ans) ub buf m (sender_at P off) = Some l"
  defines "xs \<equiv> take (sl_offset l - off) (drop off buf)"
  shows "pair_step (base P) (base (sender_moved P (sl_count l) xs))" "accounts xs (w_count P) (sl_count l)"
proof -
  let ?buf = "drop off buf"
  obtain r st where call: "xen_shm_pipe_write (quiet_env ans) (ub + off) ?buf (m - off) (writer_st (base P)) = Some (r, st)"
    using it by (auto simp: send_iter_def sender_at_def bind_eq_Some_conv Let_def)
  have nb: "m - off \<le> length ?buf" using off by simp
  have conn: "connected_writer n (writer_st (base P))" using inv live by (simp add: pair_inv_def)
  have r: "r \<le> int (m - off)" using pipe_write_partial [OF _ conn nb call] by (simp add: write_post_def)
  have l: "pipe (sl_count l) = st" "xs = take (nat r) ?buf"
    using it call by (auto simp: send_iter_def sender_at_def Let_def xs_def split: if_splits)
  show "pair_step (base P) (base (sender_moved P (sl_count l) xs))"
    using pair_write [OF live nb call] by (simp add: sender_moved_def l)
  have "length xs = nat r" using r off by (simp add: l(2))
  then show "accounts xs (w_count P) (sl_count l)"
    using it call l(2) by (auto simp: send_iter_def sender_at_def Let_def accounts_def split: if_splits)
qed

lemma recv_round:
  assumes inv: "pair_inv n (base P)" and live: "rd_live (base P)" and buf: "length buf = BUFFER_SIZE" and m: "m \<noteq> 0"
    and it: "recv_iter (quiet_env ans) ub (receiver_at P m buf) = Some l"
  defines "xs \<equiv> take (unat m - unat (rl_to_read l)) (rl_buf l)"
  shows "pair_step (base P) (base (receiver_moved P (rl_count l) xs))" "accounts xs (r_count P) (rl_count l)"
proof -
  let ?nb = "read_size m"
  obtain r b st where call: "xen_shm_pipe_read (quiet_env ans) ub buf ?nb (reader_st (base P)) = Some (r, b, st)"
    using it by (auto simp: recv_iter_def receiver_at_def bind_eq_Some_conv Let_def)
  have nb: "?nb \<le> length buf" "?nb \<le> unat m" using buf read_size_bounds(1,2) [of m] by auto
  have conn: "connected_reader n (reader_st (base P))" using inv live by (simp add: pair_inv_def)
  have r: "r \<le> int ?nb" "length b = length buf"
    using pipe_read_partial [OF _ conn nb(1) call] by (simp_all add: read_post_def)
  have to: "unat (m - of_int r) = unat m - nat r" "nat r \<le> unat m" if "0 < r"
    using that r(1) nb(2) unat_minus_count [OF that, of m] by (simp_all)
  have l: "pipe (rl_count l) = st" "rl_buf l = b" "rl_to_read l = (if r \<le> 0 then m else m - of_int r)"
    using it call by (auto simp: recv_iter_def receiver_at_def Let_def split: if_splits)
  then have xs: "xs = take (nat r) b" using to by (simp add: xs_def)
  show "pair_step (base P) (base (receiver_moved P (rl_count l) xs))"
    using pair_read [OF live nb(1) call] by (simp add: receiver_moved_def l xs)
  have "length xs = nat r" using r nb by (simp add: xs)
  then show "accounts xs (r_count P) (rl_count l)"
    using it call xs by (auto simp: recv_iter_def receiver_at_def Let_def accounts_def split: if_splits)
qed

lemma prog_inv_step:
  assumes inv: "prog_inv n P" and step: "prog_step P P'"
  shows "prog_inv n P'"
proof -
  have pair: "pair_inv n (base P)" using inv by (simp add: prog_inv_def)
  have moved: "prog_inv n (sender_moved P c xs)"
    if "pair_step (base P) (base (sender_moved P c xs))" "accounts xs (w_count P) c" for c xs
    using inv that pair_inv_step [OF pair that(1)]
    by (simp add: prog_inv_def sender_moved_def accounts_def add_bytes_append)
  have moved': "prog_inv n (receiver_moved P c xs)"
    if "pair_step (base P) (base (receiver_moved P c xs))" "accounts xs (r_count P) c" for c xs
    using inv that pair_inv_step [OF pair that(1)]
    by (simp add: prog_inv_def receiver_moved_def accounts_def add_bytes_append)
  from step show ?thesis
  proof cases
    case (prog_send m buf off ans ub l)
    with moved send_round [OF pair] show ?thesis by blast
  next
    case (prog_recv buf to_read ans ub l)
    with moved' recv_round [OF pair] show ?thesis by blast
  next
    case (prog_send_end c ans P1)
    then have "pair_step (base P) (base P')"
      using pair_free_writer [of "base P" _ ans, OF _ refl] by (simp add: sender_moved_def clean_program_def)
    with pair_inv_step [OF pair this] inv prog_send_end show ?thesis
      by (simp add: prog_inv_def sender_moved_def clean_program_def)
  next
    case (prog_recv_end c ans P1)
    then have "pair_step (base P) (base P')"
      using pair_free_reader [of "base P" _ ans, OF _ refl] by (simp add: receiver_moved_def clean_program_def)
    with pair_inv_step [OF pair this] inv prog_recv_end show ?thesis
      by (simp add: prog_inv_def receiver_moved_def clean_program_def)
  qed
qed

lemma prog_inv_reachable: "prog_step\<^sup>*\<^sup>* P P' \<Longrightarrow> prog_inv n P \<Longrightarrow> prog_inv n P'"
  by (induction rule: rtranclp_induct) (auto intro: prog_inv_step)

text \<open>C13.  What the user of the two programs checks.  In every interleaving of \<^verbatim>\<open>pipe_writer\<close> and \<^verbatim>\<open>pipe_reader\<close> over one pipe the
  checksum of the reader is the one of the first bytes that the writer has sent, as many as the reader has received; so when both have
  counted the same number of bytes (less than \<open>2 ^ 64\<close>) they print the same checksum.\<close>

theorem checksums_agree:
  assumes "prog_inv n P" "prog_step\<^sup>*\<^sup>* P P'" "length (sent (base P')) < 2 ^ 64"
  shows "checksum (r_count P') = add_bytes 0 (take (unat (byte_count (r_count P'))) (sent (base P')))
    \<and> (byte_count (r_count P') = byte_count (w_count P') \<longrightarrow> checksum (r_count P') = checksum (w_count P'))"
proof -
  have inv: "prog_inv n P'" by (rule prog_inv_reachable [OF assms(2,1)])
  then have fifo: "sent (base P') = received (base P') @ in_transit (area (base P'))"
    by (simp add: prog_inv_def pair_inv_def)
  then have "length (received (base P')) < 2 ^ 64" using assms(3) by simp
  then have cnt: "unat (byte_count (r_count P')) = length (received (base P'))"
    "unat (byte_count (w_count P')) = length (sent (base P'))"
    using inv assms(3) by (simp_all add: prog_inv_def unat_of_nat_eq)
  then have "take (unat (byte_count (r_count P'))) (sent (base P')) = received (base P')" by (simp add: fifo)
  moreover have "received (base P') = sent (base P')" if "byte_count (r_count P') = byte_count (w_count P')"
    using cnt that fifo by simp
  ultimately show ?thesis using inv by (auto simp: prog_inv_def)
qed

text \<open>The writer has sent three bytes, and the reader reads them.\<close>

definition small_programs :: programs where
  "small_programs = \<lparr>base = small_pair, w_count = \<lparr>checksum = add_bytes 0 [10, 11, 12], byte_count = 3, pipe = wr_side small_pair\<rparr>,
     r_count = \<lparr>checksum = 0, byte_count = 0, pipe = rd_side small_pair\<rparr>\<rparr>"

lemma small_programs_step:
  "\<exists>P'. prog_step small_programs P' \<and> base P' = (base P')\<lparr>sent := [10, 11, 12]\<rparr> \<and> byte_count (r_count P') = 3
    \<and> w_count P' = w_count small_programs"
proof -
  let ?r = "small_end xen_shm_pipe_mod_read small_area" and ?buf = "replicate BUFFER_SIZE 0"
  have conn: "connected_reader 8 ?r" by (simp add: small_end_connected)
  obtain b st where rd: "xen_shm_pipe_read (quiet_env epipe_answer) 0 ?buf 3 ?r = Some (int 3, b, st)"
    using quiet_read_available [OF conn, of 3 ?buf epipe_answer 0] by (auto simp: small_area_in_transit)
  let ?l = "\<lparr>rl_to_read = 0, rl_failed = False, rl_buf = b,
    rl_count = \<lparr>checksum = add_bytes 0 (take 3 b), byte_count = 3, pipe = st\<rparr>\<rparr>"
  have "recv_iter (quiet_env epipe_answer) 0 (receiver_at small_programs 3 ?buf) = Some ?l"
    using rd by (simp add: recv_iter_def receiver_at_def small_programs_def small_pair_def read_size_def)
  from prog_recv [OF _ _ _ this] show ?thesis
    by (intro exI [of _ "receiver_moved small_programs (rl_count ?l) (take (unat (3 :: u32) - unat (rl_to_read ?l)) (rl_buf ?l))"])
      (simp add: receiver_moved_def small_programs_def small_pair_def)
qed

theorem checksums_agree_witness:
  "\<exists>P'. prog_step\<^sup>*\<^sup>* small_programs P' \<and> byte_count (r_count P') = 3 \<and> checksum (r_count P') = add_bytes 0 [10, 11, 12]"
proof -
  obtain P' where P': "prog_step small_programs P'" "base P' = (base P')\<lparr>sent := [10, 11, 12]\<rparr>"
      "byte_count (r_count P') = 3" "w_count P' = w_count small_programs"
    using small_programs_step by blast
  have inv: "prog_inv 8 small_programs"
    using small_pair_inv by (simp add: prog_inv_def small_programs_def) (simp add: small_pair_def)
  have "sent (base P') = [10, 11, 12]" using arg_cong [OF P'(2), of sent] by simp
  moreover have reach: "prog_step\<^sup>*\<^sup>* small_programs P'" using P'(1) by (rule r_into_rtranclp)
  ultimately show ?thesis
    using checksums_agree [OF inv reach] P'(3,4) by (intro exI [of _ P']) (simp add: small_programs_def)
qed

end
