(* ===== verification/Shm_Module.thy ===== *)
theory Shm_Module
  imports Shm_File
begin

text \<open>
  Loading and unloading the module: finding the local domain, registering the device and taking it
  away.
\<close>

section \<open>Definitions\<close>

abbreviation (input) EVTCHNSTAT_unbound :: int where "EVTCHNSTAT_unbound \<equiv> 1"
abbreviation (input) XEN_SHM_MINOR_NUMBER :: nat where "XEN_SHM_MINOR_NUMBER \<equiv> 0"

text \<open>Two states and a number of pages in 4 bytes with the padding, the port, the mutex, and 128 references.\<close>

abbreviation (input) sizeof_meta_page_data :: nat where "sizeof_meta_page_data \<equiv> 4 + 4 + 4 + 128 * 4"

definition MKDEV :: "nat \<Rightarrow> nat \<Rightarrow> nat" where "MKDEV ma mi = ma * 2 ^ 20 + mi"
definition MAJOR :: "nat \<Rightarrow> nat" where "MAJOR dev = dev div 2 ^ 20"

text \<open>In the answer to \<^verbatim>\<open>EVTCHNOP_status\<close> the status is the field \<open>k_status\<close> and the domain of an unbound channel
  is \<open>k_val\<close>.\<close>

definition xen_shm_get_domid_hack :: "kenv \<Rightarrow> shm_mod \<Rightarrow> int \<times> shm_mod" where
  "xen_shm_get_domid_hack env M =
    (let (a, M) = mdo env (K_evtchn_alloc_unbound DOMID_SELF DOMID_SELF) M
     in if k_ret a \<noteq> 0 then (- EIO, M)
     else
       let port = of_nat (k_val a);
           (b, M) = mdo env (K_evtchn_status DOMID_SELF port) M;
           (c, M) = mdo env (K_evtchn_close port) M
       in if k_ret b \<noteq> 0 then (- EIO, M)
          else if k_status b \<noteq> EVTCHNSTAT_unbound then (- EAGAIN, M)
          else (uint (of_nat (k_val b) :: u16), M))"

definition find_domid :: "kenv \<Rightarrow> shm_mod \<Rightarrow> int \<times> shm_mod" where
  "find_domid env M =
    (if xen_shm_domid M = 0
     then
       let (res, M) = xen_shm_get_domid_hack env M
       in if res < 0 then (res, M)
          else if res > 65535 then (res, M)
          else (0, M\<lparr>xen_shm_domid := of_int res\<rparr>)
     else (0, M))"

text \<open>Only a successful \<^verbatim>\<open>alloc_chrdev_region\<close> writes the device number.\<close>

definition register_device :: "kenv \<Rightarrow> shm_mod \<Rightarrow> int \<times> shm_mod" where
  "register_device env M =
    (if xen_shm_major_number M \<noteq> 0
     then
       let M = M\<lparr>xen_shm_device := MKDEV (xen_shm_major_number M) XEN_SHM_MINOR_NUMBER\<rparr>;
           (a, M) = mdo env (K_register_chrdev_region (xen_shm_device M)) M
       in (k_ret a, M)
     else
       let (a, M) = mdo env K_alloc_chrdev_region M;
           M = (if k_ret a < 0 then M else M\<lparr>xen_shm_device := k_val a\<rparr>)
       in (k_ret a, M\<lparr>xen_shm_major_number := MAJOR (xen_shm_device M)\<rparr>))"

definition xen_shm_init :: "kenv \<Rightarrow> shm_mod \<Rightarrow> int \<times> shm_mod" where
  "xen_shm_init env M =
    (if sizeof_meta_page_data > PAGE_SIZE then (- EFBIG, M)
     else
       let (res, M) = find_domid env M
       in if res \<noteq> 0 then (res, M)
       else
         let (res, M) = register_device env M
         in if res < 0 then (res, M)
         else
           let (a, M) = mdo env (K_cdev_add (xen_shm_device M)) M
           in if k_ret a < 0
              then (k_ret a, snd (mdo env (K_unregister_chrdev_region (xen_shm_device M)) M))
              else (0, M))"

definition xen_shm_cleanup :: "kenv \<Rightarrow> shm_mod \<Rightarrow> shm_mod option" where
  "xen_shm_cleanup env M =
    do {
      M \<leftarrow> xen_shm_free_delayed_queue env M;
      let M = snd (mdo env K_cdev_del M);
      Some (snd (mdo env (K_unregister_chrdev_region (xen_shm_device M)) M))
    }"

section \<open>Facts\<close>

text \<open>The calls that find the domain: the channel that was opened is closed.\<close>

definition probe_calls :: "kcall list \<Rightarrow> bool" where
  "probe_calls h \<longleftrightarrow> h = [K_evtchn_alloc_unbound DOMID_SELF DOMID_SELF]
     \<or> (\<exists>port. h = [K_evtchn_alloc_unbound DOMID_SELF DOMID_SELF, K_evtchn_status DOMID_SELF port, K_evtchn_close port])"

definition same_files :: "shm_mod \<Rightarrow> shm_mod \<Rightarrow> bool" where
  "same_files M M' \<longleftrightarrow> instances M' = instances M \<and> headers M' = headers M
     \<and> xen_shm_delayed_free_queue M' = xen_shm_delayed_free_queue M"

lemma find_domid_run:
  assumes "find_domid env M = (r, M')"
  shows "\<exists>h. mtrace M' = mtrace M @ h \<and> same_files M M' \<and> r \<le> 0
    \<and> (if xen_shm_domid M \<noteq> 0 then r = 0 \<and> h = [] \<and> xen_shm_domid M' = xen_shm_domid M else probe_calls h)
    \<and> (r = 0 \<and> xen_shm_domid M = 0 \<longrightarrow> (\<exists>port. h = [K_evtchn_alloc_unbound DOMID_SELF DOMID_SELF,
          K_evtchn_status DOMID_SELF port, K_evtchn_close port]
        \<and> xen_shm_domid M' = of_nat (k_val (kanswer env (mtrace M @ [K_evtchn_alloc_unbound DOMID_SELF DOMID_SELF])
            (K_evtchn_status DOMID_SELF port)))))"
proof (cases "xen_shm_domid M = 0")
  case False
  then show ?thesis using assms by (simp add: find_domid_def same_files_def)
next
  case True
  obtain res N where hk: "xen_shm_get_domid_hack env M = (res, N)" by fastforce
  have lt: "uint (w :: u16) \<le> 65535" for w
  proof -
    have "uint w < 2 ^ LENGTH(16)" by (rule unsigned_less)
    then show ?thesis by simp
  qed
  from hk have res: "res \<le> 65535" using lt by (auto simp: xen_shm_get_domid_hack_def Let_def split_beta split: if_splits)
  have out: "(r, M') = (if res < 0 then (res, N) else (0, N\<lparr>xen_shm_domid := of_int res\<rparr>))"
    using assms True hk res by (auto simp: find_domid_def)
  show ?thesis
    using hk out True
    by (auto simp: xen_shm_get_domid_hack_def Let_def mdo_def same_files_def probe_calls_def split: if_splits)
qed

text \<open>The call that registers the device number.\<close>

definition register_call :: "shm_mod \<Rightarrow> kcall" where
  "register_call M = (if xen_shm_major_number M \<noteq> 0
     then K_register_chrdev_region (MKDEV (xen_shm_major_number M) XEN_SHM_MINOR_NUMBER) else K_alloc_chrdev_region)"

lemma register_device_run:
  assumes "register_device env M = (r, M')"
  shows "mtrace M' = mtrace M @ [register_call M]" "r = k_ret (kanswer env (mtrace M) (register_call M))"
    "same_files M M'" "xen_shm_domid M' = xen_shm_domid M"
    "0 \<le> r \<Longrightarrow> xen_shm_device M' = (if xen_shm_major_number M \<noteq> 0
      then MKDEV (xen_shm_major_number M) XEN_SHM_MINOR_NUMBER else k_val (kanswer env (mtrace M) K_alloc_chrdev_region))"
  using assms by (auto simp: register_device_def register_call_def Let_def mdo_def same_files_def split: if_splits)

section \<open>Properties\<close>

text \<open>The end of the initialisation, once the domain is known.\<close>

lemma init_registers:
  assumes f: "find_domid env M = (0, M1)"
  shows "\<exists>r M' reg. xen_shm_init env M = (r, M') \<and> same_files M1 M' \<and> r \<le> 0 \<and> mtrace M' = mtrace M1 @ reg
    \<and> xen_shm_domid M' = xen_shm_domid M1 \<and> (r = 0 \<longleftrightarrow> (\<exists>R. reg = [R, K_cdev_add (xen_shm_device M')]))
    \<and> (r < 0 \<longrightarrow> reg = [K_alloc_chrdev_region] \<or> (\<exists>d. reg = [K_register_chrdev_region d])
        \<or> (\<exists>R. reg = [R, K_cdev_add (xen_shm_device M'), K_unregister_chrdev_region (xen_shm_device M')]))"
proof -
  obtain r2 M2 where g: "register_device env M1 = (r2, M2)" by fastforce
  note reg = register_device_run [OF g]
  have rc: "register_call M1 = K_alloc_chrdev_region \<or> (\<exists>d. register_call M1 = K_register_chrdev_region d)"
    by (simp add: register_call_def)
  let ?add = "K_cdev_add (xen_shm_device M2)" and ?undo = "K_unregister_chrdev_region (xen_shm_device M2)"
  let ?r3 = "k_ret (kanswer env (mtrace M2) ?add)"
  consider (number) "r2 < 0" | (add) "\<not> r2 < 0" "?r3 < 0" | (ok) "\<not> r2 < 0" "\<not> ?r3 < 0" by blast
  then show ?thesis
  proof cases
    case number
    then have "xen_shm_init env M = (r2, M2)" by (simp add: xen_shm_init_def f g)
    then show ?thesis using number reg rc by (intro exI [of _ r2] exI [of _ M2] exI [of _ "[register_call M1]"]) auto
  next
    case add
    then have "xen_shm_init env M = (?r3, M2\<lparr>mtrace := mtrace M2 @ [?add, ?undo]\<rparr>)"
      by (simp add: xen_shm_init_def f g mdo_def Let_def)
    then show ?thesis using add reg
      by (intro exI [of _ ?r3] exI [of _ "M2\<lparr>mtrace := mtrace M2 @ [?add, ?undo]\<rparr>"]
          exI [of _ "[register_call M1, ?add, ?undo]"]) (auto simp: same_files_def)
  next
    case ok
    then have "xen_shm_init env M = (0, M2\<lparr>mtrace := mtrace M2 @ [?add]\<rparr>)"
      by (simp add: xen_shm_init_def f g mdo_def Let_def)
    then show ?thesis using reg
      by (intro exI [of _ 0] exI [of _ "M2\<lparr>mtrace := mtrace M2 @ [?add]\<rparr>"] exI [of _ "[register_call M1, ?add]"])
        (auto simp: same_files_def)
  qed
qed

text \<open>Loading the module.  When 0 is returned the device number is registered and the device added, in this
  order, and the local domain is the one given as a parameter or, if none was, the domain the hypervisor reports for a channel of
  this domain.  When an error is returned nothing stays behind: the channel opened to find the domain is closed, and a
  registered device number is given back if the device cannot be added.  A number that could not be registered
  is not given back.  Loading touches no instance.\<close>

theorem module_init_outcome:
  "case xen_shm_init env M of (r, M') \<Rightarrow> same_files M M' \<and> r \<le> 0 \<and>
    (\<exists>probe reg. mtrace M' = mtrace M @ probe @ reg
      \<and> (if xen_shm_domid M \<noteq> 0 then probe = [] else probe_calls probe)
      \<and> (r = 0 \<longleftrightarrow> (\<exists>R. reg = [R, K_cdev_add (xen_shm_device M')]))
      \<and> (r < 0 \<longrightarrow> reg = [] \<or> reg = [K_alloc_chrdev_region] \<or> (\<exists>d. reg = [K_register_chrdev_region d])
          \<or> (\<exists>R. reg = [R, K_cdev_add (xen_shm_device M'), K_unregister_chrdev_region (xen_shm_device M')]))
      \<and> (r = 0 \<longrightarrow> (if xen_shm_domid M \<noteq> 0 then xen_shm_domid M' = xen_shm_domid M
          else \<exists>port. probe = [K_evtchn_alloc_unbound DOMID_SELF DOMID_SELF, K_evtchn_status DOMID_SELF port, K_evtchn_close port]
            \<and> xen_shm_domid M' = of_nat (k_val (kanswer env (mtrace M @ [K_evtchn_alloc_unbound DOMID_SELF DOMID_SELF])
                (K_evtchn_status DOMID_SELF port))))))"
proof -
  obtain r1 M1 where f: "find_domid env M = (r1, M1)" by fastforce
  obtain h where h: "mtrace M1 = mtrace M @ h" "same_files M M1" "r1 \<le> 0"
    "if xen_shm_domid M \<noteq> 0 then r1 = 0 \<and> h = [] \<and> xen_shm_domid M1 = xen_shm_domid M else probe_calls h"
    "r1 = 0 \<and> xen_shm_domid M = 0 \<longrightarrow> (\<exists>port. h = [K_evtchn_alloc_unbound DOMID_SELF DOMID_SELF,
          K_evtchn_status DOMID_SELF port, K_evtchn_close port]
        \<and> xen_shm_domid M1 = of_nat (k_val (kanswer env (mtrace M @ [K_evtchn_alloc_unbound DOMID_SELF DOMID_SELF])
            (K_evtchn_status DOMID_SELF port))))"
    using find_domid_run [OF f] by blast
  have probe: "if xen_shm_domid M \<noteq> 0 then h = [] else probe_calls h" using h(4) by (simp split: if_splits)
  show ?thesis
  proof (cases "r1 = 0")
    case False
    then have "xen_shm_init env M = (r1, M1)" by (simp add: xen_shm_init_def f)
    then show ?thesis using False h(1-3) probe by (simp, intro exI [of _ h] exI [of _ "[]"]) simp
  next
    case True
    with init_registers [of env M M1] f obtain r M' reg where init: "xen_shm_init env M = (r, M')" "same_files M1 M'" "r \<le> 0"
      "mtrace M' = mtrace M1 @ reg" "xen_shm_domid M' = xen_shm_domid M1"
      "r = 0 \<longleftrightarrow> (\<exists>R. reg = [R, K_cdev_add (xen_shm_device M')])"
      "r < 0 \<longrightarrow> reg = [K_alloc_chrdev_region] \<or> (\<exists>d. reg = [K_register_chrdev_region d])
        \<or> (\<exists>R. reg = [R, K_cdev_add (xen_shm_device M'), K_unregister_chrdev_region (xen_shm_device M')])"
      by auto
    have "same_files M M'" using h(2) init(2) by (simp add: same_files_def)
    then show ?thesis using init h(1,4,5) probe True by (simp, intro exI [of _ h] exI [of _ reg]) (simp split: if_splits)
  qed
qed

theorem module_init_outcome_witness:
  "case xen_shm_init small_kenv (small_mod None) of (r, M') \<Rightarrow> same_files (small_mod None) M' \<and> r \<le> 0"
  using module_init_outcome [where env = small_kenv and M = "small_mod None"] by auto

text \<open>Unloading the module ends: the end of each instance left in the queue is attempted once more, those that
  succeed are freed, then the device is removed and after that its number is given back, the one it was registered
  with.\<close>

theorem module_cleanup_outcome:
  assumes "dq_list M xs" and "\<And>p. p \<in> set xs \<Longrightarrow> \<exists>st. load_inst p M = Some st \<and> freeable st"
  shows "\<exists>M' M1 zs. xen_shm_cleanup env M = Some M' \<and> xen_shm_free_delayed_queue env M = Some M1 \<and> same_files M1 M'
    \<and> subseq zs xs \<and> dq_list M' zs \<and> (\<forall>p \<in> set xs - set zs. instances M' p = None)
    \<and> mtrace M' = mtrace M1 @ [K_cdev_del, K_unregister_chrdev_region (xen_shm_device M)]"
proof -
  obtain M1 zs where "xen_shm_free_delayed_queue env M = Some M1" "dq_list M1 zs" "subseq zs xs"
      "\<forall>p \<in> set xs - set zs. instances M1 p = None" "xen_shm_device M1 = xen_shm_device M"
    using delayed_queue_run [OF assms, of env] by blast
  then show ?thesis
    by (intro exI [of _ "M1\<lparr>mtrace := mtrace M1 @ [K_cdev_del, K_unregister_chrdev_region (xen_shm_device M)]\<rparr>"]
        exI [of _ M1] exI [of _ zs]) (simp add: xen_shm_cleanup_def mdo_def same_files_def dq_list_def)
qed

theorem module_cleanup_outcome_witness:
  "\<exists>M' h. xen_shm_cleanup small_kenv (small_mod (Some 4096)) = Some M'
    \<and> mtrace M' = h @ [K_cdev_del, K_unregister_chrdev_region 0]"
proof -
  have queued: "\<And>p. p \<in> set [4096] \<Longrightarrow> \<exists>st. load_inst p (small_mod (Some 4096)) = Some st \<and> freeable st"
    using small_mod_facts(1) freeable_inv [OF small_mod_facts(2)] by simp
  have "\<exists>M' M1 zs. xen_shm_cleanup small_kenv (small_mod (Some 4096)) = Some M'
      \<and> xen_shm_free_delayed_queue small_kenv (small_mod (Some 4096)) = Some M1 \<and> same_files M1 M'
      \<and> subseq zs [4096] \<and> dq_list M' zs \<and> (\<forall>p \<in> set [4096] - set zs. instances M' p = None)
      \<and> mtrace M' = mtrace M1 @ [K_cdev_del, K_unregister_chrdev_region (xen_shm_device (small_mod (Some 4096)))]"
    by (rule module_cleanup_outcome [OF small_mod_facts(4)]) (rule queued)
  then show ?thesis by (auto simp: small_mod_def)
qed

end
