(* ===== verification/Handler_Lib.thy ===== *)
theory Handler_Lib
  imports Complex_Main Pipe_Api
begin

text \<open>
  The services on top of a pair of pipes (\<^verbatim>\<open>handler_lib.c\<close>): ping, and one-way transfer with a measurement of the bandwidth.

  The flag \<^verbatim>\<open>data->stop\<close> is set by another thread: \<open>he_stop env t\<close> is what the test number \<open>t\<close> of it sees.  \<open>he_clock\<close> are the
  successive results of \<^verbatim>\<open>gettimeofday\<close>.  An operation on values of type \<^verbatim>\<open>double\<close> is the exact operation on
  rational numbers followed by the rounding \<open>he_round\<close>.  A division by zero makes the bandwidth infinite and its conversion to an
  integer, a few lines later, undefined: it has no result.  The time stamps that ping prints are left out.
\<close>

section \<open>Structures\<close>

record handler_env =
  he_recv :: pipe_env
  he_send :: pipe_env
  he_addr :: nat
  he_stop :: "nat \<Rightarrow> int"
  he_clock :: "nat \<Rightarrow> u64 \<times> u64"
  he_round :: "rat \<Rightarrow> rat"

record xen_shm_handler_transfert =
  buffer_len :: u64
  print_info :: u8

abbreviation (input) PING_PACKET_SIZE :: nat where "PING_PACKET_SIZE \<equiv> 10"
abbreviation (input) PING_SERIES_LENGTH :: nat where "PING_SERIES_LENGTH \<equiv> 500"

text \<open>The identifier given out and the next value of \<^verbatim>\<open>unique_handler_id\<close>.\<close>

definition xen_shm_handler_get_id :: "u32 \<Rightarrow> u32 \<times> u32" where
  "xen_shm_handler_get_id unique_handler_id = (unique_handler_id, unique_handler_id + 1)"

text \<open>The loop \<^verbatim>\<open>while (!data->stop)\<close>.  The body tells whether the loop goes on; the flag of the result is \<open>True\<close> when the
  loop has ended by its condition, and \<open>False\<close> when a \<^verbatim>\<open>return\<close> has left it.\<close>

partial_function (option) stop_loop ::
  "(nat \<Rightarrow> int) \<Rightarrow> ('s \<Rightarrow> (bool \<times> 's) option) \<Rightarrow> nat \<Rightarrow> 's \<Rightarrow> (bool \<times> 's) option" where
  "stop_loop stop body t s =
    (if stop t \<noteq> 0 then Some (True, s)
     else Option.bind (body s) (\<lambda>(go, s). if go then stop_loop stop body (Suc t) s else Some (False, s)))"

section \<open>Ping\<close>

record ping_loc =
  pg_recv :: pipe_st
  pg_send :: pipe_st
  pg_noise :: memory

definition ping_once :: "handler_env \<Rightarrow> ping_loc \<Rightarrow> (bool \<times> ping_loc) option" where
  "ping_once env l =
    do {
      (len, s) \<leftarrow> xen_shm_pipe_write_all (he_send env) (he_addr env) (pg_noise l) PING_PACKET_SIZE (pg_send l);
      let l = l\<lparr>pg_send := s\<rparr>;
      (if len < 0 then Some (False, l)
       else do {
         let l = l\<lparr>pg_recv := snd (xen_shm_pipe_flush (he_recv env) (pg_recv l))\<rparr>;
         (len, b, r) \<leftarrow> xen_shm_pipe_read_all (he_recv env) (he_addr env) (pg_noise l) PING_PACKET_SIZE (pg_recv l);
         let l = l\<lparr>pg_recv := r, pg_noise := b\<rparr>;
         (if len < 0 then Some (False, l)
          else Some (True, l\<lparr>pg_recv := snd (xen_shm_pipe_flush (he_recv env) (pg_recv l))\<rparr>))
       })
    }"

fun ping_series :: "handler_env \<Rightarrow> nat \<Rightarrow> ping_loc \<Rightarrow> (bool \<times> ping_loc) option" where
  "ping_series env 0 l = Some (True, l)"
| "ping_series env (Suc i) l =
    do {
      (go, l) \<leftarrow> ping_once env l;
      (if go then ping_series env i l else Some (False, l))
    }"

definition xen_shm_handler_ping_client :: "handler_env \<Rightarrow> ping_loc \<Rightarrow> (bool \<times> ping_loc) option" where
  "xen_shm_handler_ping_client env l = stop_loop (he_stop env) (ping_series env PING_SERIES_LENGTH) 0 l"

definition ping_answer :: "handler_env \<Rightarrow> ping_loc \<Rightarrow> (bool \<times> ping_loc) option" where
  "ping_answer env l =
    do {
      (len, b, r) \<leftarrow> xen_shm_pipe_read_all (he_recv env) (he_addr env) (pg_noise l) PING_PACKET_SIZE (pg_recv l);
      let l = l\<lparr>pg_recv := r, pg_noise := b\<rparr>;
      (if len < 0 then Some (False, l)
       else do {
         let l = l\<lparr>pg_recv := snd (xen_shm_pipe_flush (he_recv env) (pg_recv l))\<rparr>;
         (len, s) \<leftarrow> xen_shm_pipe_write_all (he_send env) (he_addr env) (pg_noise l) PING_PACKET_SIZE (pg_send l);
         let l = l\<lparr>pg_send := s\<rparr>;
         (if len < 0 then Some (False, l)
          else Some (True, l\<lparr>pg_send := snd (xen_shm_pipe_flush (he_send env) (pg_send l))\<rparr>))
       })
    }"

definition xen_shm_handler_ping_server :: "handler_env \<Rightarrow> ping_loc \<Rightarrow> (bool \<times> ping_loc) option" where
  "xen_shm_handler_ping_server env l = stop_loop (he_stop env) (ping_answer env) 0 l"

section \<open>Transfer\<close>

record transfer_loc =
  th_pipe :: pipe_st
  th_buf :: memory
  th_byte_counter :: u64
  th_print_threashold :: u64
  th_last_print_s :: u64
  th_in_stamp :: "u64 \<times> u64"
  th_clocks :: nat
  th_printed :: "(u32 \<times> u64 \<times> u64 \<times> rat) list"

definition u64_of_double :: "rat \<Rightarrow> u64 option" where
  "u64_of_double x = (if 0 \<le> x \<and> x < 2 ^ 64 then Some (of_int \<lfloor>x\<rfloor>) else None)"

definition elapsed :: "u64 \<times> u64 \<Rightarrow> u64 \<times> u64 \<Rightarrow> u64" where
  "elapsed in_stamp out_stamp = (fst out_stamp - fst in_stamp) * 1000000 + (snd out_stamp - snd in_stamp)"

definition double_bandwidth :: "(rat \<Rightarrow> rat) \<Rightarrow> u64 \<Rightarrow> u64 \<Rightarrow> rat option" where
  "double_bandwidth rnd byte_counter delay =
    (if delay = 0 then None
     else Some (rnd (rnd (rnd (of_nat (unat byte_counter)) * 8) / rnd (of_nat (unat delay)))))"

text \<open>The accounting behind a transfer of a whole buffer, which both handlers have.\<close>

definition account :: "handler_env \<Rightarrow> u32 \<Rightarrow> xen_shm_handler_transfert \<Rightarrow> transfer_loc \<Rightarrow> transfer_loc option" where
  "account env transfert_id td l =
    (let l = l\<lparr>th_byte_counter := th_byte_counter l + buffer_len td\<rparr>
     in if print_info td \<noteq> 0 \<and> th_print_threashold l < th_byte_counter l
     then do {
       let out_stamp = he_clock env (th_clocks l);
       let delay = elapsed (th_in_stamp l) out_stamp;
       bandwidth \<leftarrow> double_bandwidth (he_round env) (th_byte_counter l) delay;
       threashold \<leftarrow> u64_of_double (he_round env (he_round env (bandwidth * 1000000) / 4));
       let l = l\<lparr>th_print_threashold := threashold\<rparr>;
       let l = (if th_last_print_s l < fst out_stamp
                then l\<lparr>th_last_print_s := fst out_stamp, th_printed := th_printed l @ [(transfert_id, th_byte_counter l,
                       fst out_stamp * 1000 + snd out_stamp div 1000, bandwidth)]\<rparr>
                else l);
       Some (l\<lparr>th_byte_counter := 0, th_in_stamp := out_stamp, th_clocks := Suc (th_clocks l)\<rparr>)
     }
     else Some l)"

type_synonym buffer_op = "memory \<Rightarrow> pipe_st \<Rightarrow> (int \<times> memory \<times> pipe_st) option"

definition transfer_round ::
  "handler_env \<Rightarrow> buffer_op \<Rightarrow> u32 \<Rightarrow> xen_shm_handler_transfert \<Rightarrow> transfer_loc \<Rightarrow> (bool \<times> transfer_loc) option" where
  "transfer_round env xop transfert_id td l =
    do {
      (ret, b, st) \<leftarrow> xop (th_buf l) (th_pipe l);
      let l = l\<lparr>th_buf := b, th_pipe := st\<rparr>;
      (if ret < 0 then Some (False, l)
       else do {
         l \<leftarrow> account env transfert_id td l;
         Some (True, l)
       })
    }"

text \<open>The result of \<^verbatim>\<open>malloc\<close> is an argument, \<open>None\<close> for \<^verbatim>\<open>NULL\<close>, which is not checked: the first round has no result
  then.  The result is the flag of the loop, which is also whether the buffer is freed, the next identifier and the last
  state.\<close>

definition transfer_run ::
  "handler_env \<Rightarrow> buffer_op \<Rightarrow> xen_shm_handler_transfert \<Rightarrow> memory option \<Rightarrow> u32 \<Rightarrow> pipe_st \<Rightarrow> (bool \<times> u32 \<times> transfer_loc) option" where
  "transfer_run env xop td malloc ids st =
    (let (transfert_id, ids) = xen_shm_handler_get_id ids;
         in_stamp = he_clock env 0;
         l = \<lparr>th_pipe = st, th_buf = [], th_byte_counter = 0, th_print_threashold = 2000 * 1000000 div 4,
              th_last_print_s = fst in_stamp, th_in_stamp = in_stamp, th_clocks = 1, th_printed = []\<rparr>
     in case malloc of
       None \<Rightarrow> (if he_stop env 0 \<noteq> 0 then Some (True, ids, l) else None)
     | Some b \<Rightarrow> do {
         (fin, l) \<leftarrow> stop_loop (he_stop env) (transfer_round env xop transfert_id td) 0 (l\<lparr>th_buf := b\<rparr>);
         Some (fin, ids, l)
       })"

definition write_buffer :: "handler_env \<Rightarrow> xen_shm_handler_transfert \<Rightarrow> buffer_op" where
  "write_buffer env td b st =
    map_option (\<lambda>(r, st). (r, b, st)) (xen_shm_pipe_write_all (he_send env) (he_addr env) b (unat (buffer_len td)) st)"

definition read_buffer :: "handler_env \<Rightarrow> xen_shm_handler_transfert \<Rightarrow> buffer_op" where
  "read_buffer env td b st = xen_shm_pipe_read_all (he_recv env) (he_addr env) b (unat (buffer_len td)) st"

definition xen_shm_handler_sender ::
  "handler_env \<Rightarrow> xen_shm_handler_transfert \<Rightarrow> memory option \<Rightarrow> u32 \<Rightarrow> pipe_st \<Rightarrow> (bool \<times> u32 \<times> transfer_loc) option" where
  "xen_shm_handler_sender env td = transfer_run env (write_buffer env td) td"

definition xen_shm_handler_receiver ::
  "handler_env \<Rightarrow> xen_shm_handler_transfert \<Rightarrow> memory option \<Rightarrow> u32 \<Rightarrow> pipe_st \<Rightarrow> (bool \<times> u32 \<times> transfer_loc) option" where
  "xen_shm_handler_receiver env td = transfer_run env (read_buffer env td) td"

section \<open>The loop\<close>

lemma stop_loop_total:
  assumes body: "\<And>s. I s \<Longrightarrow> \<exists>go s'. body s = Some (go, s') \<and> I s' \<and> (\<not> go \<longrightarrow> Q s')"
    and stop: "stop n \<noteq> 0" "t \<le> n" and init: "I s"
  shows "\<exists>fin s'. stop_loop stop body t s = Some (fin, s') \<and> I s' \<and> (\<not> fin \<longrightarrow> Q s')"
  using stop(2) init
proof (induction "n - t" arbitrary: t s)
  case 0
  then have "stop t \<noteq> 0" using stop(1) by simp
  with 0 show ?case by (auto simp: stop_loop.simps)
next
  case (Suc m)
  from body [OF Suc.prems(2)] obtain go s' where s': "body s = Some (go, s')" "I s'" "\<not> go \<longrightarrow> Q s'" by blast
  have "\<exists>fin u. stop_loop stop body (Suc t) s' = Some (fin, u) \<and> I u \<and> (\<not> fin \<longrightarrow> Q u)"
    using Suc.hyps(2) s'(2) by (intro Suc.hyps(1)) simp_all
  with s' Suc.prems(2) show ?case by (cases go) (auto simp: stop_loop.simps [of stop body t])
qed

section \<open>Transfer\<close>

text \<open>The clock and the rounding make every measurement defined: between two successive readings of the clock
  time has passed, and the threshold fits into 64 bits.\<close>

definition clock_fine :: "handler_env \<Rightarrow> bool" where
  "clock_fine env \<longleftrightarrow> (\<forall>i bc. \<exists>b th. double_bandwidth (he_round env) bc (elapsed (he_clock env i) (he_clock env (Suc i))) = Some b
     \<and> u64_of_double (he_round env (he_round env (b * 1000000) / 4)) = Some th)"

definition stamp_inv :: "handler_env \<Rightarrow> transfer_loc \<Rightarrow> bool" where
  "stamp_inv env l \<longleftrightarrow> (\<exists>i. th_clocks l = Suc i \<and> th_in_stamp l = he_clock env i)"

lemma account_total:
  assumes "print_info td = 0 \<or> clock_fine env" "stamp_inv env l"
  shows "\<exists>l'. account env i td l = Some l' \<and> stamp_inv env l' \<and> th_pipe l' = th_pipe l \<and> th_buf l' = th_buf l"
proof (cases "print_info td \<noteq> 0 \<and> th_print_threashold l < th_byte_counter l + buffer_len td")
  case False
  with assms(2) show ?thesis by (auto simp: account_def stamp_inv_def)
next
  case True
  from assms(2) obtain j where j: "th_clocks l = Suc j" "th_in_stamp l = he_clock env j" by (auto simp: stamp_inv_def)
  from assms(1) True obtain b th where
    "double_bandwidth (he_round env) (th_byte_counter l + buffer_len td)
        (elapsed (he_clock env j) (he_clock env (Suc j))) = Some b"
    "u64_of_double (he_round env (he_round env (b * 1000000) / 4)) = Some th" unfolding clock_fine_def by blast
  with True j show ?thesis by (simp add: account_def stamp_inv_def Let_def)
qed

text \<open>
  The interface to a transfer of a whole buffer: from a connected pipe and a buffer that satisfies \<open>ok\<close> it always comes back to such
  a state, with a beginning of the buffer it leaves passed on, and a negative result only for a reported reason.
  Both handlers are instances.
\<close>

locale transfer_service =
  fixes xop :: buffer_op
    and ok :: "memory \<Rightarrow> bool"
    and conn :: "pipe_st \<Rightarrow> bool"
    and flow :: "byte list \<Rightarrow> pipe_st \<Rightarrow> pipe_st \<Rightarrow> bool"
    and broken :: "pipe_st \<Rightarrow> bool"
  assumes xop_total: "conn st \<Longrightarrow> ok b \<Longrightarrow> \<exists>r b' st' x. xop b st = Some (r, b', st') \<and> conn st'
      \<and> ok b' \<and> prefix x b' \<and> flow x st st' \<and> (r < 0 \<longrightarrow> broken st')"
    and flow_nil: "flow [] st st"
    and flow_append: "flow xs s1 s2 \<Longrightarrow> flow ys s2 s3 \<Longrightarrow> flow (xs @ ys) s1 s3"
begin

lemma round_total:
  assumes "print_info td = 0 \<or> clock_fine env"
    and "conn (th_pipe l)" "ok (th_buf l)" "stamp_inv env l"
  shows "\<exists>go l' x c. transfer_round env xop i td l = Some (go, l') \<and> conn (th_pipe l') \<and> ok (th_buf l')
    \<and> stamp_inv env l' \<and> ok c \<and> prefix x c \<and> flow x (th_pipe l) (th_pipe l') \<and> (\<not> go \<longrightarrow> broken (th_pipe l'))"
proof -
  from xop_total [OF assms(2,3)] obtain r b s x where op: "xop (th_buf l) (th_pipe l) = Some (r, b, s)" "conn s"
    "ok b" "prefix x b" "flow x (th_pipe l) s" "r < 0 \<longrightarrow> broken s" by blast
  let ?l = "l\<lparr>th_buf := b, th_pipe := s\<rparr>"
  have inv: "stamp_inv env ?l" using assms(4) by (simp add: stamp_inv_def)
  show ?thesis
  proof (cases "r < 0")
    case True
    with op inv show ?thesis by (fastforce simp: transfer_round_def)
  next
    case False
    from account_total [OF assms(1) inv, of i] obtain l' where "account env i td ?l = Some l'" "stamp_inv env l'"
      "th_pipe l' = s" "th_buf l' = b" by auto
    with op False show ?thesis by (fastforce simp: transfer_round_def)
  qed
qed

lemma run_total:
  assumes fine: "print_info td = 0 \<or> clock_fine env" and conn: "conn st" and b: "ok b"
    and stop: "he_stop env n \<noteq> 0"
  shows "\<exists>fin l ps. transfer_run env xop td (Some b) ids st = Some (fin, ids + 1, l) \<and> conn (th_pipe l)
    \<and> flow (concat ps) st (th_pipe l) \<and> (\<forall>x \<in> set ps. \<exists>c. ok c \<and> prefix x c) \<and> (\<not> fin \<longrightarrow> broken (th_pipe l))"
proof -
  let ?F = "\<lambda>ps l. flow (concat ps) st (th_pipe l) \<and> (\<forall>x \<in> set ps. \<exists>c. ok c \<and> prefix x c)"
  let ?I = "\<lambda>l. conn (th_pipe l) \<and> ok (th_buf l) \<and> stamp_inv env l \<and> (\<exists>ps. ?F ps l)"
  define l0 where "l0 = \<lparr>th_pipe = st, th_buf = b, th_byte_counter = 0, th_print_threashold = 2000 * 1000000 div 4,
     th_last_print_s = fst (he_clock env 0), th_in_stamp = he_clock env 0, th_clocks = 1, th_printed = []\<rparr>"
  have "?F [] l0" using flow_nil by (simp add: l0_def)
  moreover have "conn (th_pipe l0) \<and> ok (th_buf l0) \<and> stamp_inv env l0" using conn b by (simp add: l0_def stamp_inv_def)
  ultimately have "?I l0" by blast
  have "\<exists>fin l. stop_loop (he_stop env) (transfer_round env xop ids td) 0 l0 = Some (fin, l) \<and> ?I l
      \<and> (\<not> fin \<longrightarrow> broken (th_pipe l))"
  proof (rule stop_loop_total [where I = ?I and n = n])
    fix l assume I: "?I l"
    then obtain ps where ps: "?F ps l" by blast
    from I round_total [OF fine, of l ids] obtain go l' x c where r: "transfer_round env xop ids td l = Some (go, l')"
      "conn (th_pipe l')" "ok (th_buf l')" "stamp_inv env l'" "ok c" "prefix x c" "flow x (th_pipe l) (th_pipe l')"
      "\<not> go \<longrightarrow> broken (th_pipe l')" by blast
    have "?F (ps @ [x]) l'" using flow_append [OF conjunct1 [OF ps] r(7)] ps r(5,6) by auto
    with r show "\<exists>go l'. transfer_round env xop ids td l = Some (go, l') \<and> ?I l' \<and> (\<not> go \<longrightarrow> broken (th_pipe l'))" by blast
  qed (use stop \<open>?I l0\<close> in auto)
  then obtain fin l where "stop_loop (he_stop env) (transfer_round env xop ids td) 0 l0 = Some (fin, l)" "?I l"
    "\<not> fin \<longrightarrow> broken (th_pipe l)" by blast
  moreover from this(1) have "transfer_run env xop td (Some b) ids st = Some (fin, ids + 1, l)"
    by (simp add: transfer_run_def xen_shm_handler_get_id_def l0_def)
  ultimately show ?thesis by blast
qed

end

lemma read_whole:
  assumes "reader_ready n env st" "length buf = m"
  obtains r k buf' st' where "xen_shm_pipe_read_all env ub buf m st = Some (r, buf', st')" "reader_ready n env st'" "k \<le> m"
    and "reader_flow (take k buf') st st'" "length buf' = m" "r < 0 \<Longrightarrow> reader_stop env (-1) st'"
proof -
  obtain r k buf' st' where x: "xfer_all (xen_shm_pipe_read env) ub buf m st = Some (r, buf', st')" "reader_ready n env st'"
    "k \<le> m" "reader_flow (take k buf') st st'" "length buf' = m" "k = m \<and> r = int m
      \<or> k < m \<and> (\<exists>r0 \<le> 0. reader_stop env r0 st' \<and> r = (if k = 0 then r0 else int k))"
    by (rule read_tr.xfer_total [OF assms(1), of m buf ub]) (use assms(2) in auto)
  then show ?thesis
    by (intro that [of r buf' st' k]) (auto simp: xen_shm_pipe_read_all_def reader_stop_def split: if_splits)
qed

lemma write_whole:
  assumes "writer_ready n env st" "length buf = m"
  obtains r k st' where "xen_shm_pipe_write_all env ub buf m st = Some (r, st')" "writer_ready n env st'" "k \<le> m"
    and "writer_flow (take k buf) st st'" "r < 0 \<Longrightarrow> writer_stop env (-1) st'"
proof -
  obtain r k buf' st' where x: "xfer_all (write_op env) ub buf m st = Some (r, buf', st')" "writer_ready n env st'" "k \<le> m"
    "writer_flow (take k buf') st st'" "k = m \<and> r = int m
      \<or> k < m \<and> (\<exists>r0 \<le> 0. writer_stop env r0 st' \<and> r = (if k = 0 then r0 else int k))"
    by (rule write_tr.xfer_total [OF assms(1), of m buf ub]) (use assms(2) in auto)
  then show ?thesis
    using write_all_keeps_buffer [OF x(1)]
    by (intro that [of r st' k]) (auto simp: xen_shm_pipe_write_all_def writer_stop_def split: if_splits)
qed

interpretation receiving: transfer_service "read_buffer env td" "\<lambda>b. length b = unat (buffer_len td)"
  "reader_ready n (he_recv env)" reader_flow "reader_stop (he_recv env) (-1)" for env td n
proof
  fix st and b :: memory assume a: "reader_ready n (he_recv env) st" "length b = unat (buffer_len td)"
  show "\<exists>r b' st' x. read_buffer env td b st = Some (r, b', st') \<and> reader_ready n (he_recv env) st'
      \<and> length b' = unat (buffer_len td) \<and> prefix x b' \<and> reader_flow x st st' \<and> (r < 0 \<longrightarrow> reader_stop (he_recv env) (-1) st')"
    by (rule read_whole [OF a, of "he_addr env"]) (auto simp: read_buffer_def intro!: take_is_prefix)
qed (auto intro: reader_flow_trans)

interpretation sending: transfer_service "write_buffer env td" "\<lambda>b. b = buf \<and> length b = unat (buffer_len td)"
  "writer_ready n (he_send env)" writer_flow "writer_stop (he_send env) (-1)" for env td n buf
proof
  fix st and b :: memory assume a: "writer_ready n (he_send env) st" "b = buf \<and> length b = unat (buffer_len td)"
  show "\<exists>r b' st' x. write_buffer env td b st = Some (r, b', st') \<and> writer_ready n (he_send env) st'
      \<and> (b' = buf \<and> length b' = unat (buffer_len td)) \<and> prefix x b' \<and> writer_flow x st st'
      \<and> (r < 0 \<longrightarrow> writer_stop (he_send env) (-1) st')"
    by (rule write_whole [OF a(1) conjunct2 [OF a(2)], of "he_addr env"])
      (use a(2) in \<open>auto simp: write_buffer_def intro!: take_is_prefix\<close>)
qed (auto intro: writer_flow_trans)

section \<open>Ping\<close>

lemma flush_reader:
  assumes "reader_ready n env st"
  shows "reader_ready n env (snd (xen_shm_pipe_flush env st))" "reader_flow [] st (snd (xen_shm_pipe_flush env st))"
proof -
  let ?st = "snd (xen_shm_pipe_flush env st)"
  have r: "connected_reader n st" "env_writer n env" "pipe_wf n st"
    using assms by (simp_all add: reader_ready_def connected_reader_def)
  note p = flush_passive(1) [OF r(2,3)]
  then show "reader_flow [] st ?st" by (simp add: reader_passive_def)
  with p reader_passive_wf [OF p r(3)] r(1) have "connected_reader n ?st"
    by (simp add: connected_reader_def reader_passive_def same_pipe_def reader_flow_def)
  then show "reader_ready n env ?st" using assms by (simp add: reader_ready_def)
qed

lemma flush_writer:
  assumes "writer_ready n env st"
  shows "writer_ready n env (snd (xen_shm_pipe_flush env st))" "writer_flow [] st (snd (xen_shm_pipe_flush env st))"
proof -
  let ?st = "snd (xen_shm_pipe_flush env st)"
  have r: "connected_writer n st" "env_reader n env" "pipe_wf n st"
    using assms by (simp_all add: writer_ready_def connected_writer_def)
  note p = flush_passive(2) [OF r(2,3)]
  then show "writer_flow [] st ?st" by (simp add: writer_passive_def)
  with p writer_passive_wf [OF p r(3)] r(1) have "connected_writer n ?st"
    by (simp add: connected_writer_def writer_passive_def same_pipe_def)
  then show "writer_ready n env ?st" using assms by (simp add: writer_ready_def)
qed

text \<open>The state of a ping handler between two exchanges: both pipes can be used and the buffer has its size.\<close>

definition ping_ready :: "nat \<Rightarrow> handler_env \<Rightarrow> ping_loc \<Rightarrow> bool" where
  "ping_ready n env l \<longleftrightarrow> reader_ready n (he_recv env) (pg_recv l) \<and> writer_ready n (he_send env) (pg_send l)
     \<and> length (pg_noise l) = PING_PACKET_SIZE"

text \<open>The bytes read and written in the successive exchanges; a packet that was read whole comes back as it is, as far as it
  could be written.\<close>

definition echoes :: "(byte list \<times> byte list) list \<Rightarrow> bool" where
  "echoes ps \<longleftrightarrow> (\<forall>(x, y) \<in> set ps. length x \<le> PING_PACKET_SIZE \<and> length y \<le> PING_PACKET_SIZE
     \<and> (length x = PING_PACKET_SIZE \<longrightarrow> prefix y x))"

definition echoed :: "ping_loc \<Rightarrow> (byte list \<times> byte list) list \<Rightarrow> ping_loc \<Rightarrow> bool" where
  "echoed l ps l' \<longleftrightarrow> echoes ps \<and> reader_flow (concat (map fst ps)) (pg_recv l) (pg_recv l')
     \<and> writer_flow (concat (map snd ps)) (pg_send l) (pg_send l')"

definition ping_broken :: "handler_env \<Rightarrow> ping_loc \<Rightarrow> bool" where
  "ping_broken env l \<longleftrightarrow> reader_stop (he_recv env) (-1) (pg_recv l) \<or> writer_stop (he_send env) (-1) (pg_send l)"

lemma echoed_snoc:
  assumes "echoed l ps a" "reader_flow x (pg_recv a) (pg_recv b)" "writer_flow y (pg_send a) (pg_send b)" "echoes [(x, y)]"
  shows "echoed l (ps @ [(x, y)]) b"
  using assms reader_flow_trans writer_flow_trans by (fastforce simp: echoed_def echoes_def)

lemma ping_answer_run:
  assumes "ping_ready n env l"
  shows "\<exists>go l' x y. ping_answer env l = Some (go, l') \<and> ping_ready n env l' \<and> echoes [(x, y)]
    \<and> reader_flow x (pg_recv l) (pg_recv l') \<and> writer_flow y (pg_send l) (pg_send l') \<and> (\<not> go \<longrightarrow> ping_broken env l')"
proof -
  have l: "reader_ready n (he_recv env) (pg_recv l)" "writer_ready n (he_send env) (pg_send l)" "length (pg_noise l) = 10"
    using assms by (simp_all add: ping_ready_def)
  from read_whole [OF l(1,3), of "he_addr env"] obtain r k b st where
    rd: "xen_shm_pipe_read_all (he_recv env) (he_addr env) (pg_noise l) 10 (pg_recv l) = Some (r, b, st)"
    "reader_ready n (he_recv env) st" "k \<le> 10" "reader_flow (take k b) (pg_recv l) st" "length b = 10"
    "r < 0 \<Longrightarrow> reader_stop (he_recv env) (-1) st" by metis
  show ?thesis
  proof (cases "r < 0")
    case True
    with rd l have "ping_answer env l = Some (False, l\<lparr>pg_recv := st, pg_noise := b\<rparr>)" by (simp add: ping_answer_def)
    with True rd l show ?thesis
      by (intro exI [of _ False] exI [of _ "l\<lparr>pg_recv := st, pg_noise := b\<rparr>"] exI [of _ "take k b"] exI [of _ "[]"])
        (auto simp: ping_ready_def echoes_def ping_broken_def)
  next
    case False
    let ?st = "snd (xen_shm_pipe_flush (he_recv env) st)"
    note fl = flush_reader [OF rd(2)]
    from write_whole [OF l(2) rd(5), of "he_addr env"] obtain r' j w where
      wr: "xen_shm_pipe_write_all (he_send env) (he_addr env) b 10 (pg_send l) = Some (r', w)" "writer_ready n (he_send env) w"
      "j \<le> 10" "writer_flow (take j b) (pg_send l) w" "r' < 0 \<Longrightarrow> writer_stop (he_send env) (-1) w" by metis
    let ?w = "if r' < 0 then w else snd (xen_shm_pipe_flush (he_send env) w)"
    let ?l = "l\<lparr>pg_recv := ?st, pg_noise := b, pg_send := ?w\<rparr>"
    have w: "writer_ready n (he_send env) ?w" "writer_flow (take j b) (pg_send l) ?w"
      using wr flush_writer [OF wr(2)] writer_flow_trans [OF wr(4), of "[]"] by simp_all
    have "ping_answer env l = Some (\<not> r' < 0, ?l)" using False rd(1) wr(1) by (simp add: ping_answer_def)
    moreover have "echoes [(take k b, take j b)]" using rd(5) by (simp add: echoes_def take_is_prefix)
    moreover have "reader_flow (take k b) (pg_recv l) ?st" using reader_flow_trans [OF rd(4) fl(2)] by simp
    ultimately show ?thesis
      using w fl(1) rd(5) wr(5)
      by (intro exI [of _ "\<not> r' < 0"] exI [of _ ?l] exI [of _ "take k b"] exI [of _ "take j b"])
        (simp add: ping_ready_def ping_broken_def)
  qed
qed

text \<open>What a ping client has done to its pipes.\<close>

definition pinged :: "nat \<Rightarrow> handler_env \<Rightarrow> ping_loc \<Rightarrow> ping_loc \<Rightarrow> bool" where
  "pinged n env l l' \<longleftrightarrow> ping_ready n env l' \<and> (\<exists>x y. reader_flow x (pg_recv l) (pg_recv l') \<and> writer_flow y (pg_send l) (pg_send l'))"

lemma pinged_refl: "ping_ready n env l \<Longrightarrow> pinged n env l l"
  using reader_flow_refl writer_flow_refl unfolding pinged_def by blast

lemma pinged_trans: "pinged n env a b \<Longrightarrow> pinged n env b c \<Longrightarrow> pinged n env a c"
  unfolding pinged_def using reader_flow_trans writer_flow_trans by blast

lemma ping_once_run:
  assumes "ping_ready n env l"
  shows "\<exists>go l'. ping_once env l = Some (go, l') \<and> pinged n env l l' \<and> (\<not> go \<longrightarrow> ping_broken env l')"
proof -
  have l: "reader_ready n (he_recv env) (pg_recv l)" "writer_ready n (he_send env) (pg_send l)" "length (pg_noise l) = 10"
    using assms by (simp_all add: ping_ready_def)
  from write_whole [OF l(2,3), of "he_addr env"] obtain r j w where
    wr: "xen_shm_pipe_write_all (he_send env) (he_addr env) (pg_noise l) 10 (pg_send l) = Some (r, w)"
    "writer_ready n (he_send env) w" "writer_flow (take j (pg_noise l)) (pg_send l) w"
    "r < 0 \<Longrightarrow> writer_stop (he_send env) (-1) w" by metis
  show ?thesis
  proof (cases "r < 0")
    case True
    from wr l have "pinged n env l (l\<lparr>pg_send := w\<rparr>)"
      unfolding pinged_def ping_ready_def by (auto intro: exI [of _ "[]"])
    with True wr show ?thesis by (auto simp: ping_once_def ping_broken_def)
  next
    case False
    note f1 = flush_reader [OF l(1)]
    from read_whole [OF f1(1) l(3), of "he_addr env"] obtain r' k b st where
      rd: "xen_shm_pipe_read_all (he_recv env) (he_addr env) (pg_noise l) 10 (snd (xen_shm_pipe_flush (he_recv env) (pg_recv l)))
          = Some (r', b, st)" "reader_ready n (he_recv env) st"
      "reader_flow (take k b) (snd (xen_shm_pipe_flush (he_recv env) (pg_recv l))) st" "length b = 10"
      "r' < 0 \<Longrightarrow> reader_stop (he_recv env) (-1) st" by metis
    let ?st = "if r' < 0 then st else snd (xen_shm_pipe_flush (he_recv env) st)"
    let ?l = "l\<lparr>pg_send := w, pg_recv := ?st, pg_noise := b\<rparr>"
    have "reader_ready n (he_recv env) ?st" "reader_flow (take k b) (pg_recv l) ?st"
      using flush_reader [OF rd(2)] rd(2) reader_flow_trans [OF f1(2) rd(3)] reader_flow_trans [of "take k b" _ st "[]"]
      by auto
    then have "pinged n env l ?l" using wr(2,3) rd(4) unfolding pinged_def ping_ready_def by auto
    moreover have "ping_once env l = Some (\<not> r' < 0, ?l)" using False wr(1) rd(1) by (simp add: ping_once_def)
    ultimately show ?thesis using rd(5) by (simp add: ping_broken_def)
  qed
qed

lemma ping_series_run:
  "ping_ready n env l \<Longrightarrow> \<exists>go l'. ping_series env i l = Some (go, l') \<and> pinged n env l l' \<and> (\<not> go \<longrightarrow> ping_broken env l')"
proof (induction i arbitrary: l)
  case 0
  then show ?case by (auto simp: pinged_refl)
next
  case (Suc i)
  from ping_once_run [OF Suc.prems] obtain go l1 where
    l1: "ping_once env l = Some (go, l1)" "pinged n env l l1" "\<not> go \<longrightarrow> ping_broken env l1" by blast
  show ?case
  proof (cases go)
    case True
    from l1(2) have "ping_ready n env l1" by (simp add: pinged_def)
    from Suc.IH [OF this] obtain go' l2 where "ping_series env i l1 = Some (go', l2)" "pinged n env l1 l2"
      "\<not> go' \<longrightarrow> ping_broken env l2" by blast
    with l1 True show ?thesis by (auto intro: pinged_trans)
  next
    case False
    with l1 show ?thesis by auto
  qed
qed

section \<open>Properties\<close>



text \<open>Two ends of the small pipe whose device reports a broken pipe, a clock that goes on by one second, and exact
  arithmetic.\<close>

definition small_handler_env :: handler_env where
  "small_handler_env = \<lparr>he_recv = quiet_env epipe_answer, he_send = quiet_env epipe_answer, he_addr = 0,
     he_stop = (\<lambda>t. if 2 \<le> t then 1 else 0), he_clock = (\<lambda>i. (of_nat i, 0)), he_round = id\<rparr>"

definition small_ping :: ping_loc where
  "small_ping = \<lparr>pg_recv = small_end xen_shm_pipe_mod_read small_area,
     pg_send = small_end xen_shm_pipe_mod_write small_area, pg_noise = replicate 10 0\<rparr>"

lemma small_ping_ready: "ping_ready 8 small_handler_env small_ping"
  by (simp add: ping_ready_def small_handler_env_def small_ping_def small_end_ready)



end
