(* ===== verification/Spec2Isabelle.thy ===== *)
theory Spec2Isabelle
  imports Conn_Device Pipe_Race Test_Pipe Shm_Module Handler_Lib
begin

text \<open>
  \<^bold>\<open>xen_shm\<close> lets two Xen domains on one machine share memory and signal each other.

  \<^bold>\<open>The program.\<close>  The kernel module (\<^verbatim>\<open>src/xen_shm.c\<close>, \<^verbatim>\<open>src/xen_shm.h\<close>) is a character device.  A
  process opens it, and an ioctl makes the open file an offerer, which allocates pages and grants them to the other
  domain, or a receiver, which maps the pages of an offerer by the grant reference of their first page, the
  header page.  The header page holds the references of the other pages, the state of both sides, the port of the
  event channel and a mutex.  Other ioctls wait for a signal of the peer and send one; \<^verbatim>\<open>mmap\<close> gives the pages to the
  process.  The pipe library (\<^verbatim>\<open>src/xen_shm_pipe.c\<close>, \<^verbatim>\<open>src/xen_shm_pipe.h\<close>) is user code on top of the
  device: the shared pages hold a ring buffer, one side writes and the other reads, and they signal each
  other through the device only when one of them sleeps.  Two processes agree on a pair of pipes by three UDP messages
  (\<^verbatim>\<open>src/xen_shm_udp_proto.h\<close>): the client (\<^verbatim>\<open>src/client_lib.c\<close>) says hello with its domain, the server
  (\<^verbatim>\<open>src/server_lib.c\<close>) offers memory for one pipe and answers with its reference, and the client joins it, offers memory
  for the other pipe and sends that reference.  The server then runs a handler (\<^verbatim>\<open>src/handler_lib.c\<close>), a ping or a transfer, in a
  thread of its own.

  \<^bold>\<open>The theories.\<close>
  \<^item> \<open>Xen_Prelude\<close>: types, error numbers, flags in words, lists, linked lists in a heap, and the locales for
    loops; \<open>Ring\<close>: the contents of a ring buffer as a list.
  \<^item> \<open>Pipe_Types\<close>: the structures of the pipe library, its system calls, its state, and what the peer
    may do.  \<open>Pipe_Copy\<close>, \<open>Pipe_Read\<close>, \<open>Pipe_Write\<close>, \<open>Pipe_Wait\<close>: the chunk copy, the two
    transfer functions (\<^verbatim>\<open>__xen_shm_pipe_read_avail\<close>, \<^verbatim>\<open>__xen_shm_pipe_write_avail\<close>) and the two waiting functions
    (\<^verbatim>\<open>__xen_shm_pipe_wait_reader\<close>, \<^verbatim>\<open>__xen_shm_pipe_wait_writer\<close>).  \<open>Pipe_Api\<close>: every function of
    \<^verbatim>\<open>xen_shm_pipe.h\<close>.  \<open>Pipe_System\<close>: both ends together as a step relation.  \<open>Pipe_Protocol\<close>: what each end does to the
    area between two actions of the other.  \<open>Pipe_Device\<close>: the library over the model of the module.  \<open>Pipe_Race\<close>: both
    ends and the device in a run that loses a wake-up.  \<open>Test_Pipe\<close>: the programs \<^verbatim>\<open>src/test/pipe_writer.c\<close> and
    \<^verbatim>\<open>src/test/pipe_reader.c\<close>.
  \<^item> \<open>Shm_Types\<close>: the structures of the module and the calls it makes of Linux and Xen.  \<open>Shm_Event\<close>: the event
    channel.  \<open>Shm_Memory\<close>: allocation, unmapping, giving everything back, and the notifications of the memory
    manager.  \<open>Shm_Ioctl\<close>: becoming an offerer or a receiver.  \<open>Shm_Wait\<close>: waiting and signalling.  \<open>Shm_Mmap\<close>: mapping the
    pages into the process.  \<open>Shm_Dispatch\<close>: the decoding of an ioctl.  \<open>Shm_File\<close>: all open files together, opening and closing
    them, and the queue of instances that could not be given back.  \<open>Shm_Module\<close>: loading and unloading.
  \<^item> \<open>Udp_Proto\<close>: the messages as packed structures in a buffer of bytes.  \<open>Conn_Process\<close>: a process with several pipes, a
    socket and allocated blocks, which client and server share.  \<open>Client_Lib\<close>: \<^verbatim>\<open>init_pipe\<close>, \<^verbatim>\<open>run_client\<close> and
    \<^verbatim>\<open>run_client_thread\<close>.  \<open>Server_Lib\<close>: the callback of the server and its lists; \<open>Server_Run\<close>: the event loop, the shutdown and
    \<^verbatim>\<open>run_server\<close>.  \<open>Conn_Handshake\<close>: client and server together; \<open>Conn_Device\<close>: the same, over the
    modules of the two domains.  \<open>Handler_Lib\<close>: the handlers.

  \<^bold>\<open>How the code is modelled.\<close>  A C function is a function of the same name without the leading underscores,
  from the state to the result and the new state.  A structure is a record, an enumeration a datatype, an
  unsigned integer a word of its width.  \<open>None\<close> stands for a run that has no result: an access out of bounds, to
  unmapped or misaligned memory, or a loop that does not end; so a theorem that a call is \<open>Some\<close>
  shows that it ends and is free of such accesses.  The local variables of a loop are a record, a round of the loop
  is a function on it, and the loop itself is a recursion (by \<open>partial_function (option)\<close> when it may run forever); there is no
  fuel.  The messages of \<^verbatim>\<open>printk\<close> are left out.

  In the pipe library the peer runs beside the code: at every read of a field that the peer writes, \<open>observe\<close>
  lets it act on the shared area, through the parameter \<open>interf\<close>.  The rely conditions \<open>env_writer\<close> and
  \<open>env_reader\<close> say what a peer that follows the protocol may do, and the guarantee that this side follows it is
  part of what is proved.  The state carries three history variables, the bytes that arrived and that departed
  by the peer's doing and the areas before and after each of its actions; the code never reads them.  A system call is appended to a list of calls and its answer is a
  parameter.

  In the module a call of the kernel or of the hypervisor is appended to a trace, and its answer is a
  parameter that may depend on the whole trace.  The pages of the other domain and fresh memory are parameters
  too.  A sleeping process is a function of the list of events that happen while it sleeps: interrupts, writes of the
  peer to the header page, and signals to the process.

  In the client and the server a pipe is named by the number of the call that made it and a block by the number of the
  call that allocated it; the maps of live pipes and blocks lose what is freed, so that a use after a free, a second free and
  a null pointer are \<open>None\<close>.  The pipe library below is the model of \<open>Pipe_Api\<close>, with an environment for each pipe.  Labels that fall
  through are functions that call the next one.  Calls of sockets, threads, the event library and \<^verbatim>\<open>calloc\<close> are appended to a trace
  and answered by a parameter.  In the handlers the flag that another thread sets and the clock are parameters,
  and an operation on \<^verbatim>\<open>double\<close> is the exact one followed by a rounding, also a parameter.

  The layers are put together in \<open>Pipe_Device\<close> and \<open>Conn_Device\<close>.  There the answers to the system calls of an end are no
  longer free: they are the ones of the ioctls and of the \<^verbatim>\<open>mmap\<close> of an instance of the module, with interrupts and writes of
  the peer to the header page between the calls.  What stays a parameter is the hypervisor; that it maps for the receiver
  the page that the offerer granted is a hypothesis, which speaks only of the header page.

  \<^bold>\<open>What is shown.\<close>
  \<^item> The ring is a queue of bytes; reading and writing it beside a peer takes from and appends to that
    queue without loss, duplication or overwriting, in spite of the copy by words, of the stale copy of the
    peer's position and of the bounded chunks (\<open>Pipe_Copy\<close>, \<open>Pipe_Read\<close>, \<open>Pipe_Write\<close>).
  \<^item> The waiting functions end if the peer or the device makes it possible, and say why they ended (\<open>Pipe_Wait\<close>).
  \<^item> The functions of the library deliver the stream or report why not, on every branch (\<open>Pipe_Api\<close>); over any
    sequence of calls of both ends the pipe is a FIFO, and the end of the stream is reported only when all has been
    read (\<open>Pipe_System\<close>).
  \<^item> Each end keeps to the protocol that the correctness of the other one rests on, action by action
    (\<open>Pipe_Protocol\<close>).  The protocol loses wake-ups: a call of the peer that comes after the last look of a waiting
    end at the positions and before that end marks itself sleeping sends no signal, and the end then sleeps although the
    ring has data, or room (\<open>Pipe_Race\<close>).
  \<^item> The test programs send their input and receive what is asked for, and in every interleaving their
    checksums agree on the bytes received (\<open>Test_Pipe\<close>).
  \<^item> The event channel handshake (\<open>Shm_Event\<close>); that the offerer frees its pages only after
    all grants have ended, and the receiver unmaps each page once (\<open>Shm_Memory\<close>); that both initialising ioctls
    are all or nothing (\<open>Shm_Ioctl\<close>); what a wait returns, its mutex, its time and that it ends
    (\<open>Shm_Wait\<close>).
  \<^item> \<^verbatim>\<open>mmap\<close> maps exactly the pages the header page names or undoes what it did (\<open>Shm_Mmap\<close>); every ioctl keeps the
    instance well formed (\<open>Shm_Dispatch\<close>); over any sequence of file operations every open file has its instance, the sweep of the
    delayed queue is that of a list, closing tells the peer first, and an instance that cannot be given back at
    once is lost (\<open>Shm_File\<close>); loading is all or nothing and unloading ends (\<open>Shm_Module\<close>).
  \<^item> The messages can be read back as they were written (\<open>Udp_Proto\<close>); the client's handshake is all or nothing
    (\<open>Client_Lib\<close>); the callback of the server is safe and keeps its lists, but for the newest opening, which stays linked when it
    is freed (\<open>Server_Lib\<close>); a shutdown handles each block once, and a whole run is safe as long as the newest opening is
    not dropped (\<open>Server_Run\<close>); a completed handshake connects each sending pipe to the memory of the right receiving pipe
    (\<open>Conn_Handshake\<close>).
  \<^item> Over the module, an end that offers and an end that connects with what the offer returned have the same pages, in the
    same order, behind their mappings, and when the module of the peer closes its side no read or write of
    this end hangs (\<open>Pipe_Device\<close>); after a completed handshake this holds of both pipes of client and server (\<open>Conn_Device\<close>).
  \<^item> The handlers return when they are told to, the ping server is an echo, and the stream is passed on in order
    (\<open>Handler_Lib\<close>).

  \<^bold>\<open>Interfaces.\<close>  Loops over \<open>option\<close> and walks over linked lists have a locale each in the prelude, interpreted for each such loop; the
  two waiting functions share a locale for one round (\<open>Pipe_Wait\<close>); the transfer of a whole buffer is proved once over a locale for one transfer and interpreted for
  reading and writing (\<open>Pipe_Api\<close>), and the transfer handlers once more over a locale for such a transfer (\<open>Handler_Lib\<close>); the
  frame conditions of the two ends are locales of \<open>Pipe_System\<close>; sequences of actions of one end between those of the other are
  composed in a locale of \<open>Pipe_Types\<close>, interpreted for the reader and for the writer.

  \<^bold>\<open>Not modelled.\<close>  The other test programs and the scripts, which only call the above and print, and the signal handlers of the
  test programs.  The messages printed.  The
  insides of \<^verbatim>\<open>libev\<close>, of threads and of sockets: a datagram may be lost, repeated or come from anywhere, since what a call receives
  is a parameter.  The threads of the server run over their pipes beside the model of the callback, which shows only when their
  pipes are freed.  Reordering of memory accesses by the processor is not modelled: accesses of the two sides interleave, and
  setting or clearing a bit of a flag word is one step.
\<close>

end
